(* ===== verification/Prelude.thy ===== *)
theory Prelude
  imports Main "HOL-Library.Word" "HOL-Library.Sublist"
begin

text \<open>
  Shared ground of the development: the collections that carry the component
  proofs, the type abbreviations of the model (Go \<^verbatim>\<open>time.Time\<close> and
  \<^verbatim>\<open>time.Duration\<close> as nanoseconds, Go strings as byte strings), decimal
  printing as \<^verbatim>\<open>strconv.Itoa\<close> does it, and generic lemmas on lists and
  searches.
\<close>

named_theorems errs_simps \<open>how the error predicates evaluate on each error constructor\<close>
named_theorems ctx_simps \<open>contexts, observers and the shared world\<close>
named_theorems frame_intros \<open>frame conditions of computations\<close>

type_synonym time = int
type_synonym duration = int
type_synonym headers = "(string \<times> string list) list"

text \<open>The zero \<^verbatim>\<open>time.Time\<close> is instant 0.\<close>

abbreviation IsZero :: "time \<Rightarrow> bool" where
  "IsZero t \<equiv> t = 0"

abbreviation Millisecond :: duration where
  "Millisecond \<equiv> 1000000"

abbreviation Second :: duration where
  "Second \<equiv> 1000000000"

section \<open>Decimal text\<close>

fun nat_text :: "nat \<Rightarrow> string" where
  "nat_text n =
     (if n < 10 then [char_of (48 + n)] else nat_text (n div 10) @ [char_of (48 + n mod 10)])"

declare nat_text.simps [simp del]

definition Itoa :: "int \<Rightarrow> string" where
  "Itoa i = (if i < 0 then ''-'' @ nat_text (nat (- i)) else nat_text (nat i))"

lemma nat_text_nonempty [simp]: "nat_text n \<noteq> []"
  by (subst nat_text.simps) simp

lemma Itoa_nonempty [simp]: "Itoa i \<noteq> []"
  by (simp add: Itoa_def)

definition is_digit :: "char \<Rightarrow> bool" where
  "is_digit c \<longleftrightarrow> 48 \<le> (of_char c :: nat) \<and> (of_char c :: nat) \<le> 57"

lemma is_digit_char_of: "d < 10 \<Longrightarrow> is_digit (char_of (48 + d :: nat))"
  by (simp add: is_digit_def)

lemma nat_text_digits: "\<forall>c \<in> set (nat_text n). is_digit c"
proof (induction n rule: nat_text.induct)
  case (1 n)
  show ?case
  proof (cases "n < 10")
    case True
    then show ?thesis by (subst nat_text.simps) (simp add: is_digit_char_of)
  next
    case False
    with 1 have IH: "\<forall>c \<in> set (nat_text (n div 10)). is_digit c" by simp
    have "is_digit (char_of (48 + n mod 10))" by (rule is_digit_char_of) simp
    with False IH show ?thesis by (subst nat_text.simps) auto
  qed
qed

section \<open>Searching lists\<close>

text \<open>A search over a prefix list answers first, as a loop with an early return does.\<close>

lemma find_append:
  "List.find P (xs @ ys) = (case List.find P xs of None \<Rightarrow> List.find P ys | Some x \<Rightarrow> Some x)"
  by (induction xs) auto

lemma find_None_iff': "List.find P xs = None \<longleftrightarrow> (\<forall>x \<in> set xs. \<not> P x)"
  by (induction xs) auto

lemma find_SomeD: "List.find P xs = Some x \<Longrightarrow> x \<in> set xs \<and> P x"
  by (induction xs) (auto split: if_splits)

lemma find_Some_ex: "List.find P xs \<noteq> None \<longleftrightarrow> (\<exists>x \<in> set xs. P x)"
  by (induction xs) auto

text \<open>Counting entries that satisfy a predicate.\<close>

definition count_if :: "('a \<Rightarrow> bool) \<Rightarrow> 'a list \<Rightarrow> nat" where
  "count_if P xs = length (filter P xs)"

lemma count_if_simps [simp]:
  "count_if P [] = 0"
  "count_if P (x # xs) = (if P x then Suc (count_if P xs) else count_if P xs)"
  "count_if P (xs @ ys) = count_if P xs + count_if P ys"
  by (simp_all add: count_if_def)

lemma count_if_none: "(\<forall>x \<in> set xs. \<not> P x) \<Longrightarrow> count_if P xs = 0"
  by (simp add: count_if_def)

section \<open>Joining texts\<close>

text \<open>\<^verbatim>\<open>strings.Join\<close> and \<^verbatim>\<open>bytes.Join\<close>: the separator between consecutive parts.\<close>

fun join_with :: "'a list \<Rightarrow> 'a list list \<Rightarrow> 'a list" where
  "join_with sep [] = []"
| "join_with sep [x] = x"
| "join_with sep (x # y # ys) = x @ sep @ join_with sep (y # ys)"

lemma join_with_Cons: "xs \<noteq> [] \<Longrightarrow> join_with sep (x # xs) = x @ sep @ join_with sep xs"
  by (cases xs) auto

lemma length_join_with:
  "length (join_with sep xs) = sum_list (map length xs) + (length xs - 1) * length sep"
  by (induction sep xs rule: join_with.induct) auto

section \<open>Signed 64-bit arithmetic\<close>

lemma sint_word64: "- (2 ^ 63) \<le> x \<Longrightarrow> x < 2 ^ 63 \<Longrightarrow> sint (word_of_int x :: 64 word) = x"
  by (simp add: int_word_sint)

end
