(* ===== verification/Go_Errors.thy ===== *)
theory Go_Errors
  imports Prelude
begin

text \<open>
  The error values of the library and the two traversals every decision rests on,
  \<^verbatim>\<open>errors.Is\<close> and \<^verbatim>\<open>errors.As\<close>. A Go error is a tree: sentinels are leaves
  compared by identity, and the typed errors of \<^verbatim>\<open>failure.go\<close>, \<^verbatim>\<open>errors.go\<close>,
  \<^verbatim>\<open>invoke.go\<close>, \<^verbatim>\<open>invoker/retry.go\<close> and \<^verbatim>\<open>nats/errors.go\<close> are inner nodes
  whose children are what their \<^verbatim>\<open>Unwrap\<close> method returns. Errors of other code
  (handlers, brokers, stores) are \<^verbatim>\<open>UserError\<close> nodes, which carry a text, the
  sentinels their own \<^verbatim>\<open>Is\<close> method claims, the answers of \<^verbatim>\<open>Retryable()\<close> and
  \<^verbatim>\<open>Terminal()\<close> when they have these methods, and the errors they wrap. Typed nil
  pointers are not error values of the model.
\<close>

section \<open>Sentinels\<close>

text \<open>Sentinels of other packages that the source compares against.\<close>

datatype foreign = NatsErrMaxPayload | NatsErrTimeout | NatsErrNoResponders
  | JsErrNoStreamResponse | JsErrNoMessages

datatype sentinel =
    ErrDuplicate | ErrCircuitOpen | ErrRateLimited | ErrSendToDLQ | ErrRetriesExhausted
  | ErrDeadLettered | ErrInProgress | ErrDeadLetterFailed
  | ErrHandlerPanic | ErrHandlerTimeout
  | ErrBusClosed | ErrShutdownInterrupted | ErrQueueFull
  | ErrUnknownEvent | ErrMalformedEnvelope | ErrMissingUpcaster | ErrUnknownVersion
  | Canceled | DeadlineExceeded
  | ErrRemoteFailure | ErrRemoteDecode | ErrRemoteHandler
  | ErrStreamRequired | ErrInvalidConfig | ErrNoEnvelope | ErrReplaySubject
  | Foreign foreign

text \<open>The texts of the sentinels declared under src/ and of the two context errors.\<close>

fun sentinel_text :: "sentinel \<Rightarrow> string" where
  "sentinel_text ErrDuplicate = ''duplicate execution''"
| "sentinel_text ErrCircuitOpen = ''circuit breaker open''"
| "sentinel_text ErrRateLimited = ''rate limit exceeded''"
| "sentinel_text ErrSendToDLQ = ''send to dlq''"
| "sentinel_text ErrRetriesExhausted = ''event: retries exhausted''"
| "sentinel_text ErrDeadLettered = ''event: dead-lettered''"
| "sentinel_text ErrInProgress = ''event: execution in progress''"
| "sentinel_text ErrDeadLetterFailed = ''event: dead-letter publish failed''"
| "sentinel_text ErrHandlerPanic = ''event: handler panic''"
| "sentinel_text ErrHandlerTimeout = ''event: handler timeout''"
| "sentinel_text ErrBusClosed = ''event: bus closed''"
| "sentinel_text ErrShutdownInterrupted = ''event: shutdown interrupted''"
| "sentinel_text ErrQueueFull = ''event: queue full''"
| "sentinel_text ErrUnknownEvent = ''event: unknown event''"
| "sentinel_text ErrMalformedEnvelope = ''event: malformed envelope''"
| "sentinel_text ErrMissingUpcaster = ''event: missing upcaster''"
| "sentinel_text ErrUnknownVersion = ''event: unknown event version''"
| "sentinel_text Canceled = ''context canceled''"
| "sentinel_text DeadlineExceeded = ''context deadline exceeded''"
| "sentinel_text ErrRemoteFailure = ''nats: remote failure''"
| "sentinel_text ErrRemoteDecode = ''nats: remote decode failure''"
| "sentinel_text ErrRemoteHandler = ''nats: remote handler failure''"
| "sentinel_text ErrStreamRequired = ''stream is required for JetStream subscription''"
| "sentinel_text ErrInvalidConfig = ''eventbus: invalid consumer configuration''"
| "sentinel_text ErrNoEnvelope =
     ''jetstream: DLQ record has no envelope bytes and no registry to encode its event''"
| "sentinel_text ErrReplaySubject = ''jetstream: replay record has no valid target subject''"
| "sentinel_text (Foreign f) = []"

section \<open>The stable reason vocabulary (failure.go)\<close>

definition ReasonTerminal :: string where "ReasonTerminal = ''terminal''"
definition ReasonRetriesExhausted :: string where "ReasonRetriesExhausted = ''retries_exhausted''"
definition ReasonDeliveryExhausted :: string where "ReasonDeliveryExhausted = ''delivery_exhausted''"
definition ReasonCircuitOpen :: string where "ReasonCircuitOpen = ''circuit_open''"
definition ReasonRateLimited :: string where "ReasonRateLimited = ''rate_limited''"
definition ReasonUnknownVersion :: string where "ReasonUnknownVersion = ''unknown_version''"
definition ReasonInProgress :: string where "ReasonInProgress = ''in_progress''"
definition ReasonDecodeMalformed :: string where "ReasonDecodeMalformed = ''decode_malformed''"
definition ReasonDecodeUnknownEvent :: string where
  "ReasonDecodeUnknownEvent = ''decode_unknown_event''"
definition ReasonDecodeMissingUpcaster :: string where
  "ReasonDecodeMissingUpcaster = ''decode_missing_upcaster''"
definition ReasonDecodeFailed :: string where "ReasonDecodeFailed = ''decode_failed''"
definition ReasonDuplicate :: string where "ReasonDuplicate = ''duplicate''"
definition ReasonInterrupted :: string where "ReasonInterrupted = ''interrupted''"
definition ReasonPanic :: string where "ReasonPanic = ''panic''"
definition ReasonBusClosed :: string where "ReasonBusClosed = ''bus_closed''"
definition ReasonQueueFull :: string where "ReasonQueueFull = ''queue_full''"

lemmas reason_defs = ReasonTerminal_def ReasonRetriesExhausted_def ReasonDeliveryExhausted_def
  ReasonCircuitOpen_def ReasonRateLimited_def ReasonUnknownVersion_def ReasonInProgress_def
  ReasonDecodeMalformed_def ReasonDecodeUnknownEvent_def ReasonDecodeMissingUpcaster_def
  ReasonDecodeFailed_def ReasonDuplicate_def ReasonInterrupted_def ReasonPanic_def
  ReasonBusClosed_def ReasonQueueFull_def

text \<open>The whole vocabulary, in the order of the source.\<close>

definition reasons :: "string list" where
  "reasons = [ReasonTerminal, ReasonRetriesExhausted, ReasonDeliveryExhausted, ReasonCircuitOpen,
     ReasonRateLimited, ReasonUnknownVersion, ReasonInProgress, ReasonDecodeMalformed,
     ReasonDecodeUnknownEvent, ReasonDecodeMissingUpcaster, ReasonDecodeFailed, ReasonDuplicate,
     ReasonInterrupted, ReasonPanic, ReasonBusClosed, ReasonQueueFull]"

section \<open>Error values\<close>

text \<open>Attempt and its class (signals.go): one entry of the retry history.\<close>

datatype AttemptClass = AttemptTransient | AttemptTerminal | AttemptTimeout | AttemptPanic

record attempt =
  at_N :: int
  at_Err :: string
  at_Class :: AttemptClass
  at_Started :: time
  at_Duration :: duration
  at_Delay :: duration

datatype error =
    Sentinel sentinel
  | UserError string "sentinel list" "bool option" "bool option" "error list"
  | WrapError string "error list"
  | JoinError "error list"
  | PanicError string string
  | FailureError "error option" string int "attempt list"
  | DeadLetteredError "error option" string
  | DeadLetterFailedError "error option" string "error option"
  | DecodeError string int "error option"
  | HandlerError string "error option"
  | PermanentError error
  | RetryableError error
  | RemoteError string string string


section \<open>errors.Is and errors.As\<close>

text \<open>What the \<^verbatim>\<open>Unwrap\<close> method of each error type returns.\<close>

fun Unwrap_FailureError :: "error option \<Rightarrow> string \<Rightarrow> error list" where
  "Unwrap_FailureError Cause Reason =
     (case Cause of None \<Rightarrow> [] | Some e \<Rightarrow> [e]) @
     (if Reason = ReasonTerminal then [Sentinel ErrSendToDLQ]
      else if Reason = ReasonRetriesExhausted then [Sentinel ErrRetriesExhausted]
      else [])"

fun Unwrap_DeadLetteredError :: "error option \<Rightarrow> error list" where
  "Unwrap_DeadLetteredError Cause =
     [Sentinel ErrDeadLettered] @ (case Cause of None \<Rightarrow> [] | Some e \<Rightarrow> [e])"

fun Unwrap_DeadLetterFailedError :: "error option \<Rightarrow> error option \<Rightarrow> error list" where
  "Unwrap_DeadLetterFailedError Cause PublishErr =
     [Sentinel ErrDeadLetterFailed] @ (case PublishErr of None \<Rightarrow> [] | Some e \<Rightarrow> [e])
       @ (case Cause of None \<Rightarrow> [] | Some e \<Rightarrow> [e])"

fun Unwrap :: "error \<Rightarrow> error list" where
  "Unwrap (Sentinel s) = []"
| "Unwrap (UserError _ _ _ _ es) = es"
| "Unwrap (WrapError _ es) = es"
| "Unwrap (JoinError es) = es"
| "Unwrap (PanicError _ _) = []"
| "Unwrap (FailureError c r _ _) = Unwrap_FailureError c r"
| "Unwrap (DeadLetteredError c _) = Unwrap_DeadLetteredError c"
| "Unwrap (DeadLetterFailedError c _ p) = Unwrap_DeadLetterFailedError c p"
| "Unwrap (DecodeError _ _ c) = (case c of None \<Rightarrow> [] | Some e \<Rightarrow> [e])"
| "Unwrap (HandlerError _ c) = (case c of None \<Rightarrow> [] | Some e \<Rightarrow> [e])"
| "Unwrap (PermanentError e) = [e]"
| "Unwrap (RetryableError e) = [e]"
| "Unwrap (RemoteError _ _ _) = []"

text \<open>
  The depth of an error bounds both traversals: the Go code follows \<^verbatim>\<open>Unwrap\<close> until
  it is exhausted, which terminates because an error value is a finite tree.
\<close>

primrec depth :: "error \<Rightarrow> nat" where
  "depth (Sentinel s) = 0"
| "depth (UserError t i r m es) = Suc (sum_list (map depth es))"
| "depth (WrapError t es) = Suc (sum_list (map depth es))"
| "depth (JoinError es) = Suc (sum_list (map depth es))"
| "depth (PanicError v st) = 0"
| "depth (FailureError c r a h) = Suc (case map_option depth c of None \<Rightarrow> 0 | Some n \<Rightarrow> n)"
| "depth (DeadLetteredError c r) = Suc (case map_option depth c of None \<Rightarrow> 0 | Some n \<Rightarrow> n)"
| "depth (DeadLetterFailedError c r p) =
     Suc ((case map_option depth c of None \<Rightarrow> 0 | Some n \<Rightarrow> n)
        + (case map_option depth p of None \<Rightarrow> 0 | Some n \<Rightarrow> n))"
| "depth (DecodeError n v c) = Suc (case map_option depth c of None \<Rightarrow> 0 | Some n \<Rightarrow> n)"
| "depth (HandlerError h c) = Suc (case map_option depth c of None \<Rightarrow> 0 | Some n \<Rightarrow> n)"
| "depth (PermanentError e) = Suc (depth e)"
| "depth (RetryableError e) = Suc (depth e)"
| "depth (RemoteError s r m) = 0"

lemma depth_Unwrap: "x \<in> set (Unwrap e) \<Longrightarrow> depth x < depth e"
proof -
  have mem: "depth x < Suc (sum_list (map depth es))" if "x \<in> set es" for es
    using that by (simp add: le_imp_less_Suc member_le_sum_list)
  assume "x \<in> set (Unwrap e)"
  then show ?thesis
    by (cases e) (auto intro: mem split: option.splits if_splits)
qed

text \<open>The nodes of an error in the order \<^verbatim>\<open>errors.Is\<close> and \<^verbatim>\<open>errors.As\<close> visit them.\<close>

function nodes :: "error \<Rightarrow> error list" where
  "nodes e = e # concat (map nodes (Unwrap e))"
  by pat_completeness auto
termination
  by (relation "measure depth") (auto dest: depth_Unwrap)

declare nodes.simps [simp del]

text \<open>\<^verbatim>\<open>RemoteError.isDecode\<close>, \<^verbatim>\<open>reasonSentinels\<close> and \<^verbatim>\<open>RemoteError.Is\<close> (nats/errors.go).\<close>

definition isDecode :: "string \<Rightarrow> bool" where
  "isDecode Reason \<longleftrightarrow> prefix ''decode_'' Reason \<or> Reason = ReasonUnknownVersion"

definition reasonSentinels :: "string \<rightharpoonup> sentinel" where
  "reasonSentinels = map_of
     [(ReasonTerminal, ErrSendToDLQ), (ReasonRetriesExhausted, ErrRetriesExhausted),
      (ReasonCircuitOpen, ErrCircuitOpen), (ReasonRateLimited, ErrRateLimited),
      (ReasonInProgress, ErrInProgress), (ReasonUnknownVersion, ErrUnknownVersion),
      (ReasonDecodeMalformed, ErrMalformedEnvelope), (ReasonDecodeUnknownEvent, ErrUnknownEvent),
      (ReasonDecodeMissingUpcaster, ErrMissingUpcaster), (ReasonDuplicate, ErrDuplicate),
      (ReasonPanic, ErrHandlerPanic), (ReasonInterrupted, ErrShutdownInterrupted)]"

fun Is_RemoteError :: "string \<Rightarrow> sentinel \<Rightarrow> bool" where
  "Is_RemoteError Reason ErrRemoteFailure = True"
| "Is_RemoteError Reason ErrRemoteDecode = isDecode Reason"
| "Is_RemoteError Reason ErrRemoteHandler = (\<not> isDecode Reason)"
| "Is_RemoteError Reason target = (reasonSentinels Reason = Some target)"

text \<open>Does one node match the target: identity, or the node's own \<^verbatim>\<open>Is\<close> method.\<close>

fun node_is :: "sentinel \<Rightarrow> error \<Rightarrow> bool" where
  "node_is t (Sentinel s) = (s = t)"
| "node_is t (UserError _ is _ _ _) = (t \<in> set is)"
| "node_is t (PanicError _ _) = (t = ErrHandlerPanic)"
| "node_is t (RemoteError _ r _) = Is_RemoteError r t"
| "node_is t _ = False"

definition errors_Is :: "error \<Rightarrow> sentinel \<Rightarrow> bool" where
  "errors_Is e t = list_ex (node_is t) (nodes e)"

text \<open>\<^verbatim>\<open>errors.As\<close> for each target type: the first node of that type.\<close>

definition is_FailureError :: "error \<Rightarrow> bool" where
  "is_FailureError e = (case e of FailureError _ _ _ _ \<Rightarrow> True | _ \<Rightarrow> False)"
definition is_DeadLetteredError :: "error \<Rightarrow> bool" where
  "is_DeadLetteredError e = (case e of DeadLetteredError _ _ \<Rightarrow> True | _ \<Rightarrow> False)"
definition is_DeadLetterFailedError :: "error \<Rightarrow> bool" where
  "is_DeadLetterFailedError e = (case e of DeadLetterFailedError _ _ _ \<Rightarrow> True | _ \<Rightarrow> False)"
definition is_DecodeError :: "error \<Rightarrow> bool" where
  "is_DecodeError e = (case e of DecodeError _ _ _ \<Rightarrow> True | _ \<Rightarrow> False)"
definition is_PanicError :: "error \<Rightarrow> bool" where
  "is_PanicError e = (case e of PanicError _ _ \<Rightarrow> True | _ \<Rightarrow> False)"

lemmas is_type_defs = is_FailureError_def is_DeadLetteredError_def is_DeadLetterFailedError_def
  is_DecodeError_def is_PanicError_def

definition errors_As :: "(error \<Rightarrow> bool) \<Rightarrow> error \<Rightarrow> error option" where
  "errors_As P e = List.find P (nodes e)"

text \<open>The \<^verbatim>\<open>Terminal()\<close> and \<^verbatim>\<open>Retryable()\<close> methods, for the types that have them.\<close>

fun Terminal_method :: "error \<Rightarrow> bool option" where
  "Terminal_method (UserError _ _ _ t _) = t"
| "Terminal_method (PanicError _ _) = Some True"
| "Terminal_method (PermanentError _) = Some True"
| "Terminal_method _ = None"

fun Retryable_method :: "error \<Rightarrow> bool option" where
  "Retryable_method (UserError _ _ r _ _) = r"
| "Retryable_method (PermanentError _) = Some False"
| "Retryable_method (RetryableError _) = Some True"
| "Retryable_method _ = None"

definition as_Terminal :: "error \<Rightarrow> bool option" where
  "as_Terminal e = (case errors_As (\<lambda>n. Terminal_method n \<noteq> None) e of
     None \<Rightarrow> None | Some n \<Rightarrow> Terminal_method n)"

definition as_Retryable :: "error \<Rightarrow> bool option" where
  "as_Retryable e = (case errors_As (\<lambda>n. Retryable_method n \<noteq> None) e of
     None \<Rightarrow> None | Some n \<Rightarrow> Retryable_method n)"

section \<open>How the traversals evaluate\<close>

lemma nodes_self [simp]: "e \<in> set (nodes e)"
  by (subst nodes.simps) simp

lemma nodes_trans: "x \<in> set (nodes e) \<Longrightarrow> set (nodes x) \<subseteq> set (nodes e)"
proof (induction e rule: nodes.induct)
  case (1 e)
  show ?case
  proof (cases "x = e")
    case False
    with 1 obtain y where y: "y \<in> set (Unwrap e)" "x \<in> set (nodes y)"
      by (subst (asm) nodes.simps) auto
    with 1 have "set (nodes x) \<subseteq> set (nodes y)" by blast
    with y(1) show ?thesis by (subst (2) nodes.simps) auto
  qed simp
qed

lemma errors_Is_unfold [errs_simps]:
  "errors_Is e t \<longleftrightarrow> node_is t e \<or> (\<exists>x \<in> set (Unwrap e). errors_Is x t)"
  unfolding errors_Is_def by (subst nodes.simps) (auto simp: list_ex_iff)

lemma errors_Is_iff: "errors_Is e t \<longleftrightarrow> (\<exists>n \<in> set (nodes e). node_is t n)"
  by (simp add: errors_Is_def list_ex_iff)

lemma errors_Is_simps [simp]:
  "errors_Is (Sentinel s) t \<longleftrightarrow> s = t"
  "errors_Is (UserError x is rt tm es) t \<longleftrightarrow> t \<in> set is \<or> (\<exists>e \<in> set es. errors_Is e t)"
  "errors_Is (WrapError x es) t \<longleftrightarrow> (\<exists>e \<in> set es. errors_Is e t)"
  "errors_Is (JoinError es) t \<longleftrightarrow> (\<exists>e \<in> set es. errors_Is e t)"
  "errors_Is (PanicError pv st) t \<longleftrightarrow> t = ErrHandlerPanic"
  "errors_Is (DeadLetteredError c r) t \<longleftrightarrow>
     t = ErrDeadLettered \<or> (\<exists>e. c = Some e \<and> errors_Is e t)"
  "errors_Is (DeadLetterFailedError c r p) t \<longleftrightarrow>
     t = ErrDeadLetterFailed \<or> (\<exists>e. p = Some e \<and> errors_Is e t) \<or> (\<exists>e. c = Some e \<and> errors_Is e t)"
  "errors_Is (DecodeError n v c) t \<longleftrightarrow> (\<exists>e. c = Some e \<and> errors_Is e t)"
  "errors_Is (HandlerError h c) t \<longleftrightarrow> (\<exists>e. c = Some e \<and> errors_Is e t)"
  "errors_Is (PermanentError e) t \<longleftrightarrow> errors_Is e t"
  "errors_Is (RetryableError e) t \<longleftrightarrow> errors_Is e t"
  "errors_Is (RemoteError sj r m) t \<longleftrightarrow> Is_RemoteError r t"
  by (subst errors_Is_unfold; auto simp: errors_Is_def[of "Sentinel _"] nodes.simps split: option.splits)+

lemma errors_Is_FailureError [simp]:
  "errors_Is (FailureError c r a h) t \<longleftrightarrow>
     (\<exists>e. c = Some e \<and> errors_Is e t) \<or> r = ReasonTerminal \<and> t = ErrSendToDLQ
       \<or> r = ReasonRetriesExhausted \<and> t = ErrRetriesExhausted"
proof -
  have "ReasonTerminal \<noteq> ReasonRetriesExhausted" by (simp add: reason_defs)
  then show ?thesis
    by (subst errors_Is_unfold) (auto split: option.splits if_splits)
qed

lemma errors_As_unfold:
  "errors_As P e = (if P e then Some e else List.find P (concat (map nodes (Unwrap e))))"
  unfolding errors_As_def by (subst nodes.simps) simp

lemma errors_As_None: "errors_As P e = None \<longleftrightarrow> (\<forall>n \<in> set (nodes e). \<not> P n)"
  by (simp add: errors_As_def find_None_iff')

lemma errors_As_SomeD: "errors_As P e = Some n \<Longrightarrow> n \<in> set (nodes e) \<and> P n"
  unfolding errors_As_def by (rule find_SomeD)

lemma errors_As_self [simp]: "P e \<Longrightarrow> errors_As P e = Some e"
  by (simp add: errors_As_unfold)

text \<open>Wrapping never hides a sentinel: the cause of every wrapper is still matched.\<close>

lemma errors_Is_Unwrap: "x \<in> set (Unwrap e) \<Longrightarrow> errors_Is x t \<Longrightarrow> errors_Is e t"
  by (subst errors_Is_unfold) blast

section \<open>Error texts\<close>

definition causeText :: "string option \<Rightarrow> string" where
  "causeText t = (case t of None \<Rightarrow> ''unknown error'' | Some s \<Rightarrow> s)"

primrec Error_text :: "error \<Rightarrow> string" where
  "Error_text (Sentinel s) = sentinel_text s"
| "Error_text (UserError t i r m es) = t"
| "Error_text (WrapError t es) = t"
| "Error_text (JoinError es) = join_with [CHR 0x0A] (map Error_text es)"
| "Error_text (PanicError v st) = ''event: handler panic: '' @ v"
| "Error_text (FailureError c r a h) =
     ''event: '' @ (if r = [] then ''failed'' else r) @ '': '' @ causeText (map_option Error_text c)"
| "Error_text (DeadLetteredError c r) =
     sentinel_text ErrDeadLettered @ '' ('' @ r @ ''): '' @ causeText (map_option Error_text c)"
| "Error_text (DeadLetterFailedError c r p) =
     sentinel_text ErrDeadLetterFailed @ '' ('' @ r @ ''): '' @ causeText (map_option Error_text p)
       @ ''; cause: '' @ causeText (map_option Error_text c)"
| "Error_text (DecodeError n v c) =
     (if n \<noteq> [] then ''event: decode '' @ n @ '' v'' @ Itoa v @ '': '' @ causeText (map_option Error_text c)
      else ''event: decode: '' @ causeText (map_option Error_text c))"
| "Error_text (HandlerError h c) =
     ''event: handler '' @ h @ '': '' @ causeText (map_option Error_text c)"
| "Error_text (PermanentError e) = Error_text e"
| "Error_text (RetryableError e) = Error_text e"
| "Error_text (RemoteError s r m) =
     ''nats: remote failure on '' @ s @ '': '' @ r @ (if m \<noteq> [] then '': '' @ m else [])"

text \<open>\<^verbatim>\<open>fmt.Errorf("%w: %w", a, b)\<close>.\<close>

definition wrap2 :: "error \<Rightarrow> error \<Rightarrow> error" where
  "wrap2 a b = WrapError (Error_text a @ '': '' @ Error_text b) [a, b]"

lemma errors_Is_wrap2 [simp]: "errors_Is (wrap2 a b) t \<longleftrightarrow> errors_Is a t \<or> errors_Is b t"
  by (simp add: wrap2_def)

text \<open>\<^verbatim>\<open>errors.Join\<close>: nil when there is nothing to join.\<close>

definition errors_Join :: "error list \<Rightarrow> error option" where
  "errors_Join es = (if es = [] then None else Some (JoinError es))"

end
