(* ===== verification/World.thy ===== *)
theory World
  imports Go_Errors
begin

text \<open>
  The data that flows through the bus and the state its code shares: events,
  metadata and deliveries (event.go, metadata.go, delivery.go), the typed signals an
  Observer receives (signals.go), the per-delivery FailureScope (scope.go), the context
  values and cancellation a \<^verbatim>\<open>context.Context\<close> carries, and the world a computation
  reads and updates.

  A Go call that may panic and have effects is a function from a world to a result and
  a world. Handlers, DLQ publishers, stores and event callbacks are such functions and
  are never constrained: they may advance the clock, cancel contexts, emit signals and
  panic. \<^verbatim>\<open>time.Now()\<close> reads the clock of the world, which only moves inside such
  external calls and waits.
\<close>

section \<open>Events, metadata, deliveries\<close>

text \<open>
  An event with the answers of its optional interfaces: \<^verbatim>\<open>WithId\<close>, \<^verbatim>\<open>WithVersion\<close>,
  \<^verbatim>\<open>WithIdempotencyKey\<close>, \<^verbatim>\<open>WithRateLimitKey\<close>, and whether it has an \<^verbatim>\<open>OnErr\<close> method.
\<close>

record event =
  ev_Name :: string
  ev_Id :: "string option"
  ev_Version :: "int option"
  ev_IdempotencyKey :: "string option"
  ev_RateLimitKey :: "string option"
  ev_OnErr :: bool
  ev_Payload :: string

record metadata =
  md_ID :: string
  md_CorrelationID :: string
  md_CausationID :: string
  md_Name :: string
  md_Version :: int
  md_Timestamp :: time
  md_Headers :: "(string \<times> string) list"

record delivery =
  d_Count :: int
  d_Max :: int
  d_Subject :: string
  d_Raw :: string
  d_Headers :: headers
  d_Stream :: string
  d_Consumer :: string
  d_StreamSeq :: int
  d_PublishedAt :: time
  d_System :: string

text \<open>The zero Delivery and the one a caller assumes when the context carries none.\<close>

definition zero_delivery :: delivery where
  "zero_delivery = \<lparr>d_Count = 0, d_Max = 0, d_Subject = [], d_Raw = [], d_Headers = [],
     d_Stream = [], d_Consumer = [], d_StreamSeq = 0, d_PublishedAt = 0, d_System = []\<rparr>"

definition single_delivery :: delivery where
  "single_delivery = zero_delivery\<lparr>d_Count := 1, d_Max := 1\<rparr>"

definition Final :: "delivery \<Rightarrow> bool" where
  "Final d \<longleftrightarrow> d_Max d > 0 \<and> d_Count d \<ge> d_Max d"

lemma Final_single [simp]: "Final single_delivery"
  by (simp add: Final_def single_delivery_def)

lemma not_Final_zero [simp]: "\<not> Final zero_delivery"
  by (simp add: Final_def zero_delivery_def)

record execution =
  x_Handler :: string
  x_StartedAt :: time

definition zero_execution :: execution where
  "zero_execution = \<lparr>x_Handler = [], x_StartedAt = 0\<rparr>"

section \<open>Signals\<close>

datatype BreakerState = BreakerUnknown | BreakerClosed | BreakerOpen | BreakerHalfOpen

datatype BreakerReason = BreakerReasonFailureThreshold | BreakerReasonOpenTimeoutElapsed
  | BreakerReasonProbeSucceeded | BreakerReasonProbeFailed

datatype FailingInvoker = InvokerRetry | InvokerCircuitBreaker | InvokerDLQ | InvokerTransport

text \<open>Outcomes: the constants of settle.go and signals.go, the empty string included.\<close>

datatype Outcome = OutcomeNone
  | OutcomeDeadLettered | OutcomeDLQPublishFailed | OutcomeDropped | OutcomeInterrupted
  | OutcomeRejected
  | OutcomeOK | OutcomeRetry | OutcomeDuplicate | OutcomeInProgress | OutcomeRateLimited
  | OutcomeCircuitOpen | OutcomeFailed | OutcomeDecodeFailed

fun outcome_text :: "Outcome \<Rightarrow> string" where
  "outcome_text OutcomeNone = []"
| "outcome_text OutcomeDeadLettered = ''dead_lettered''"
| "outcome_text OutcomeDLQPublishFailed = ''dlq_publish_failed''"
| "outcome_text OutcomeDropped = ''dropped''"
| "outcome_text OutcomeInterrupted = ''interrupted''"
| "outcome_text OutcomeRejected = ''rejected''"
| "outcome_text OutcomeOK = ''ok''"
| "outcome_text OutcomeRetry = ''retry''"
| "outcome_text OutcomeDuplicate = ''duplicate''"
| "outcome_text OutcomeInProgress = ''in_progress''"
| "outcome_text OutcomeRateLimited = ''rate_limited''"
| "outcome_text OutcomeCircuitOpen = ''circuit_open''"
| "outcome_text OutcomeFailed = ''failed''"
| "outcome_text OutcomeDecodeFailed = ''decode_failed''"

record breaker_transition =
  bt_Handler :: string
  bt_From :: BreakerState
  bt_To :: BreakerState
  bt_Reason :: BreakerReason
  bt_Failures :: int
  bt_At :: time
  bt_Seq :: "64 word"
  bt_BreakerID :: "64 word"

record retry_attempt_info =
  ra_Handler :: string
  ra_Event :: string
  ra_Attempt :: int
  ra_Class :: AttemptClass
  ra_Err :: "error option"
  ra_Delay :: duration
  ra_At :: time

record handler_result =
  hr_Handler :: string
  hr_Event :: string
  hr_Outcome :: Outcome
  hr_Duration :: duration
  hr_Err :: "error option"
  hr_At :: time

record failure_context =
  fc_Handler :: string
  fc_Event :: "event option"
  fc_Metadata :: "metadata option"
  fc_Outcome :: Outcome
  fc_Reason :: string
  fc_Cause :: "error option"
  fc_Invoker :: FailingInvoker
  fc_Attempts :: int
  fc_Delivery :: delivery
  fc_Breaker :: BreakerState
  fc_History :: "attempt list"
  fc_At :: time

record dead_letter_info =
  dl_Handler :: string
  dl_Event :: string
  dl_Reason :: string
  dl_Subject :: string
  dl_Attempts :: int
  dl_Delivery :: delivery
  dl_Size :: nat
  dl_At :: time

record decode_failure =
  df_Handler :: string
  df_Subject :: string
  df_Reason :: string
  df_Err :: "error option"
  df_Delivery :: delivery
  df_Final :: bool

record dlq_publish_failure =
  pf_Handler :: string
  pf_Event :: string
  pf_Reason :: string
  pf_Subject :: string
  pf_Attempts :: int
  pf_Err :: "error option"
  pf_Delivery :: delivery
  pf_Final :: bool

record store_error_info =
  se_Handler :: string
  se_Event :: string
  se_Store :: string
  se_Op :: string
  se_Err :: "error option"

record idempotency_stale_info =
  is_Handler :: string
  is_Event :: string
  is_Age :: duration

datatype Component = ComponentTransport | ComponentCircuitBreaker | ComponentEvent

datatype Op = OpConsume | OpAck | OpNak | OpTerm | OpReply | OpEncodeReply | OpPanic
  | OpUnsubscribe | OpDrain

record internal_error_info =
  ie_Component :: Component
  ie_Op :: Op
  ie_Handler :: string
  ie_Subject :: string
  ie_Err :: "error option"

text \<open>One Observer method call, with its payload.\<close>

datatype signal =
    RetryAttempt retry_attempt_info
  | BreakerTransition breaker_transition
  | Failure failure_context
  | DeadLettered dead_letter_info
  | HandlerDone handler_result
  | DecodeFailed decode_failure
  | DLQPublishFailed dlq_publish_failure
  | StoreError store_error_info
  | IdempotencyStale idempotency_stale_info
  | InternalError internal_error_info

definition is_Failure :: "signal \<Rightarrow> bool" where
  "is_Failure s = (case s of Failure _ \<Rightarrow> True | _ \<Rightarrow> False)"

definition is_HandlerDone :: "signal \<Rightarrow> bool" where
  "is_HandlerDone s = (case s of HandlerDone _ \<Rightarrow> True | _ \<Rightarrow> False)"

lemma is_Failure_simps [simp]:
  "is_Failure (Failure f)" "\<not> is_Failure (HandlerDone r)" "\<not> is_Failure (RetryAttempt a)"
  "\<not> is_Failure (BreakerTransition b)" "\<not> is_Failure (DeadLettered d)"
  "\<not> is_Failure (DecodeFailed e)" "\<not> is_Failure (DLQPublishFailed p)"
  "\<not> is_Failure (StoreError t)" "\<not> is_Failure (IdempotencyStale i)" "\<not> is_Failure (InternalError n)"
  by (simp_all add: is_Failure_def)

lemma is_HandlerDone_simps [simp]:
  "is_HandlerDone (HandlerDone r)" "\<not> is_HandlerDone (Failure f)" "\<not> is_HandlerDone (RetryAttempt a)"
  "\<not> is_HandlerDone (BreakerTransition b)" "\<not> is_HandlerDone (DeadLettered d)"
  "\<not> is_HandlerDone (DecodeFailed e)" "\<not> is_HandlerDone (DLQPublishFailed p)"
  "\<not> is_HandlerDone (StoreError t)" "\<not> is_HandlerDone (IdempotencyStale i)"
  "\<not> is_HandlerDone (InternalError n)"
  by (simp_all add: is_HandlerDone_def)

definition redactDelivery :: "delivery \<Rightarrow> delivery" where
  "redactDelivery d = d\<lparr>d_Raw := []\<rparr>"

section \<open>FailureScope, contexts and the world\<close>

record failure_scope =
  fs_breaker :: BreakerState
  fs_reported :: bool
  fs_pending :: "handler_result option"
  fs_flushed :: bool
  fs_settles :: bool

text \<open>
  A context: the values the library stores in it, and the cancellation sources it
  descends from. \<^verbatim>\<open>cx_sources\<close> lists the cancel functions, deadlines and parents that
  can end it; the context is done as soon as the first of them fired.
\<close>

record ctx =
  cx_delivery :: "delivery option"
  cx_execution :: "execution option"
  cx_metadata :: "metadata option"
  cx_observer :: "nat option"
  cx_scope :: "nat option"
  cx_lifecycle :: "nat option"
  cx_sources :: "nat list"

definition Background :: ctx where
  "Background = \<lparr>cx_delivery = None, cx_execution = None, cx_metadata = None,
     cx_observer = None, cx_scope = None, cx_lifecycle = None, cx_sources = []\<rparr>"

text \<open>
  The world: the clock, the Observer calls made so far (observer, scope of the context
  passed, signal), the FailureScopes by address, the next free address, the fired
  cancellations in order (source, \<^verbatim>\<open>Err\<close>, \<^verbatim>\<open>Cause\<close>) and the state of user code.
\<close>

record 'u world =
  w_now :: time
  w_trace :: "(nat \<times> nat option \<times> signal) list"
  w_scopes :: "nat \<Rightarrow> failure_scope"
  w_next :: nat
  w_fired :: "(nat \<times> error \<times> error) list"
  w_user :: 'u

text \<open>A call either returns or panics with a value and the stack at the panic.\<close>

datatype 'a result = Ret 'a | Panics string string

type_synonym ('u, 'a) comp = "'u world \<Rightarrow> 'a result \<times> 'u world"
type_synonym 'u handler = "ctx \<Rightarrow> ('u, error option) comp"
type_synonym 'u invoker = "ctx \<Rightarrow> event \<Rightarrow> string \<Rightarrow> 'u handler \<Rightarrow> ('u, error option) comp"

text \<open>
  What the runtime and the events answer when the code waits or calls back.
  \<^verbatim>\<open>e_wait c d\<close> is a select between a timer of duration \<open>d\<close> and \<^verbatim>\<open>ctx.Done()\<close>: true
  when the timer fired, false when the context ended first. \<^verbatim>\<open>e_OnErr\<close> is the \<^verbatim>\<open>OnErr\<close>
  method of an event.
\<close>

record 'u env =
  e_wait :: "ctx \<Rightarrow> duration \<Rightarrow> 'u world \<Rightarrow> bool \<times> 'u world"
  e_OnErr :: "event \<Rightarrow> ctx \<Rightarrow> error \<Rightarrow> string \<Rightarrow> ('u, unit) comp"

definition WithDelivery :: "ctx \<Rightarrow> delivery \<Rightarrow> ctx" where
  "WithDelivery c d = c\<lparr>cx_delivery := Some d\<rparr>"

definition DeliveryFromContext :: "ctx \<Rightarrow> delivery option" where
  "DeliveryFromContext c = cx_delivery c"

definition WithExecution :: "ctx \<Rightarrow> execution \<Rightarrow> ctx" where
  "WithExecution c x = c\<lparr>cx_execution := Some x\<rparr>"

definition ExecutionFromContext :: "ctx \<Rightarrow> execution option" where
  "ExecutionFromContext c = cx_execution c"

definition WithMetadata :: "ctx \<Rightarrow> metadata \<Rightarrow> ctx" where
  "WithMetadata c md = c\<lparr>cx_metadata := Some md\<rparr>"

definition MetadataFromContext :: "ctx \<Rightarrow> metadata option" where
  "MetadataFromContext c = cx_metadata c"

text \<open>The delivery every policy reads: the one in the context, or a single final one.\<close>

definition delivery_of :: "ctx \<Rightarrow> delivery" where
  "delivery_of c = (case DeliveryFromContext c of None \<Rightarrow> single_delivery | Some d \<Rightarrow> d)"

text \<open>\<^verbatim>\<open>ctx.Err()\<close> and \<^verbatim>\<open>context.Cause(ctx)\<close>: the first source that fired decides.\<close>

definition ctx_done :: "ctx \<Rightarrow> 'u world \<Rightarrow> (nat \<times> error \<times> error) option" where
  "ctx_done c w = List.find (\<lambda>(i, _). i \<in> set (cx_sources c)) (w_fired w)"

definition ctx_Err :: "ctx \<Rightarrow> 'u world \<Rightarrow> error option" where
  "ctx_Err c w = map_option (\<lambda>(_, e, _). e) (ctx_done c w)"

definition ctx_Cause :: "ctx \<Rightarrow> 'u world \<Rightarrow> error option" where
  "ctx_Cause c w = map_option (\<lambda>(_, _, k). k) (ctx_done c w)"

text \<open>\<^verbatim>\<open>errors.Is(context.Cause(ctx), target)\<close>, false on a live context.\<close>

definition cause_is :: "ctx \<Rightarrow> 'u world \<Rightarrow> sentinel \<Rightarrow> bool" where
  "cause_is c w t = (case ctx_Cause c w of None \<Rightarrow> False | Some k \<Rightarrow> errors_Is k t)"

text \<open>\<^verbatim>\<open>ObserverFromContext(ctx).M(ctx, s)\<close>: without an observer the call does nothing.\<close>

definition emit :: "ctx \<Rightarrow> signal \<Rightarrow> 'u world \<Rightarrow> 'u world" where
  "emit c s w = (case cx_observer c of None \<Rightarrow> w
     | Some o' \<Rightarrow> w\<lparr>w_trace := w_trace w @ [(o', cx_scope c, s)]\<rparr>)"

text \<open>A fresh cancellation source, as \<^verbatim>\<open>context.WithCancelCause\<close> makes one.\<close>

definition fire :: "nat \<Rightarrow> error \<Rightarrow> error \<Rightarrow> 'u world \<Rightarrow> 'u world" where
  "fire i e k w = w\<lparr>w_fired := w_fired w @ [(i, e, k)]\<rparr>"

lemma emit_simps [simp, ctx_simps]:
  "w_now (emit c s w) = w_now w"
  "w_scopes (emit c s w) = w_scopes w"
  "w_next (emit c s w) = w_next w"
  "w_fired (emit c s w) = w_fired w"
  "w_user (emit c s w) = w_user w"
  by (simp_all add: emit_def split: option.splits)

lemma emit_trace: "w_trace (emit c s w) =
    w_trace w @ (case cx_observer c of None \<Rightarrow> [] | Some o' \<Rightarrow> [(o', cx_scope c, s)])"
  by (simp add: emit_def split: option.splits)

lemma ctx_done_emit [simp, ctx_simps]:
  "ctx_done c (emit c' s w) = ctx_done c w"
  "ctx_Err c (emit c' s w) = ctx_Err c w"
  "ctx_Cause c (emit c' s w) = ctx_Cause c w"
  "cause_is c (emit c' s w) t = cause_is c w t"
  by (simp_all add: ctx_done_def ctx_Err_def ctx_Cause_def cause_is_def)

lemma delivery_of_WithDelivery [simp, ctx_simps]: "delivery_of (WithDelivery c d) = d"
  by (simp add: delivery_of_def DeliveryFromContext_def WithDelivery_def)

text \<open>A context that is done stays done with the same error and cause.\<close>

lemma ctx_done_fire: "ctx_done c w = Some x \<Longrightarrow> ctx_done c (fire i e k w) = Some x"
  by (simp add: ctx_done_def fire_def find_append)

end
