(* ===== verification/Failure_Model.thy ===== *)
theory Failure_Model
  imports World
begin

text \<open>
  The failure model shared by every transport: how an error is classified. ReasonOf,
  AttemptsOf, IsInterrupted and the decode helpers of failure.go, Dispose of settle.go,
  FailingInvokerOf and AttemptClassOf of signals.go, OutcomeOf of scope.go and
  WrapInterrupted of lifecycle.go. The lemmas show which errors each classification
  answers for and that the classifications agree with each other.
\<close>

section \<open>Definitions\<close>

definition isDecodeError :: "error \<Rightarrow> bool" where
  "isDecodeError err \<longleftrightarrow> errors_As is_DecodeError err \<noteq> None"

definition isTerminal :: "error \<Rightarrow> bool" where
  "isTerminal err \<longleftrightarrow> errors_Is err ErrSendToDLQ \<or> as_Terminal err = Some True"

text \<open>The Reason carried by the first error of a given type, empty when there is none.\<close>

definition carried_reason :: "error option \<Rightarrow> string" where
  "carried_reason e = (case e of
     Some (DeadLetteredError _ r) \<Rightarrow> r
   | Some (DeadLetterFailedError _ r _) \<Rightarrow> r
   | Some (FailureError _ r _ _) \<Rightarrow> r
   | _ \<Rightarrow> [])"

definition ReasonOf :: "error option \<Rightarrow> string" where
  "ReasonOf e = (case e of None \<Rightarrow> [] | Some err \<Rightarrow>
     if errors_Is err ErrHandlerPanic then ReasonPanic
     else if carried_reason (errors_As is_DeadLetteredError err) \<noteq> []
       then carried_reason (errors_As is_DeadLetteredError err)
     else if carried_reason (errors_As is_DeadLetterFailedError err) \<noteq> []
       then carried_reason (errors_As is_DeadLetterFailedError err)
     else if carried_reason (errors_As is_FailureError err) \<noteq> []
       then carried_reason (errors_As is_FailureError err)
     else if errors_Is err ErrDuplicate then ReasonDuplicate
     else if errors_Is err ErrBusClosed then ReasonBusClosed
     else if errors_Is err ErrQueueFull then ReasonQueueFull
     else if errors_Is err ErrShutdownInterrupted then ReasonInterrupted
     else if isTerminal err then ReasonTerminal
     else if errors_Is err ErrUnknownVersion then ReasonUnknownVersion
     else if errors_Is err ErrCircuitOpen then ReasonCircuitOpen
     else if errors_Is err ErrRateLimited then ReasonRateLimited
     else if errors_Is err ErrInProgress then ReasonInProgress
     else if errors_Is err ErrMalformedEnvelope then ReasonDecodeMalformed
     else if errors_Is err ErrUnknownEvent then ReasonDecodeUnknownEvent
     else if errors_Is err ErrMissingUpcaster then ReasonDecodeMissingUpcaster
     else if isDecodeError err then ReasonDecodeFailed
     else if errors_Is err ErrRetriesExhausted then ReasonRetriesExhausted
     else ReasonDeliveryExhausted)"

definition AttemptsOf :: "error option \<Rightarrow> int" where
  "AttemptsOf e = (case e of None \<Rightarrow> 0 | Some err \<Rightarrow>
     (case errors_As is_FailureError err of
        Some (FailureError _ _ n _) \<Rightarrow> n
      | _ \<Rightarrow>
        if ReasonOf (Some err) \<in> {ReasonCircuitOpen, ReasonRateLimited, ReasonInProgress,
             ReasonUnknownVersion, ReasonDuplicate, ReasonDecodeMalformed, ReasonDecodeUnknownEvent,
             ReasonDecodeMissingUpcaster, ReasonDecodeFailed}
        then 0 else 1))"

definition IsInterrupted :: "ctx option \<Rightarrow> error option \<Rightarrow> 'u world \<Rightarrow> bool" where
  "IsInterrupted c e w = (case c of None \<Rightarrow> False | Some c' \<Rightarrow>
     if ctx_Err c' w = None then False
     else (case e of None \<Rightarrow> False
       | Some err \<Rightarrow> errors_Is err Canceled \<or> errors_Is err DeadlineExceeded))"

definition WrapDecodeError :: "error option \<Rightarrow> error option" where
  "WrapDecodeError e = (case e of None \<Rightarrow> None
     | Some err \<Rightarrow> if isDecodeError err then Some err else Some (DecodeError [] 0 (Some err)))"

definition WrapInterrupted :: "ctx \<Rightarrow> error option \<Rightarrow> 'u world \<Rightarrow> error option" where
  "WrapInterrupted c e w = (case e of None \<Rightarrow> None | Some err \<Rightarrow>
     if errors_Is err ErrShutdownInterrupted then Some err
     else if \<not> errors_Is err Canceled \<and> \<not> errors_Is err DeadlineExceeded then Some err
     else if \<not> cause_is c w ErrShutdownInterrupted then Some err
     else Some (wrap2 (Sentinel ErrShutdownInterrupted) err))"

text \<open>The zero value of Disposition is invalid; a panicking Settle leaves it behind.\<close>

datatype Disposition = DispositionInvalid | DispositionAck | DispositionRetry
  | DispositionRetryDelayed | DispositionTerminal

fun Disposition_String :: "Disposition \<Rightarrow> string" where
  "Disposition_String DispositionAck = ''ack''"
| "Disposition_String DispositionRetry = ''retry''"
| "Disposition_String DispositionRetryDelayed = ''retry_delayed''"
| "Disposition_String DispositionTerminal = ''terminal''"
| "Disposition_String DispositionInvalid = ''unknown''"

definition retryUnlessFinal :: "delivery \<Rightarrow> Disposition" where
  "retryUnlessFinal d = (if Final d then DispositionTerminal else DispositionRetryDelayed)"

definition Dispose :: "error option \<Rightarrow> delivery \<Rightarrow> Disposition" where
  "Dispose e d = (case e of None \<Rightarrow> DispositionAck | Some err \<Rightarrow>
     if errors_Is err ErrDuplicate \<or> errors_Is err ErrDeadLettered then DispositionAck
     else if errors_Is err ErrDeadLetterFailed then DispositionRetryDelayed
     else if errors_Is err ErrHandlerPanic then DispositionTerminal
     else if isTerminal err then DispositionTerminal
     else if errors_Is err ErrUnknownVersion \<or> errors_Is err ErrCircuitOpen
       \<or> errors_Is err ErrRateLimited \<or> errors_Is err ErrInProgress then retryUnlessFinal d
     else if isDecodeError err then DispositionTerminal
     else retryUnlessFinal d)"

definition FailingInvokerOf :: "error option \<Rightarrow> FailingInvoker" where
  "FailingInvokerOf e = (case e of None \<Rightarrow> InvokerTransport | Some err \<Rightarrow>
     if errors_Is err ErrCircuitOpen then InvokerCircuitBreaker
     else if errors_As is_DeadLetteredError err \<noteq> None \<or> errors_As is_DeadLetterFailedError err \<noteq> None
       then InvokerDLQ
     else if errors_As is_FailureError err \<noteq> None then InvokerRetry
     else InvokerTransport)"

definition AttemptClassOf :: "ctx \<Rightarrow> error \<Rightarrow> 'u world \<Rightarrow> AttemptClass" where
  "AttemptClassOf c err w =
     (if errors_Is err ErrHandlerPanic then AttemptPanic
      else if errors_Is err ErrHandlerTimeout \<or> errors_Is err DeadlineExceeded then AttemptTimeout
      else if errors_Is err Canceled \<and> cause_is c w ErrHandlerTimeout then AttemptTimeout
      else if isTerminal err then AttemptTerminal
      else AttemptTransient)"

definition OutcomeOf :: "ctx \<Rightarrow> error option \<Rightarrow> 'u world \<Rightarrow> Outcome" where
  "OutcomeOf c e w = (case e of None \<Rightarrow> OutcomeOK | Some err \<Rightarrow>
     if errors_Is err ErrDeadLettered then OutcomeDeadLettered
     else if errors_Is err ErrDuplicate then OutcomeDuplicate
     else if errors_Is err ErrShutdownInterrupted then OutcomeInterrupted
     else if IsInterrupted (Some c) e w \<and> \<not> cause_is c w ErrHandlerTimeout then OutcomeInterrupted
     else if errors_Is err ErrInProgress then OutcomeInProgress
     else if errors_Is err ErrRateLimited then OutcomeRateLimited
     else if errors_Is err ErrCircuitOpen then OutcomeCircuitOpen
     else if Dispose e (delivery_of c) = DispositionRetryDelayed \<and> \<not> Final (delivery_of c)
       then OutcomeRetry
     else OutcomeFailed)"

text \<open>\<^verbatim>\<open>finalDelivery\<close> and \<^verbatim>\<open>isFlowControl\<close> of invoke.go.\<close>

definition finalDelivery :: "ctx \<Rightarrow> bool" where
  "finalDelivery c = (case DeliveryFromContext c of None \<Rightarrow> True | Some d \<Rightarrow> Final d)"

definition isFlowControl :: "Outcome \<Rightarrow> bool" where
  "isFlowControl o' \<longleftrightarrow> o' = OutcomeInProgress \<or> o' = OutcomeRateLimited \<or> o' = OutcomeCircuitOpen"

lemma finalDelivery_eq [simp]: "finalDelivery c = Final (delivery_of c)"
  by (simp add: finalDelivery_def delivery_of_def split: option.splits)

section \<open>The disposition of an error\<close>

lemma Dispose_never_Retry: "Dispose e d \<noteq> DispositionRetry" "Dispose e d \<noteq> DispositionInvalid"
  by (simp_all add: Dispose_def retryUnlessFinal_def split: option.splits)

lemma Dispose_Ack_iff:
  "Dispose (Some err) d = DispositionAck \<longleftrightarrow> errors_Is err ErrDuplicate \<or> errors_Is err ErrDeadLettered"
  by (simp add: Dispose_def retryUnlessFinal_def)

lemma Dispose_None [simp]: "Dispose None d = DispositionAck"
  by (simp add: Dispose_def)

lemma Dispose_final_RetryDelayed_iff:
  "Final d \<Longrightarrow> Dispose (Some err) d = DispositionRetryDelayed \<longleftrightarrow>
     errors_Is err ErrDeadLetterFailed \<and> \<not> errors_Is err ErrDuplicate \<and> \<not> errors_Is err ErrDeadLettered"
  by (auto simp: Dispose_def retryUnlessFinal_def)

text \<open>The part of Dispose that does not look at the delivery.\<close>

definition permanent :: "error \<Rightarrow> bool" where
  "permanent err \<longleftrightarrow> errors_Is err ErrHandlerPanic \<or> isTerminal err
     \<or> isDecodeError err \<and> \<not> errors_Is err ErrUnknownVersion \<and> \<not> errors_Is err ErrCircuitOpen
       \<and> \<not> errors_Is err ErrRateLimited \<and> \<not> errors_Is err ErrInProgress"

lemma Dispose_cases:
  "Dispose (Some err) d =
     (if errors_Is err ErrDuplicate \<or> errors_Is err ErrDeadLettered then DispositionAck
      else if errors_Is err ErrDeadLetterFailed then DispositionRetryDelayed
      else if permanent err \<or> Final d then DispositionTerminal
      else DispositionRetryDelayed)"
  by (auto simp: Dispose_def permanent_def retryUnlessFinal_def)

lemma Dispose_Terminal_iff:
  "Dispose (Some err) d = DispositionTerminal \<longleftrightarrow>
     \<not> errors_Is err ErrDuplicate \<and> \<not> errors_Is err ErrDeadLettered \<and> \<not> errors_Is err ErrDeadLetterFailed
     \<and> (permanent err \<or> Final d)"
  by (auto simp: Dispose_cases)

section \<open>Reasons\<close>

lemma reasons_distinct: "distinct reasons"
  by (simp add: reasons_def reason_defs)

lemma reasons_nonempty: "[] \<notin> set reasons"
  by (simp add: reasons_def reason_defs)

lemma ReasonOf_None [simp]: "ReasonOf None = []"
  by (simp add: ReasonOf_def)

lemma reason_neq_Nil [simp]:
  "ReasonTerminal \<noteq> []" "ReasonRetriesExhausted \<noteq> []" "ReasonDeliveryExhausted \<noteq> []"
  "ReasonCircuitOpen \<noteq> []" "ReasonRateLimited \<noteq> []" "ReasonUnknownVersion \<noteq> []"
  "ReasonInProgress \<noteq> []" "ReasonDecodeMalformed \<noteq> []" "ReasonDecodeUnknownEvent \<noteq> []"
  "ReasonDecodeMissingUpcaster \<noteq> []" "ReasonDecodeFailed \<noteq> []" "ReasonDuplicate \<noteq> []"
  "ReasonInterrupted \<noteq> []" "ReasonPanic \<noteq> []" "ReasonBusClosed \<noteq> []" "ReasonQueueFull \<noteq> []"
  by (simp_all add: reason_defs)

lemma if_neqI: "(c \<Longrightarrow> a \<noteq> z) \<Longrightarrow> (\<not> c \<Longrightarrow> b \<noteq> z) \<Longrightarrow> (if c then a else b) \<noteq> z"
  by simp

lemma ReasonOf_nonempty [simp]: "ReasonOf (Some err) \<noteq> []"
  unfolding ReasonOf_def option.case by (intro if_neqI; (assumption | rule reason_neq_Nil))

lemma ReasonOf_DeadLettered:
  assumes "\<not> errors_Is err ErrHandlerPanic" and "r \<noteq> []"
  shows "ReasonOf (Some (DeadLetteredError (Some err) r)) = r"
  using assms by (simp add: ReasonOf_def is_type_defs carried_reason_def)

text \<open>An error whose own nodes carry only vocabulary reasons.\<close>

definition vocabulary :: "error \<Rightarrow> bool" where
  "vocabulary err = list_all (\<lambda>n. carried_reason (Some n) = [] \<or> carried_reason (Some n) \<in> set reasons)
     (nodes err)"

lemma carried_reason_vocabulary:
  "vocabulary err \<Longrightarrow> carried_reason (errors_As P err) \<noteq> [] \<Longrightarrow>
     carried_reason (errors_As P err) \<in> set reasons"
  by (cases "errors_As P err")
    (auto simp: vocabulary_def list_all_iff carried_reason_def dest!: errors_As_SomeD)

lemma in_reasons:
  "ReasonTerminal \<in> set reasons" "ReasonRetriesExhausted \<in> set reasons"
  "ReasonDeliveryExhausted \<in> set reasons" "ReasonCircuitOpen \<in> set reasons"
  "ReasonRateLimited \<in> set reasons" "ReasonUnknownVersion \<in> set reasons"
  "ReasonInProgress \<in> set reasons" "ReasonDecodeMalformed \<in> set reasons"
  "ReasonDecodeUnknownEvent \<in> set reasons" "ReasonDecodeMissingUpcaster \<in> set reasons"
  "ReasonDecodeFailed \<in> set reasons" "ReasonDuplicate \<in> set reasons"
  "ReasonInterrupted \<in> set reasons" "ReasonPanic \<in> set reasons"
  "ReasonBusClosed \<in> set reasons" "ReasonQueueFull \<in> set reasons"
  by (simp_all add: reasons_def)

text \<open>When no error in the tree carries a foreign reason, ReasonOf is a documented constant.\<close>

lemma ReasonOf_vocabulary: "vocabulary err \<Longrightarrow> ReasonOf (Some err) \<in> set reasons"
  by (simp add: ReasonOf_def in_reasons carried_reason_vocabulary)

section \<open>Interruption and decode wrapping\<close>

lemma WrapInterrupted_None [simp]: "WrapInterrupted c None w = None"
  by (simp add: WrapInterrupted_def)

lemma WrapInterrupted_keeps:
  "WrapInterrupted c (Some err) w = Some err' \<Longrightarrow> errors_Is err t \<Longrightarrow> errors_Is err' t"
  by (auto simp: WrapInterrupted_def split: if_splits)

lemma WrapInterrupted_adds_only:
  "WrapInterrupted c (Some err) w = Some err' \<Longrightarrow> t \<noteq> ErrShutdownInterrupted \<Longrightarrow>
     errors_Is err' t = errors_Is err t"
  by (auto simp: WrapInterrupted_def split: if_splits)

lemma WrapInterrupted_Some: "\<exists>err'. WrapInterrupted c (Some err) w = Some err'"
  by (simp add: WrapInterrupted_def)

lemma isDecodeError_iff: "isDecodeError err \<longleftrightarrow> (\<exists>n \<in> set (nodes err). is_DecodeError n)"
  by (auto simp: isDecodeError_def errors_As_None)

lemma isDecodeError_DecodeError [simp]: "isDecodeError (DecodeError n v e)"
  by (simp add: isDecodeError_def is_DecodeError_def)

lemma WrapDecodeError_decode:
  "WrapDecodeError (Some err) = Some err' \<Longrightarrow> isDecodeError err' \<and> errors_Is err' t = errors_Is err t"
  by (auto simp: WrapDecodeError_def split: if_splits)

end
