(* ===== verification/Frames.thy ===== *)
theory Frames
  imports Failure_Model
begin

text \<open>
  Frame conditions. The exactly-once guarantees of the library are per delivery: a
  transport installs one FailureScope per delivery, and only InvokeHandler and Settle
  of that delivery may report its end. \<^verbatim>\<open>quiet\<close> says that a computation leaves the
  report of a scope alone: it never emits Failure or HandlerDone on it and never
  touches its report flags, whatever else it does (nested emits, other scopes, breaker
  state, time, cancellation). Handlers, invokers, stores and publishers are quiet on
  the scope they run under; the lemmas show how quietness composes.
\<close>

type_synonym entry = "nat \<times> nat option \<times> signal"

text \<open>A trace entry that ends the message of scope \<open>sid\<close>.\<close>

definition ends :: "nat \<Rightarrow> entry \<Rightarrow> bool" where
  "ends sid e = (case e of (_, s, sg) \<Rightarrow> s = Some sid \<and> (is_Failure sg \<or> is_HandlerDone sg))"

definition failure_on :: "nat \<Rightarrow> entry \<Rightarrow> bool" where
  "failure_on sid e = (case e of (_, s, sg) \<Rightarrow> s = Some sid \<and> is_Failure sg)"

definition done_on :: "nat \<Rightarrow> entry \<Rightarrow> bool" where
  "done_on sid e = (case e of (_, s, sg) \<Rightarrow> s = Some sid \<and> is_HandlerDone sg)"

lemmas ends_defs = ends_def failure_on_def done_on_def

text \<open>The report state of a scope: everything but the breaker state.\<close>

definition report_state :: "failure_scope \<Rightarrow> bool \<times> handler_result option \<times> bool \<times> bool" where
  "report_state s = (fs_reported s, fs_pending s, fs_flushed s, fs_settles s)"

definition quiet_step :: "nat \<Rightarrow> 'u world \<Rightarrow> 'u world \<Rightarrow> bool" where
  "quiet_step sid w w' \<longleftrightarrow>
     w_next w \<le> w_next w'
   \<and> report_state (w_scopes w' sid) = report_state (w_scopes w sid)
   \<and> (\<exists>new. w_trace w' = w_trace w @ new \<and> list_all (\<lambda>e. \<not> ends sid e) new)"

text \<open>A computation is quiet on every scope that exists when it starts.\<close>

definition quiet :: "nat \<Rightarrow> ('u, 'a) comp \<Rightarrow> bool" where
  "quiet sid f \<longleftrightarrow> (\<forall>w. sid < w_next w \<longrightarrow> quiet_step sid w (snd (f w)))"

definition quiet_fn :: "nat \<Rightarrow> ('u world \<Rightarrow> 'u world) \<Rightarrow> bool" where
  "quiet_fn sid f \<longleftrightarrow> (\<forall>w. sid < w_next w \<longrightarrow> quiet_step sid w (f w))"

definition quiet_handler :: "nat \<Rightarrow> 'u handler \<Rightarrow> bool" where
  "quiet_handler sid h \<longleftrightarrow> (\<forall>c. quiet sid (h c))"

lemma quiet_step_refl [simp, frame_intros]: "quiet_step sid w w"
  by (simp add: quiet_step_def)

lemma quiet_step_trans [trans]:
  "quiet_step sid w w' \<Longrightarrow> quiet_step sid w' w'' \<Longrightarrow> quiet_step sid w w''"
  by (fastforce simp: quiet_step_def)

lemma quiet_step_next: "quiet_step sid w w' \<Longrightarrow> w_next w \<le> w_next w'"
  by (simp add: quiet_step_def)

lemma quiet_stepD: "quiet sid f \<Longrightarrow> sid < w_next w \<Longrightarrow> f w = (r, w') \<Longrightarrow> quiet_step sid w w'"
  unfolding quiet_def by (metis snd_conv)

lemma quiet_handlerD:
  "quiet_handler sid h \<Longrightarrow> sid < w_next w \<Longrightarrow> h c w = (r, w') \<Longrightarrow> quiet_step sid w w'"
  unfolding quiet_handler_def by (blast dest: quiet_stepD)

lemma quietI: "(\<And>w r w'. sid < w_next w \<Longrightarrow> f w = (r, w') \<Longrightarrow> quiet_step sid w w') \<Longrightarrow> quiet sid f"
  unfolding quiet_def by (metis prod.collapse)

lemma quiet_handlerI: "(\<And>c. quiet sid (h c)) \<Longrightarrow> quiet_handler sid h"
  by (simp add: quiet_handler_def)

text \<open>The elementary effects.\<close>

lemma quiet_step_emit:
  "\<not> is_Failure s \<Longrightarrow> \<not> is_HandlerDone s \<Longrightarrow> quiet_step sid w (emit c s w)"
  by (simp add: quiet_step_def emit_trace ends_def split: option.splits)

lemma quiet_step_emit_other:
  "cx_scope c \<noteq> Some sid \<Longrightarrow> quiet_step sid w (emit c s w)"
  by (simp add: quiet_step_def emit_trace ends_def split: option.splits)

lemma quiet_step_upd [simp, frame_intros]:
  "quiet_step sid w (w\<lparr>w_now := t\<rparr>)"
  "quiet_step sid w (w\<lparr>w_user := u\<rparr>)"
  "quiet_step sid w (fire i e k w)"
  by (simp_all add: quiet_step_def fire_def)

lemma quiet_step_scope:
  "report_state (f (w_scopes w i)) = report_state (w_scopes w i) \<or> i \<noteq> sid \<Longrightarrow>
     quiet_step sid w (w\<lparr>w_scopes := (w_scopes w)(i := f (w_scopes w i))\<rparr>)"
  by (auto simp: quiet_step_def)

text \<open>Counting the reports of a scope across a quiet step.\<close>

lemma quiet_step_counts:
  assumes "quiet_step sid w w'"
  shows "count_if (failure_on sid) (w_trace w') = count_if (failure_on sid) (w_trace w)"
    and "count_if (done_on sid) (w_trace w') = count_if (done_on sid) (w_trace w)"
    and "report_state (w_scopes w' sid) = report_state (w_scopes w sid)"
proof -
  from assms obtain new where tr: "w_trace w' = w_trace w @ new"
    and q: "list_all (\<lambda>e. \<not> ends sid e) new"
    and rs: "report_state (w_scopes w' sid) = report_state (w_scopes w sid)"
    by (auto simp: quiet_step_def)
  have "count_if (failure_on sid) new = 0" "count_if (done_on sid) new = 0"
    using q by (auto intro!: count_if_none simp: list_all_iff ends_defs split: prod.splits)
  with tr rs show "count_if (failure_on sid) (w_trace w') = count_if (failure_on sid) (w_trace w)"
    and "count_if (done_on sid) (w_trace w') = count_if (done_on sid) (w_trace w)"
    and "report_state (w_scopes w' sid) = report_state (w_scopes w sid)"
    by simp_all
qed

text \<open>Waiting and event callbacks are quiet on a scope.\<close>

definition quiet_env :: "nat \<Rightarrow> 'u env \<Rightarrow> bool" where
  "quiet_env sid E \<longleftrightarrow>
     (\<forall>c d w. sid < w_next w \<longrightarrow> quiet_step sid w (snd (e_wait E c d w)))
   \<and> (\<forall>ev c err h. quiet sid (e_OnErr E ev c err h))"

lemma quiet_env_wait:
  "quiet_env sid E \<Longrightarrow> sid < w_next w \<Longrightarrow> e_wait E c d w = (b, w') \<Longrightarrow> quiet_step sid w w'"
  unfolding quiet_env_def by (metis snd_conv)

lemma quiet_env_OnErr:
  "quiet_env sid E \<Longrightarrow> sid < w_next w \<Longrightarrow> e_OnErr E ev c err h w = (r, w') \<Longrightarrow> quiet_step sid w w'"
  unfolding quiet_env_def by (blast dest: quiet_stepD)

section \<open>The invoker contract\<close>

text \<open>
  What the transports rely on when they call an Invoker: it runs \<^verbatim>\<open>next\<close> some number
  of times and otherwise leaves the report of the delivery alone. Every invoker of the
  library is shown to meet it, and so does every chain of invokers that meet it.
\<close>

locale quiet_invoker =
  fixes Invoke :: "'u invoker"
  assumes quiet_Invoke: "quiet_handler sid next \<Longrightarrow> quiet sid (Invoke c evt h next)"
begin

lemma Invoke_step:
  "quiet_handler sid next \<Longrightarrow> sid < w_next w \<Longrightarrow> Invoke c evt h next w = (r, w') \<Longrightarrow>
     quiet_step sid w w'"
  by (blast intro: quiet_stepD quiet_Invoke)

lemma quiet_handler_next: "quiet_handler sid next \<Longrightarrow> quiet_handler sid (\<lambda>c. Invoke c evt h next)"
  by (simp add: quiet_handlerI quiet_Invoke)

end

section \<open>The runtime contract\<close>

text \<open>
  Timers, context waits and OnErr callbacks never report for an existing delivery. The
  instance is a runtime whose timers sleep for their whole duration unless the context
  already ended, and whose events do nothing in OnErr.
\<close>

locale quiet_runtime =
  fixes E :: "'u env"
  assumes quiet_runtime: "quiet_env sid E"

definition timer_wait :: "ctx \<Rightarrow> duration \<Rightarrow> 'u world \<Rightarrow> bool \<times> 'u world" where
  "timer_wait c d w = (if ctx_Err c w \<noteq> None then (False, w) else (True, w\<lparr>w_now := w_now w + d\<rparr>))"

definition timer_env :: "'u env" where
  "timer_env = \<lparr>e_wait = timer_wait, e_OnErr = (\<lambda>ev c err h w. (Ret (), w))\<rparr>"

interpretation timers: quiet_runtime timer_env
  by unfold_locales (simp add: quiet_env_def timer_env_def timer_wait_def quiet_def)

end
