(* ===== verification/Header_Text.thy ===== *)
theory Header_Text
  imports Go_Errors
begin

text \<open>
  Header-safe text: \<^verbatim>\<open>TruncateHeader\<close> and \<^verbatim>\<open>runeBoundary\<close> (dlq.go) over byte
  strings, with the parts of \<^verbatim>\<open>unicode/utf8\<close> and \<^verbatim>\<open>strings\<close> they use. The lemmas show
  that the result never exceeds its budget, never contains an ASCII control byte (so no
  header can be split) and is valid UTF-8.
\<close>

section \<open>UTF-8\<close>

abbreviation byte :: "char \<Rightarrow> nat" where
  "byte c \<equiv> of_char c"

definition cont :: "char \<Rightarrow> bool" where
  "cont c \<longleftrightarrow> 128 \<le> byte c \<and> byte c < 192"

definition in_range :: "nat \<Rightarrow> nat \<Rightarrow> char \<Rightarrow> bool" where
  "in_range lo hi c \<longleftrightarrow> lo \<le> byte c \<and> byte c \<le> hi"

text \<open>The second byte a multi-byte rune may have after its first byte (utf8.acceptRanges).\<close>

definition second_ok :: "nat \<Rightarrow> char \<Rightarrow> bool" where
  "second_ok b0 c =
     (if b0 = 224 then in_range 160 191 c
      else if b0 = 237 then in_range 128 159 c
      else if b0 = 240 then in_range 144 191 c
      else if b0 = 244 then in_range 128 143 c
      else cont c)"

text \<open>
  The width of the valid rune at the head of a string, 0 when the head is not one
  (\<^verbatim>\<open>utf8.DecodeRuneInString\<close> then answers RuneError with width 1).
\<close>

fun rune_width :: "string \<Rightarrow> nat" where
  "rune_width [] = 0"
| "rune_width (c # cs) =
     (if byte c < 128 then 1
      else if 194 \<le> byte c \<and> byte c \<le> 223 then
        (case cs of c1 # _ \<Rightarrow> if second_ok (byte c) c1 then 2 else 0 | _ \<Rightarrow> 0)
      else if 224 \<le> byte c \<and> byte c \<le> 239 then
        (case cs of c1 # c2 # _ \<Rightarrow> if second_ok (byte c) c1 \<and> cont c2 then 3 else 0 | _ \<Rightarrow> 0)
      else if 240 \<le> byte c \<and> byte c \<le> 244 then
        (case cs of c1 # c2 # c3 # _ \<Rightarrow>
           if second_ok (byte c) c1 \<and> cont c2 \<and> cont c3 then 4 else 0 | _ \<Rightarrow> 0)
      else 0)"

definition RuneStart :: "char \<Rightarrow> bool" where
  "RuneStart c \<longleftrightarrow> \<not> cont c"

lemma second_ok_cont: "second_ok b c \<Longrightarrow> cont c"
  by (auto simp: second_ok_def cont_def in_range_def split: if_splits)

text \<open>A valid rune is a first byte that starts a rune, followed by continuation bytes.\<close>

lemma rune_width_cases:
  assumes "rune_width s = Suc k"
  obtains c cs where "s = c # cs" "k \<le> length cs" "list_all cont (take k cs)"
    "k = 0 \<longleftrightarrow> byte c < 128" "k \<noteq> 0 \<longrightarrow> 194 \<le> byte c" "RuneStart c" "k \<le> 3"
proof -
  from assms obtain c cs where s: "s = c # cs" by (cases s) auto
  with assms have "k \<le> length cs \<and> list_all cont (take k cs) \<and> (k = 0 \<longleftrightarrow> byte c < 128)
      \<and> (k \<noteq> 0 \<longrightarrow> 194 \<le> byte c) \<and> RuneStart c \<and> k \<le> 3"
    by (auto simp: RuneStart_def cont_def[of c] numeral_2_eq_2 numeral_3_eq_3 numeral_eq_Suc
        dest: second_ok_cont split: if_splits list.splits)
  with s that show ?thesis by blast
qed

lemma rune_width_le: "rune_width s \<le> length s"
  by (cases "rune_width s") (auto elim: rune_width_cases)

lemma rune_width_append: "0 < rune_width s \<Longrightarrow> rune_width (s @ t) = rune_width s"
  by (cases s) (auto split: if_splits list.splits)

text \<open>Valid UTF-8: the string splits into valid runes.\<close>

function valid_utf8 :: "string \<Rightarrow> bool" where
  "valid_utf8 s =
     (if s = [] then True else if rune_width s = 0 then False
      else valid_utf8 (drop (rune_width s) s))"
  by pat_completeness auto
termination
  by (relation "measure length") (auto simp: rune_width_le)

declare valid_utf8.simps [simp del]

lemma valid_utf8_Nil [simp]: "valid_utf8 []"
  by (subst valid_utf8.simps) simp

lemma valid_utf8_rune:
  assumes "0 < rune_width s" and "rune_width s = length s" and "valid_utf8 t"
  shows "valid_utf8 (s @ t)"
  using assms by (subst valid_utf8.simps) (auto simp: rune_width_append)

text \<open>\<^verbatim>\<open>strings.ToValidUTF8(s, "\uFFFD")\<close>: each run of invalid bytes becomes one U+FFFD.\<close>

definition RuneError :: string where
  "RuneError = [CHR 0xEF, CHR 0xBF, CHR 0xBD]"

function ToValidUTF8 :: "bool \<Rightarrow> string \<Rightarrow> string" where
  "ToValidUTF8 bad s =
     (if s = [] then []
      else if rune_width s = 0
        then (if bad then [] else RuneError) @ ToValidUTF8 True (tl s)
      else take (rune_width s) s @ ToValidUTF8 False (drop (rune_width s) s))"
  by pat_completeness auto
termination
  by (relation "measure (\<lambda>(_, s). length s)") (auto simp: rune_width_le)

declare ToValidUTF8.simps [simp del]

text \<open>
  \<^verbatim>\<open>strings.Map\<close> with the function that turns every control character into a space.
  \<^verbatim>\<open>unicode.IsControl\<close> holds for U+0000..U+001F and U+007F..U+009F.
\<close>

definition is_control_rune :: "string \<Rightarrow> bool" where
  "is_control_rune r = (case r of
     [c] \<Rightarrow> byte c < 32 \<or> byte c = 127
   | [c, d] \<Rightarrow> byte c = 194 \<and> byte d < 160
   | _ \<Rightarrow> False)"

function Map_control :: "string \<Rightarrow> string" where
  "Map_control s =
     (if s = [] then []
      else if rune_width s = 0 then RuneError @ Map_control (tl s)
      else (if is_control_rune (take (rune_width s) s) then '' '' else take (rune_width s) s)
        @ Map_control (drop (rune_width s) s))"
  by pat_completeness auto
termination
  by (relation "measure length") (auto simp: rune_width_le)

declare Map_control.simps [simp del]

section \<open>TruncateHeader\<close>

definition TruncationMarker :: string where
  "TruncationMarker = [CHR 0xE2, CHR 0x80, CHR 0xA6] @ ''[truncated]''"

function runeBoundary :: "string \<Rightarrow> nat \<Rightarrow> nat" where
  "runeBoundary s n =
     (if n > 0 \<and> n < length s \<and> \<not> RuneStart (s ! n) then runeBoundary s (n - 1) else n)"
  by pat_completeness auto
termination
  by (relation "measure snd") auto

declare runeBoundary.simps [simp del]

definition sanitize :: "string \<Rightarrow> string" where
  "sanitize s = Map_control (ToValidUTF8 False s)"

definition TruncateHeader :: "string \<Rightarrow> int \<Rightarrow> string" where
  "TruncateHeader s lim =
     (if lim \<le> 0 then []
      else let s = sanitize s in
        if int (length s) \<le> lim then s
        else if lim \<le> int (length TruncationMarker) then take (runeBoundary s (nat lim)) s
        else take (runeBoundary s (nat lim - length TruncationMarker)) s @ TruncationMarker)"

section \<open>The budget\<close>

lemma runeBoundary_le: "runeBoundary s n \<le> n"
proof (induction s n rule: runeBoundary.induct)
  case (1 s n)
  then show ?case by (subst runeBoundary.simps) (auto intro: le_trans)
qed

lemma length_TruncateHeader: "0 \<le> lim \<Longrightarrow> int (length (TruncateHeader s lim)) \<le> lim"
proof -
  assume "0 \<le> lim"
  have b: "runeBoundary t n \<le> n" for t n by (rule runeBoundary_le)
  show ?thesis
    using \<open>0 \<le> lim\<close> b[of "sanitize s" "nat lim"] b[of "sanitize s" "nat lim - length TruncationMarker"]
    by (auto simp: TruncateHeader_def Let_def)
qed

section \<open>No control bytes\<close>

definition control_byte :: "char \<Rightarrow> bool" where
  "control_byte c \<longleftrightarrow> byte c < 32 \<or> byte c = 127"

lemma rune_no_control:
  assumes "0 < rune_width s" and "\<not> is_control_rune (take (rune_width s) s)"
    and "c \<in> set (take (rune_width s) s)"
  shows "\<not> control_byte c"
proof -
  obtain k where k: "rune_width s = Suc k" using assms(1) by (cases "rune_width s") auto
  then obtain c0 cs where s: "s = c0 # cs" and cc: "list_all cont (take k cs)"
    and z: "k = 0 \<longleftrightarrow> byte c0 < 128" and big: "k \<noteq> 0 \<longrightarrow> 194 \<le> byte c0"
    by (elim rune_width_cases) blast
  show ?thesis
  proof (cases "k = 0")
    case True
    with assms k s show ?thesis by (simp add: is_control_rune_def control_byte_def)
  next
    case False
    with assms(3) k s big cc show ?thesis
      by (auto simp: control_byte_def list_all_iff cont_def)
  qed
qed

lemma RuneError_no_control: "c \<in> set RuneError \<Longrightarrow> \<not> control_byte c"
  by (auto simp: RuneError_def control_byte_def)

lemma Map_control_no_control: "c \<in> set (Map_control s) \<Longrightarrow> \<not> control_byte c"
proof (induction s rule: Map_control.induct)
  case (1 s)
  consider "s = []" | "s \<noteq> []" "rune_width s = 0" | "s \<noteq> []" "rune_width s \<noteq> 0" by blast
  then show ?case
  proof cases
    case 1
    with "1.prems" show ?thesis by (simp add: Map_control.simps)
  next
    case 2
    with "1.prems" have "c \<in> set RuneError \<or> c \<in> set (Map_control (tl s))"
      by (subst (asm) Map_control.simps) auto
    with "1.IH"(1) 2 RuneError_no_control show ?thesis by blast
  next
    case 3
    with "1.prems" have "c \<in> set (if is_control_rune (take (rune_width s) s) then '' ''
        else take (rune_width s) s) \<or> c \<in> set (Map_control (drop (rune_width s) s))"
      by (subst (asm) Map_control.simps) simp
    with "1.IH"(2) 3 rune_no_control[of s c] show ?thesis
      by (auto simp: control_byte_def split: if_splits)
  qed
qed

lemma TruncationMarker_no_control: "c \<in> set TruncationMarker \<Longrightarrow> \<not> control_byte c"
  by (auto simp: TruncationMarker_def control_byte_def)

lemma TruncateHeader_no_control: "c \<in> set (TruncateHeader s lim) \<Longrightarrow> \<not> control_byte c"
  by (auto simp: TruncateHeader_def sanitize_def Let_def
      dest!: in_set_takeD dest: Map_control_no_control TruncationMarker_no_control split: if_splits)


section \<open>Valid UTF-8\<close>

lemma valid_utf8_append: "valid_utf8 s \<Longrightarrow> valid_utf8 t \<Longrightarrow> valid_utf8 (s @ t)"
proof (induction s rule: valid_utf8.induct)
  case (1 s)
  show ?case
  proof (cases "s = []")
    case False
    let ?k = "rune_width s"
    from False "1.prems"(1) have w: "0 < ?k" and v: "valid_utf8 (drop ?k s)"
      by (auto simp: valid_utf8.simps[of s] split: if_splits)
    from False w v "1" have "valid_utf8 (drop ?k s @ t)" by simp
    moreover have "rune_width (s @ t) = ?k" using w by (rule rune_width_append)
    moreover have "drop ?k (s @ t) = drop ?k s @ t" by (simp add: rune_width_le)
    ultimately show ?thesis using False w by (simp add: valid_utf8.simps[of "s @ t"])
  qed (use "1" in simp)
qed

lemma rune_width_take: "rune_width (take (rune_width s) s) = rune_width s"
  by (cases s) (auto simp: numeral_eq_Suc split: if_splits list.splits)

lemma valid_utf8_one_rune: "0 < rune_width s \<Longrightarrow> valid_utf8 (take (rune_width s) s)"
proof -
  assume w: "0 < rune_width s"
  let ?r = "take (rune_width s) s"
  have "length ?r = rune_width s" by (simp add: rune_width_le)
  then show ?thesis using w by (subst valid_utf8.simps) (auto simp: rune_width_take)
qed

lemma valid_utf8_RuneError [simp]: "valid_utf8 RuneError"
  by (simp add: valid_utf8.simps RuneError_def second_ok_def cont_def numeral_3_eq_3)

lemma valid_utf8_space [simp]: "valid_utf8 '' ''"
  by (simp add: valid_utf8.simps)

lemma valid_utf8_marker: "valid_utf8 TruncationMarker"
  by (simp add: valid_utf8.simps TruncationMarker_def second_ok_def cont_def numeral_3_eq_3)

lemma valid_utf8_Cons: "byte c < 128 \<Longrightarrow> valid_utf8 t \<Longrightarrow> valid_utf8 (c # t)"
  by (subst valid_utf8.simps) simp

lemma valid_utf8_Map_control: "valid_utf8 (Map_control s)"
proof (induction s rule: Map_control.induct)
  case (1 s)
  then show ?case
    by (subst Map_control.simps) (auto intro!: valid_utf8_Cons valid_utf8_append valid_utf8_one_rune)
qed

text \<open>Inside a rune the boundary falls back to its start; beyond it, the rune is skipped.\<close>

lemma rune_inner_cont:
  assumes "0 < i" and "i < rune_width s"
  shows "i < length s \<and> \<not> RuneStart (s ! i)"
proof -
  obtain k where k: "rune_width s = Suc k" using assms by (cases "rune_width s") auto
  then obtain c cs where s: "s = c # cs" and len: "k \<le> length cs" and cc: "list_all cont (take k cs)"
    by (elim rune_width_cases) blast
  from assms k have i: "i - 1 < k" by simp
  with cc len have "cont (cs ! (i - 1))"
    by (auto simp: list_all_length)
  with s assms i len show ?thesis by (auto simp: RuneStart_def nth_Cons')
qed

lemma runeBoundary_in_rune: "0 < rune_width s \<Longrightarrow> n < rune_width s \<Longrightarrow> runeBoundary s n = 0"
proof (induction n)
  case 0
  then show ?case by (simp add: runeBoundary.simps)
next
  case (Suc n)
  then show ?case using rune_inner_cont[of "Suc n" s]
    by (subst runeBoundary.simps) simp
qed

lemma runeBoundary_at_start:
  assumes "0 < rune_width s" and "t = drop (rune_width s) s" and "valid_utf8 t"
  shows "runeBoundary s (rune_width s) = rune_width s"
proof (cases "rune_width s < length s")
  case True
  with assms have "0 < rune_width t"
    using valid_utf8.simps[of t] by (auto split: if_splits)
  then obtain k where "rune_width t = Suc k" by (cases "rune_width t") auto
  then obtain c cs where "t = c # cs" "RuneStart c" by (elim rune_width_cases) blast
  with True assms(2) have "RuneStart (s ! rune_width s)"
    by (metis hd_drop_conv_nth list.sel(1))
  then show ?thesis by (subst runeBoundary.simps) simp
qed (simp add: runeBoundary.simps)

lemma runeBoundary_drop:
  assumes w: "0 < rune_width s" and v: "valid_utf8 (drop (rune_width s) s)"
  shows "rune_width s \<le> n \<Longrightarrow>
    runeBoundary s n = rune_width s + runeBoundary (drop (rune_width s) s) (n - rune_width s)"
proof (induction "n - rune_width s" arbitrary: n)
  case 0
  then have "n = rune_width s" by simp
  with runeBoundary_at_start[OF w refl v] show ?case
    by (simp add: runeBoundary.simps[of _ 0])
next
  case (Suc m)
  let ?k = "rune_width s"
  have n: "?k < n" and IH: "runeBoundary s (n - 1) = ?k + runeBoundary (drop ?k s) (n - 1 - ?k)"
    using Suc by auto
  have "n < length s \<Longrightarrow> drop ?k s ! (n - ?k) = s ! n" using n by simp
  with n IH show ?case
    by (subst runeBoundary.simps, subst (2) runeBoundary.simps) auto
qed

text \<open>Cutting a valid string at a rune boundary keeps it valid.\<close>

lemma valid_utf8_take_boundary: "valid_utf8 s \<Longrightarrow> valid_utf8 (take (runeBoundary s n) s)"
proof (induction s arbitrary: n rule: valid_utf8.induct)
  case (1 s)
  show ?case
  proof (cases "s = []")
    case False
    let ?k = "rune_width s"
    from False "1.prems" have w: "0 < ?k" and v: "valid_utf8 (drop ?k s)"
      by (auto simp: valid_utf8.simps[of s] split: if_splits)
    show ?thesis
    proof (cases "n < ?k")
      case True
      have "runeBoundary s n = 0" by (rule runeBoundary_in_rune[OF w True])
      then show ?thesis by simp
    next
      case False
      have b: "runeBoundary s n = ?k + runeBoundary (drop ?k s) (n - ?k)"
        by (rule runeBoundary_drop[OF w v]) (use False in simp)
      have "valid_utf8 (take (runeBoundary (drop ?k s) (n - ?k)) (drop ?k s))"
        using \<open>s \<noteq> []\<close> w v "1.IH" by simp
      with w show ?thesis
        by (simp add: b take_add valid_utf8_append valid_utf8_one_rune)
    qed
  qed simp
qed

lemma valid_utf8_TruncateHeader: "valid_utf8 (TruncateHeader s lim)"
proof -
  have "valid_utf8 (sanitize s)" by (simp add: sanitize_def valid_utf8_Map_control)
  then show ?thesis
    by (auto simp: TruncateHeader_def Let_def
        intro!: valid_utf8_append valid_utf8_take_boundary valid_utf8_marker)
qed

end
