(* ===== verification/History_Header.thy ===== *)
theory History_Header
  imports Header_Text
begin

text \<open>
  The retry history on the wire (history.go): each attempt as a compact JSON object, the
  newest attempts that fit the byte budget as a JSON array. The string escaping is that of
  \<^verbatim>\<open>encoding/json\<close> with HTML escaping off. The RFC 3339 text of a time is the parameter
  \<^verbatim>\<open>fmtTime\<close>: nothing here depends on it. The lemmas show that the value never exceeds
  its budget and always is the array of the newest attempts, none skipped.
\<close>

section \<open>Encoding one attempt\<close>

definition MaxInt :: int where
  "MaxInt = 2 ^ 63 - 1"

definition hex_digit :: "nat \<Rightarrow> char" where
  "hex_digit n = char_of (if n < 10 then 48 + n else 87 + n)"

definition backslash :: char where
  "backslash = CHR 0x5C"

text \<open>How one rune of a string is written between the quotes.\<close>

definition json_rune :: "string \<Rightarrow> string" where
  "json_rune r = (case r of
     [c] \<Rightarrow>
       if c = CHR 0x22 \<or> c = backslash then [backslash, c]
       else if byte c = 8 then [backslash] @ ''b''
       else if byte c = 12 then [backslash] @ ''f''
       else if byte c = 10 then [backslash] @ ''n''
       else if byte c = 13 then [backslash] @ ''r''
       else if byte c = 9 then [backslash] @ ''t''
       else if byte c < 32 then [backslash] @ ''u00'' @ [hex_digit (byte c div 16), hex_digit (byte c mod 16)]
       else [c]
   | _ \<Rightarrow>
       if r = [CHR 0xE2, CHR 0x80, CHR 0xA8] then [backslash] @ ''u2028''
       else if r = [CHR 0xE2, CHR 0x80, CHR 0xA9] then [backslash] @ ''u2029''
       else r)"

function json_escape :: "string \<Rightarrow> string" where
  "json_escape s =
     (if s = [] then []
      else if rune_width s = 0 then ([backslash] @ ''ufffd'') @ json_escape (tl s)
      else json_rune (take (rune_width s) s) @ json_escape (drop (rune_width s) s))"
  by pat_completeness auto
termination
  by (relation "measure length") (auto simp: rune_width_le)

declare json_escape.simps [simp del]

definition json_string :: "string \<Rightarrow> string" where
  "json_string s = [CHR 0x22] @ json_escape s @ [CHR 0x22]"

fun class_text :: "AttemptClass \<Rightarrow> string" where
  "class_text AttemptTransient = ''transient''"
| "class_text AttemptTerminal = ''terminal''"
| "class_text AttemptTimeout = ''timeout''"
| "class_text AttemptPanic = ''panic''"

text \<open>\<^verbatim>\<open>Duration.Milliseconds()\<close> truncates towards zero.\<close>

definition Milliseconds :: "duration \<Rightarrow> int" where
  "Milliseconds d = sgn d * (\<bar>d\<bar> div 1000000)"

definition json_key :: "string \<Rightarrow> string" where
  "json_key k = json_string k @ '':''"

definition marshalHistoryEntry :: "(time \<Rightarrow> string) \<Rightarrow> attempt \<Rightarrow> string \<Rightarrow> string" where
  "marshalHistoryEntry fmtTime a errText =
     ''{'' @ json_key ''n'' @ Itoa (at_N a)
     @ '','' @ json_key ''err'' @ json_string errText
     @ '','' @ json_key ''class'' @ json_string (class_text (at_Class a))
     @ '','' @ json_key ''at'' @ json_string (fmtTime (at_Started a))
     @ '','' @ json_key ''dur_ms'' @ Itoa (Milliseconds (at_Duration a)) @ ''}''"

definition sanitizeHistoryErr :: "string \<Rightarrow> string" where
  "sanitizeHistoryErr s = TruncateHeader s MaxInt"

section \<open>Shrinking the newest attempt\<close>

function shrink_loop :: "(time \<Rightarrow> string) \<Rightarrow> attempt \<Rightarrow> string \<Rightarrow> int \<Rightarrow> int \<Rightarrow> string" where
  "shrink_loop fmtTime a errText budget room =
     (if room > 0 then
        (let e = marshalHistoryEntry fmtTime a (TruncateHeader errText room) in
         if int (length e) \<le> budget then e
         else shrink_loop fmtTime a errText budget (room - (int (length e) - budget)))
      else marshalHistoryEntry fmtTime a [])"
  by pat_completeness auto
termination
  by (relation "measure (\<lambda>(_, _, _, _, room). nat room)") auto

declare shrink_loop.simps [simp del]

definition shrinkHistoryEntry :: "(time \<Rightarrow> string) \<Rightarrow> attempt \<Rightarrow> int \<Rightarrow> string option" where
  "shrinkHistoryEntry fmtTime a budget =
     (let empty = marshalHistoryEntry fmtTime a [] in
      if int (length empty) > budget then None
      else let errText = sanitizeHistoryErr (at_Err a);
               room = budget - int (length empty);
               room = (if room > int (length errText) then int (length errText) else room)
           in Some (shrink_loop fmtTime a errText budget room))"

section \<open>The array\<close>

text \<open>
  Walk from the newest entry back while the array still fits: \<^verbatim>\<open>kept\<close> entries take
  \<^verbatim>\<open>total\<close> bytes so far, the argument lists the lengths of the older ones, newest first.
\<close>

fun newest_fit :: "int \<Rightarrow> nat list \<Rightarrow> int \<Rightarrow> nat \<Rightarrow> nat" where
  "newest_fit capBytes [] used kept = kept"
| "newest_fit capBytes (l # ls) used kept =
     (let need = int l + (if kept \<noteq> 0 then 1 else 0) in
      if used + need > capBytes then kept
      else newest_fit capBytes ls (used + need) (Suc kept))"

definition EncodeHistoryHeader :: "(time \<Rightarrow> string) \<Rightarrow> attempt list \<Rightarrow> int \<Rightarrow> string \<times> bool" where
  "EncodeHistoryHeader fmtTime history capBytes =
     (if history = [] then ([], False)
      else
        let capBytes = (if capBytes < 2 then 2 else capBytes);
            parts = map (\<lambda>a. marshalHistoryEntry fmtTime a (sanitizeHistoryErr (at_Err a))) history;
            kept = newest_fit capBytes (map length (rev parts)) 2 0;
            first = length parts - kept
        in if kept = 0 then
             (case shrinkHistoryEntry fmtTime (last history) (capBytes - 2) of
                Some e \<Rightarrow> (''['' @ e @ '']'', True)
              | None \<Rightarrow> (''[]'', True))
           else (''['' @ join_with '','' (drop first parts) @ '']'', first > 0))"

section \<open>The budget\<close>

lemma shrink_loop_fits:
  "int (length (marshalHistoryEntry fmtTime a [])) \<le> budget \<Longrightarrow>
     int (length (shrink_loop fmtTime a errText budget room)) \<le> budget"
proof (induction fmtTime a errText budget room rule: shrink_loop.induct)
  case (1 fmtTime a errText budget room)
  then show ?case
    by (subst shrink_loop.simps) (auto simp: Let_def)
qed

lemma shrinkHistoryEntry_fits:
  "shrinkHistoryEntry fmtTime a budget = Some e \<Longrightarrow> int (length e) \<le> budget"
  by (auto simp: shrinkHistoryEntry_def Let_def shrink_loop_fits split: if_splits)

text \<open>How many bytes the kept entries take, with their commas.\<close>

lemma newest_fit_bound:
  assumes "used \<le> cap"
  shows "kept \<le> newest_fit cap ls used kept
    \<and> newest_fit cap ls used kept \<le> kept + length ls
    \<and> used + int (sum_list (take (newest_fit cap ls used kept - kept) ls))
        + int (newest_fit cap ls used kept - kept)
        - (if kept = 0 \<and> newest_fit cap ls used kept \<noteq> 0 then 1 else 0) \<le> cap"
  using assms
proof (induction cap ls used kept rule: newest_fit.induct)
  case (2 cap l ls used kept)
  let ?need = "int l + (if kept \<noteq> 0 then 1 else 0)"
  let ?r = "newest_fit cap ls (used + ?need) (Suc kept)"
  show ?case
  proof (cases "used + ?need > cap")
    case False
    with 2 have IH: "Suc kept \<le> ?r" "?r \<le> Suc kept + length ls"
      "used + ?need + int (sum_list (take (?r - Suc kept) ls)) + int (?r - Suc kept) \<le> cap"
      by (auto simp: Let_def)
    then obtain j where j: "?r = Suc kept + j" using le_Suc_ex by blast
    have eq: "newest_fit cap (l # ls) used kept = Suc kept + j" using False j by (simp add: Let_def)
    from IH j have "used + ?need + int (sum_list (take j ls)) + int j \<le> cap" "j \<le> length ls"
      by simp_all
    then show ?thesis unfolding eq by auto
  qed (use 2 in \<open>simp add: Let_def\<close>)
qed simp

lemma sum_list_take_rev:
  "k \<le> length xs \<Longrightarrow> sum_list (take k (rev xs)) = sum_list (drop (length xs - k) (xs :: nat list))"
  by (simp add: take_rev sum_list_rev)

text \<open>The value with its intermediate results named.\<close>

lemma EncodeHistoryHeader_unfold:
  assumes "history \<noteq> []" and "cb = (if cap < 2 then 2 else cap)"
    and "parts = map (\<lambda>a. marshalHistoryEntry fmtTime a (sanitizeHistoryErr (at_Err a))) history"
    and "kept = newest_fit cb (map length (rev parts)) 2 0"
  shows "EncodeHistoryHeader fmtTime history cap =
      (if kept = 0 then (case shrinkHistoryEntry fmtTime (last history) (cb - 2) of
          Some e \<Rightarrow> (''['' @ e @ '']'', True) | None \<Rightarrow> (''[]'', True))
       else (''['' @ join_with '','' (drop (length parts - kept) parts) @ '']'', length parts - kept > 0))"
  using assms by (simp add: EncodeHistoryHeader_def Let_def)

lemma EncodeHistoryHeader_bound:
  "int (length (fst (EncodeHistoryHeader fmtTime history cap))) \<le> max 2 cap"
proof (cases "history = []")
  case False
  define cb where "cb = (if cap < 2 then 2 else cap)"
  define parts where
    "parts = map (\<lambda>a. marshalHistoryEntry fmtTime a (sanitizeHistoryErr (at_Err a))) history"
  define kept where "kept = newest_fit cb (map length (rev parts)) 2 0"
  have cb: "2 \<le> cb" "cb = max 2 cap" by (auto simp: cb_def)
  have enc: "EncodeHistoryHeader fmtTime history cap =
      (if kept = 0 then (case shrinkHistoryEntry fmtTime (last history) (cb - 2) of
          Some e \<Rightarrow> (''['' @ e @ '']'', True) | None \<Rightarrow> (''[]'', True))
       else (''['' @ join_with '','' (drop (length parts - kept) parts) @ '']'', length parts - kept > 0))"
    by (rule EncodeHistoryHeader_unfold[OF False cb_def parts_def kept_def])
  show ?thesis
  proof (cases "kept = 0")
    case True
    with cb show ?thesis
      by (auto simp: enc dest: shrinkHistoryEntry_fits split: option.splits)
  next
    case kept: False
    have b: "kept \<le> length parts" "2 + int (sum_list (take kept (map length (rev parts)))) + int kept - 1 \<le> cb"
      using newest_fit_bound[OF cb(1), of 0 "map length (rev parts)"] kept by (auto simp: kept_def)
    then have "2 + int (sum_list (map length (drop (length parts - kept) parts))) + int kept - 1 \<le> cb"
      by (simp add: sum_list_take_rev rev_map [symmetric] drop_map)
    with b kept cb show ?thesis
      by (auto simp: enc length_join_with of_nat_diff)
  qed
qed (simp add: EncodeHistoryHeader_def)

text \<open>What is sent: all of the history, or a proper suffix with the truncated flag.\<close>

lemma newest_fit_le: "newest_fit cap ls used kept \<le> kept + length ls"
  by (induction cap ls used kept rule: newest_fit.induct) (auto simp: Let_def)

lemma EncodeHistoryHeader_newest:
  assumes "history \<noteq> []" and "EncodeHistoryHeader fmtTime history cap = (v, trunc)"
  shows "(\<exists>k \<le> length history. 0 < k \<and> trunc = (k < length history) \<and>
            v = ''['' @ join_with '','' (map (\<lambda>a. marshalHistoryEntry fmtTime a (sanitizeHistoryErr (at_Err a)))
                  (drop (length history - k) history)) @ '']'')
       \<or> (trunc \<and> (v = ''[]'' \<or> (\<exists>e. shrinkHistoryEntry fmtTime (last history) (max 2 cap - 2) = Some e
              \<and> v = ''['' @ e @ '']'')))"
proof -
  define cb where "cb = (if cap < 2 then 2 else cap)"
  define parts where
    "parts = map (\<lambda>a. marshalHistoryEntry fmtTime a (sanitizeHistoryErr (at_Err a))) history"
  define kept where "kept = newest_fit cb (map length (rev parts)) 2 0"
  have cb: "cb = max 2 cap" by (auto simp: cb_def)
  have le: "kept \<le> length history"
    using newest_fit_le[of cb "map length (rev parts)" 2 0] by (simp add: kept_def parts_def)
  have "(v, trunc) = (if kept = 0 then (case shrinkHistoryEntry fmtTime (last history) (cb - 2) of
          Some e \<Rightarrow> (''['' @ e @ '']'', True) | None \<Rightarrow> (''[]'', True))
       else (''['' @ join_with '','' (drop (length parts - kept) parts) @ '']'', length parts - kept > 0))"
    using EncodeHistoryHeader_unfold[OF assms(1) cb_def parts_def kept_def] assms(2) by simp
  with le show ?thesis
    by (auto simp: cb parts_def drop_map split: if_splits option.splits intro!: exI[of _ kept])
qed

end
