(* ===== verification/Dead_Letter.thy ===== *)
theory Dead_Letter
  imports Frames History_Header
begin

text \<open>
  Dead-lettering (dlq.go): the record of a failed message, the bounded publish loop,
  PublishDeadLetter with its single report, the in-memory queue and the failure headers
  of a record. A DLQPublisher is a call that may fail or panic; the locale
  \<^verbatim>\<open>dlq_publisher\<close> is what its clients rely on.
\<close>

section \<open>Records\<close>

record dlq_record =
  r_Raw :: string
  r_Headers :: headers
  r_Evt :: "event option"
  r_EventID :: string
  r_EventName :: string
  r_Cause :: "error option"
  r_Reason :: string
  r_Handler :: string
  r_Subject :: string
  r_Attempts :: int
  r_Delivery :: delivery
  r_Execution :: execution
  r_FailedAt :: time
  r_History :: "attempt list"

type_synonym 'u publisher = "ctx \<Rightarrow> dlq_record \<Rightarrow> ('u, error option) comp"

text \<open>The history of the first FailureError in an error, empty when there is none.\<close>

definition history_of :: "error option \<Rightarrow> attempt list" where
  "history_of e = (case e of None \<Rightarrow> [] | Some err \<Rightarrow>
     (case errors_As is_FailureError err of Some (FailureError _ _ _ h) \<Rightarrow> h | _ \<Rightarrow> []))"

definition NewDLQRecord :: "ctx \<Rightarrow> event option \<Rightarrow> string \<Rightarrow> error option \<Rightarrow> 'u world \<Rightarrow> dlq_record" where
  "NewDLQRecord c evt handler cause w =
     (let d = delivery_of c;
          x = (case ExecutionFromContext c of None \<Rightarrow> zero_execution | Some x \<Rightarrow> x);
          handler = (if handler = [] then x_Handler x else handler);
          id0 = (case MetadataFromContext c of None \<Rightarrow> [] | Some md \<Rightarrow> md_ID md);
          name0 = (case MetadataFromContext c of None \<Rightarrow> [] | Some md \<Rightarrow> md_Name md);
          name = (case evt of None \<Rightarrow> name0 | Some e \<Rightarrow> if name0 = [] then ev_Name e else name0);
          id = (case evt of None \<Rightarrow> id0 | Some e \<Rightarrow>
                 if id0 = [] then (case ev_Id e of None \<Rightarrow> id0 | Some i \<Rightarrow> i) else id0)
      in \<lparr>r_Raw = d_Raw d, r_Headers = d_Headers d, r_Evt = evt, r_EventID = id, r_EventName = name,
          r_Cause = cause, r_Reason = ReasonOf cause, r_Handler = handler, r_Subject = d_Subject d,
          r_Attempts = AttemptsOf cause, r_Delivery = d, r_Execution = x, r_FailedAt = w_now w,
          r_History = history_of cause\<rparr>)"

lemma NewDLQRecord_simps [simp]:
  "r_Reason (NewDLQRecord c evt h cause w) = ReasonOf cause"
  "r_Delivery (NewDLQRecord c evt h cause w) = delivery_of c"
  "r_Cause (NewDLQRecord c evt h cause w) = cause"
  "r_Raw (NewDLQRecord c evt h cause w) = d_Raw (delivery_of c)"
  "r_Headers (NewDLQRecord c evt h cause w) = d_Headers (delivery_of c)"
  "r_Evt (NewDLQRecord c evt h cause w) = evt"
  by (simp_all add: NewDLQRecord_def Let_def)

section \<open>Publishing\<close>

definition publishAttemptsFinal :: nat where "publishAttemptsFinal = 3"
definition publishBackoff :: duration where "publishBackoff = 100 * Millisecond"

text \<open>The loop of publishDeadLetter with \<open>n\<close> attempts left.\<close>

fun publish_loop :: "'u env \<Rightarrow> ctx \<Rightarrow> 'u publisher \<Rightarrow> dlq_record \<Rightarrow> nat \<Rightarrow> duration \<Rightarrow>
    ('u, error option) comp" where
  "publish_loop E c p rec 0 delay w = (Ret None, w)"
| "publish_loop E c p rec (Suc n) delay w =
     (case p c rec w of
        (Panics v st, w1) \<Rightarrow> (Panics v st, w1)
      | (Ret None, w1) \<Rightarrow> (Ret None, w1)
      | (Ret (Some err), w1) \<Rightarrow>
          if n = 0 then (Ret (Some err), w1)
          else (case e_wait E c delay w1 of
              (False, w2) \<Rightarrow> (Ret (Some err), w2)
            | (True, w2) \<Rightarrow> publish_loop E c p rec n (delay * 2) w2))"

text \<open>One round: it ends with the result of the call, or waits and goes round again.\<close>

lemma publish_loop_SucE:
  assumes "publish_loop E c p rec (Suc n) delay w = (r, w')"
  obtains (ended) "p c rec w = (r, w')" "r = Ret None \<or> (\<exists>v st. r = Panics v st) \<or> n = 0"
    | (cancelled) err w1 where "p c rec w = (r, w1)" "r = Ret (Some err)" "e_wait E c delay w1 = (False, w')"
    | (again) err w1 w2 where "p c rec w = (Ret (Some err), w1)" "e_wait E c delay w1 = (True, w2)"
        "0 < n" "publish_loop E c p rec n (delay * 2) w2 = (r, w')"
  using assms by (auto split: prod.splits result.splits option.splits if_splits bool.splits)

definition publishDeadLetter :: "'u env \<Rightarrow> ctx \<Rightarrow> 'u publisher \<Rightarrow> dlq_record \<Rightarrow> ('u, error option) comp" where
  "publishDeadLetter E c p rec =
     publish_loop E c p rec (if Final (r_Delivery rec) then publishAttemptsFinal else 1) publishBackoff"

definition PublishDeadLetter :: "'u env \<Rightarrow> ctx \<Rightarrow> 'u publisher \<Rightarrow> dlq_record \<Rightarrow> ('u, error option) comp" where
  "PublishDeadLetter E c p rec w =
     (case publishDeadLetter E c p rec w of
        (Panics v st, w1) \<Rightarrow> (Panics v st, w1)
      | (Ret (Some err), w1) \<Rightarrow>
          (Ret (Some err), emit c (DLQPublishFailed
             \<lparr>pf_Handler = r_Handler rec, pf_Event = r_EventName rec, pf_Reason = r_Reason rec,
              pf_Subject = r_Subject rec, pf_Attempts = r_Attempts rec, pf_Err = Some err,
              pf_Delivery = redactDelivery (r_Delivery rec), pf_Final = Final (r_Delivery rec)\<rparr>) w1)
      | (Ret None, w1) \<Rightarrow>
          (Ret None, emit c (DeadLettered
             \<lparr>dl_Handler = r_Handler rec, dl_Event = r_EventName rec, dl_Reason = r_Reason rec,
              dl_Subject = r_Subject rec, dl_Attempts = r_Attempts rec,
              dl_Delivery = redactDelivery (r_Delivery rec), dl_Size = length (r_Raw rec),
              dl_At = (if IsZero (r_FailedAt rec) then w_now w1 else r_FailedAt rec)\<rparr>) w1))"

section \<open>The publisher contract\<close>

locale dlq_publisher =
  fixes Publish :: "'u publisher"
  assumes quiet_Publish: "quiet sid (Publish c rec)"
begin

lemma quiet_publish_loop:
  assumes "quiet_env sid E"
  shows "sid < w_next w \<Longrightarrow> publish_loop E c Publish rec n delay w = (r, w') \<Longrightarrow> quiet_step sid w w'"
proof (induction n arbitrary: delay w)
  case (Suc n)
  have q1: "quiet_step sid w w1 \<and> sid < w_next w1" if "Publish c rec w = (r1, w1)" for r1 w1
    using quiet_stepD[OF quiet_Publish Suc.prems(1) that] Suc.prems(1) quiet_step_next by fastforce
  have q2: "quiet_step sid w1 w2 \<and> sid < w_next w2"
    if "sid < w_next w1" "e_wait E c delay w1 = (b, w2)" for w1 b w2
    using quiet_env_wait[OF assms that] that(1) quiet_step_next by fastforce
  from Suc.prems(2) show ?case
    by (cases rule: publish_loop_SucE) (use q1 q2 Suc.IH in \<open>blast intro: quiet_step_trans\<close>)+
qed simp

lemma quiet_PublishDeadLetter:
  assumes "quiet_env sid E"
  shows "quiet sid (PublishDeadLetter E c Publish rec)"
proof (rule quietI)
  fix w r w'
  assume n: "sid < w_next w" and run: "PublishDeadLetter E c Publish rec w = (r, w')"
  obtain r1 w1 where p: "publishDeadLetter E c Publish rec w = (r1, w1)" by fastforce
  then have "quiet_step sid w w1"
    unfolding publishDeadLetter_def using quiet_publish_loop[OF assms n] by blast
  with run p show "quiet_step sid w w'"
    by (auto simp: PublishDeadLetter_def split: result.splits option.splits
        intro!: quiet_step_trans[of _ w w1] quiet_step_emit)
qed

end

text \<open>A transport's optional publisher: none, or one that meets the contract.\<close>

definition quiet_dlq :: "'u publisher option \<Rightarrow> bool" where
  "quiet_dlq p \<longleftrightarrow> (case p of None \<Rightarrow> True | Some q \<Rightarrow> dlq_publisher q)"

lemma quiet_dlq_simps [simp]: "quiet_dlq None" "quiet_dlq (Some q) = dlq_publisher q"
  by (simp_all add: quiet_dlq_def)

section \<open>How often a publisher is called\<close>

text \<open>
  To count calls by their result, \<^verbatim>\<open>tally\<close> increments a counter kept next to the user
  state after each call whose result is selected. Everything else may do anything but
  touch that counter.
\<close>

definition calls :: "(nat \<times> 'u) world \<Rightarrow> nat" where
  "calls w = fst (w_user w)"

definition bump :: "(nat \<times> 'u) world \<Rightarrow> (nat \<times> 'u) world" where
  "bump w = w\<lparr>w_user := (Suc (fst (w_user w)), snd (w_user w))\<rparr>"

definition tally :: "(error option result \<Rightarrow> bool) \<Rightarrow> (nat \<times> 'u) publisher \<Rightarrow> (nat \<times> 'u) publisher" where
  "tally sel p c rec w = (case p c rec w of (r, w1) \<Rightarrow> (r, if sel r then bump w1 else w1))"

definition keeps :: "((nat \<times> 'u) world \<Rightarrow> 'a \<times> (nat \<times> 'u) world) \<Rightarrow> bool" where
  "keeps f \<longleftrightarrow> (\<forall>w. calls (snd (f w)) = calls w)"

lemma keepsD: "keeps f \<Longrightarrow> f w = (r, w') \<Longrightarrow> calls w' = calls w"
  unfolding keeps_def by (metis snd_conv)

lemma calls_simps [simp]:
  "calls (bump w) = Suc (calls w)" "calls (emit c s w) = calls w"
  by (simp_all add: calls_def bump_def)

lemma tally_calls:
  "keeps (p c rec) \<Longrightarrow> tally sel p c rec w = (r, w') \<Longrightarrow> calls w' = calls w + (if sel r then 1 else 0)"
  by (auto simp: tally_def split: prod.splits if_splits dest: keepsD)

text \<open>Every attempt of the loop is one call, and only a successful call ends it early.\<close>

lemma publish_loop_calls:
  assumes p: "keeps (p c rec)" and E: "\<And>d. keeps (e_wait E c d)"
  shows "0 < n \<Longrightarrow> publish_loop E c (tally (\<lambda>_. True) p) rec n delay w = (r, w') \<Longrightarrow>
    calls w < calls w' \<and> calls w' \<le> calls w + n
      \<and> ((\<exists>err. r = Ret (Some err)) \<and> (\<forall>c d w. fst (e_wait E c d w)) \<longrightarrow> calls w' = calls w + n)"
proof (induction n arbitrary: delay w)
  case (Suc n)
  note c1 = tally_calls[of p c rec "\<lambda>_. True", OF p] and c2 = keepsD[OF E]
  from Suc.prems(2) show ?case
  proof (cases rule: publish_loop_SucE)
    case ended
    then show ?thesis using c1 by fastforce
  next
    case (cancelled err w1)
    then have "\<not> (\<forall>c d w. fst (e_wait E c d w))" by (metis fst_conv)
    with cancelled c1 c2 show ?thesis by fastforce
  next
    case (again err w1 w2)
    from Suc.IH[OF again(3, 4)] c1[OF again(1)] c2[OF again(2)] show ?thesis by auto
  qed
qed simp

text \<open>A publish loop succeeds at most once, and exactly when it returns nil.\<close>

definition ok_result :: "error option result \<Rightarrow> bool" where
  "ok_result r \<longleftrightarrow> r = Ret None"

lemma publish_loop_ok_calls:
  assumes p: "keeps (p c rec)" and E: "\<And>d. keeps (e_wait E c d)"
  shows "0 < n \<Longrightarrow> publish_loop E c (tally ok_result p) rec n delay w = (r, w') \<Longrightarrow>
    calls w' = calls w + (if r = Ret None then 1 else 0)"
proof (induction n arbitrary: delay w)
  case (Suc n)
  note c1 = tally_calls[of p c rec ok_result, OF p] and c2 = keepsD[OF E]
  from Suc.prems(2) show ?case
  proof (cases rule: publish_loop_SucE)
    case ended
    then show ?thesis using c1 by (fastforce simp: ok_result_def)
  next
    case (cancelled err w1)
    then show ?thesis using c1[OF cancelled(1)] c2[OF cancelled(3)] by (simp add: ok_result_def)
  next
    case (again err w1 w2)
    from Suc.IH[OF again(3, 4)] c1[OF again(1)] c2[OF again(2)] show ?thesis
      by (simp add: ok_result_def)
  qed
qed simp

lemma PublishDeadLetter_ok_calls:
  assumes p: "keeps (p c rec)" and E: "\<And>d. keeps (e_wait E c d)"
    and run: "PublishDeadLetter E c (tally ok_result p) rec w = (r, w')"
  shows "calls w' = calls w + (if r = Ret None then 1 else 0)"
proof -
  obtain r1 w1 where l: "publishDeadLetter E c (tally ok_result p) rec w = (r1, w1)" by fastforce
  have "calls w1 = calls w + (if r1 = Ret None then 1 else 0)"
    by (rule publish_loop_ok_calls[OF p E _ l[unfolded publishDeadLetter_def]])
      (simp_all add: publishAttemptsFinal_def)
  with run l show ?thesis
    by (auto simp: PublishDeadLetter_def split: result.splits option.splits)
qed

section \<open>MemoryDLQ\<close>

text \<open>
  The in-memory queue: its records, oldest first, are the user state. Values are copied
  by construction, so \<^verbatim>\<open>cloneRecord\<close> has no counterpart.
\<close>

definition MemoryDLQ_Publish :: "dlq_record list publisher" where
  "MemoryDLQ_Publish c rec w = (Ret None, w\<lparr>w_user := w_user w @ [rec]\<rparr>)"

definition MemoryDLQ_Records :: "dlq_record list world \<Rightarrow> dlq_record list" where
  "MemoryDLQ_Records w = w_user w"

definition MemoryDLQ_Len :: "dlq_record list world \<Rightarrow> nat" where
  "MemoryDLQ_Len w = length (w_user w)"

interpretation memory_dlq: dlq_publisher MemoryDLQ_Publish
  by unfold_locales (auto simp: MemoryDLQ_Publish_def intro!: quietI)

section \<open>Failure headers\<close>

definition HeaderDLQCause :: string where "HeaderDLQCause = ''Eventbus-Dlq-Cause''"
definition HeaderDLQReason :: string where "HeaderDLQReason = ''Eventbus-Dlq-Reason''"
definition HeaderDLQAttempts :: string where "HeaderDLQAttempts = ''Eventbus-Dlq-Attempts''"
definition HeaderDLQDeliveryCount :: string where
  "HeaderDLQDeliveryCount = ''Eventbus-Dlq-Delivery-Count''"
definition HeaderDLQHandler :: string where "HeaderDLQHandler = ''Eventbus-Dlq-Handler''"
definition HeaderDLQOriginalSubject :: string where
  "HeaderDLQOriginalSubject = ''Eventbus-Dlq-Original-Subject''"
definition HeaderDLQFailedAt :: string where "HeaderDLQFailedAt = ''Eventbus-Dlq-Failed-At''"
definition HeaderDLQFirstAttemptAt :: string where
  "HeaderDLQFirstAttemptAt = ''Eventbus-Dlq-First-Attempt-At''"
definition HeaderDLQEventID :: string where "HeaderDLQEventID = ''Eventbus-Dlq-Event-Id''"
definition HeaderDLQEventName :: string where "HeaderDLQEventName = ''Eventbus-Dlq-Event-Name''"
definition HeaderDLQOriginalMsgID :: string where
  "HeaderDLQOriginalMsgID = ''Eventbus-Dlq-Original-Msg-Id''"
definition HeaderDLQOriginalStream :: string where
  "HeaderDLQOriginalStream = ''Eventbus-Dlq-Original-Stream''"
definition HeaderDLQOriginalSequence :: string where
  "HeaderDLQOriginalSequence = ''Eventbus-Dlq-Original-Sequence''"
definition HeaderDLQPublishedAt :: string where "HeaderDLQPublishedAt = ''Eventbus-Dlq-Published-At''"
definition HeaderDLQPanicStack :: string where "HeaderDLQPanicStack = ''Eventbus-Dlq-Panic-Stack''"
definition HeaderDLQHistory :: string where "HeaderDLQHistory = ''Eventbus-Dlq-History''"
definition HeaderDLQHistoryTruncated :: string where
  "HeaderDLQHistoryTruncated = ''Eventbus-Dlq-History-Truncated''"

lemmas header_defs = HeaderDLQCause_def HeaderDLQReason_def HeaderDLQAttempts_def
  HeaderDLQDeliveryCount_def HeaderDLQHandler_def HeaderDLQOriginalSubject_def
  HeaderDLQFailedAt_def HeaderDLQFirstAttemptAt_def HeaderDLQEventID_def HeaderDLQEventName_def
  HeaderDLQOriginalMsgID_def HeaderDLQOriginalStream_def HeaderDLQOriginalSequence_def
  HeaderDLQPublishedAt_def HeaderDLQPanicStack_def HeaderDLQHistory_def
  HeaderDLQHistoryTruncated_def

definition DLQHeaderValueLimit :: int where "DLQHeaderValueLimit = 1024"
definition HistoryHeaderLimit :: int where "HistoryHeaderLimit = 2048"

text \<open>The closures \<^verbatim>\<open>set\<close> and \<^verbatim>\<open>setTime\<close>: each adds at most one header.\<close>

definition set_header :: "string \<Rightarrow> string \<Rightarrow> (string \<times> string) list" where
  "set_header key value = (if value \<noteq> [] then [(key, TruncateHeader value DLQHeaderValueLimit)] else [])"

definition setTime :: "(time \<Rightarrow> string) \<Rightarrow> string \<Rightarrow> time \<Rightarrow> (string \<times> string) list" where
  "setTime fmtTime key t = (if IsZero t then [] else set_header key (fmtTime t))"

definition setHistoryHeaders :: "(time \<Rightarrow> string) \<Rightarrow> dlq_record \<Rightarrow> (string \<times> string) list" where
  "setHistoryHeaders fmtTime rec =
     (if r_History rec = [] then []
      else case EncodeHistoryHeader fmtTime (r_History rec) HistoryHeaderLimit of (v, truncated) \<Rightarrow>
        if v = [] then []
        else (HeaderDLQHistory, v) # (if truncated then [(HeaderDLQHistoryTruncated, ''true'')] else []))"

definition panic_stack :: "error option \<Rightarrow> string" where
  "panic_stack e = (case e of None \<Rightarrow> [] | Some err \<Rightarrow>
     (case errors_As is_PanicError err of Some (PanicError _ st) \<Rightarrow> st | _ \<Rightarrow> []))"

definition FailureHeaders :: "(time \<Rightarrow> string) \<Rightarrow> dlq_record \<Rightarrow> (string \<times> string) list" where
  "FailureHeaders fmtTime r =
     (case r_Cause r of None \<Rightarrow> [] | Some e \<Rightarrow> set_header HeaderDLQCause (Error_text e))
     @ set_header HeaderDLQReason (r_Reason r)
     @ [(HeaderDLQAttempts, Itoa (r_Attempts r))]
     @ (if d_Count (r_Delivery r) > 0
        then set_header HeaderDLQDeliveryCount (Itoa (d_Count (r_Delivery r))) else [])
     @ set_header HeaderDLQHandler (r_Handler r)
     @ set_header HeaderDLQOriginalSubject (r_Subject r)
     @ setTime fmtTime HeaderDLQFailedAt (r_FailedAt r)
     @ setTime fmtTime HeaderDLQFirstAttemptAt (x_StartedAt (r_Execution r))
     @ set_header HeaderDLQEventID (r_EventID r)
     @ set_header HeaderDLQEventName (r_EventName r)
     @ set_header HeaderDLQOriginalStream (d_Stream (r_Delivery r))
     @ (if d_StreamSeq (r_Delivery r) > 0
        then set_header HeaderDLQOriginalSequence (Itoa (d_StreamSeq (r_Delivery r))) else [])
     @ setTime fmtTime HeaderDLQPublishedAt (d_PublishedAt (r_Delivery r))
     @ (if panic_stack (r_Cause r) \<noteq> [] then set_header HeaderDLQPanicStack (panic_stack (r_Cause r)) else [])
     @ setHistoryHeaders fmtTime r"

text \<open>Every header but the attempt count and the history went through TruncateHeader.\<close>

lemma FailureHeaders_values:
  assumes "(k, v) \<in> set (FailureHeaders fmtTime r)"
  shows "(\<exists>s. v = TruncateHeader s DLQHeaderValueLimit)
    \<or> k = HeaderDLQAttempts \<and> v = Itoa (r_Attempts r)
    \<or> k = HeaderDLQHistory \<and> v = fst (EncodeHistoryHeader fmtTime (r_History r) HistoryHeaderLimit)
    \<or> k = HeaderDLQHistoryTruncated \<and> v = ''true''"
proof -
  have t: "(k, v) \<in> set (setTime fmtTime k' t) \<Longrightarrow> \<exists>s. v = TruncateHeader s DLQHeaderValueLimit" for k' t
    by (auto simp: setTime_def set_header_def split: if_splits)
  have s: "(k, v) \<in> set (set_header k' x) \<Longrightarrow> \<exists>s. v = TruncateHeader s DLQHeaderValueLimit" for k' x
    by (auto simp: set_header_def split: if_splits)
  have h: "(k, v) \<in> set (setHistoryHeaders fmtTime r) \<Longrightarrow>
      k = HeaderDLQHistory \<and> v = fst (EncodeHistoryHeader fmtTime (r_History r) HistoryHeaderLimit)
    \<or> k = HeaderDLQHistoryTruncated \<and> v = ''true''"
    by (cases "EncodeHistoryHeader fmtTime (r_History r) HistoryHeaderLimit")
      (auto simp: setHistoryHeaders_def split: if_splits)
  from assms consider
      "\<exists>k' x. (k, v) \<in> set (set_header k' x)" | "\<exists>k' x. (k, v) \<in> set (setTime fmtTime k' x)"
    | "k = HeaderDLQAttempts \<and> v = Itoa (r_Attempts r)"
    | "(k, v) \<in> set (setHistoryHeaders fmtTime r)"
    unfolding FailureHeaders_def by (auto split: option.splits if_splits)
  then show ?thesis by cases (use s t h in blast)+
qed

lemma length_nat_text: "n < 10 ^ k \<Longrightarrow> 0 < k \<Longrightarrow> length (nat_text n) \<le> k"
proof (induction n arbitrary: k rule: nat_text.induct)
  case (1 n)
  show ?case
  proof (cases "n < 10")
    case True
    with "1.prems"(2) show ?thesis by (subst nat_text.simps) simp
  next
    case False
    with "1.prems" have k: "1 < k" by (cases "k = 1") auto
    have "n div 10 < 10 ^ (k - 1)"
      using "1.prems"(1) k by (simp add: less_mult_imp_div_less power_eq_if mult.commute)
    with False "1.IH"[of "k - 1"] k have "length (nat_text (n div 10)) \<le> k - 1" by simp
    with False k show ?thesis by (subst nat_text.simps) simp
  qed
qed

lemma length_Itoa: "\<bar>i\<bar> < 10 ^ 19 \<Longrightarrow> length (Itoa i) \<le> 20"
  using length_nat_text[of "nat (- i)" 19] length_nat_text[of "nat i" 19]
  by (auto simp: Itoa_def nat_less_iff)

end
