(* ===== verification/Settlement.thy ===== *)
theory Settlement
  imports Dead_Letter
begin

text \<open>
  The FailureScope of a delivery (scope.go) and the one post-chain policy shared by every
  transport (settle.go): Settle decides what happens to a message, dead-letters it when
  it ends, reports the end at most once and completes a deferred HandlerDone signal.
\<close>

section \<open>FailureScope\<close>

text \<open>A scope pointer is an address of the world, None the nil pointer.\<close>

definition fresh_scope :: "bool \<Rightarrow> failure_scope" where
  "fresh_scope settles = \<lparr>fs_breaker = BreakerUnknown, fs_reported = False, fs_pending = None,
     fs_flushed = False, fs_settles = settles\<rparr>"

definition alloc_scope :: "failure_scope \<Rightarrow> ctx \<Rightarrow> 'u world \<Rightarrow> (ctx \<times> nat) \<times> 'u world" where
  "alloc_scope s c w = ((c\<lparr>cx_scope := Some (w_next w)\<rparr>, w_next w),
     w\<lparr>w_scopes := (w_scopes w)(w_next w := s), w_next := Suc (w_next w)\<rparr>)"

definition WithFailureScope :: "ctx \<Rightarrow> 'u world \<Rightarrow> (ctx \<times> nat) \<times> 'u world" where
  "WithFailureScope = alloc_scope (fresh_scope True)"

definition newDetachedScope :: "ctx \<Rightarrow> 'u world \<Rightarrow> (ctx \<times> nat) \<times> 'u world" where
  "newDetachedScope = alloc_scope (fresh_scope False)"

definition FailureScopeFromContext :: "ctx \<Rightarrow> nat option" where
  "FailureScopeFromContext c = cx_scope c"

definition upd_scope :: "nat \<Rightarrow> (failure_scope \<Rightarrow> failure_scope) \<Rightarrow> 'u world \<Rightarrow> 'u world" where
  "upd_scope s f w = w\<lparr>w_scopes := (w_scopes w)(s := f (w_scopes w s))\<rparr>"

definition SetBreaker :: "nat option \<Rightarrow> BreakerState \<Rightarrow> 'u world \<Rightarrow> 'u world" where
  "SetBreaker p state w = (case p of None \<Rightarrow> w
     | Some s \<Rightarrow> upd_scope s (fs_breaker_update (\<lambda>_. state)) w)"

definition Breaker :: "nat option \<Rightarrow> 'u world \<Rightarrow> BreakerState" where
  "Breaker p w = (case p of None \<Rightarrow> BreakerUnknown | Some s \<Rightarrow> fs_breaker (w_scopes w s))"

definition markReported :: "nat option \<Rightarrow> 'u world \<Rightarrow> bool \<times> 'u world" where
  "markReported p w = (case p of None \<Rightarrow> (True, w)
     | Some s \<Rightarrow> if fs_reported (w_scopes w s) then (False, w)
                 else (True, upd_scope s (fs_reported_update (\<lambda>_. True)) w))"

definition deferHandlerDone :: "nat option \<Rightarrow> handler_result \<Rightarrow> 'u world \<Rightarrow> bool \<times> 'u world" where
  "deferHandlerDone p r w = (case p of None \<Rightarrow> (False, w)
     | Some s \<Rightarrow> if \<not> fs_settles (w_scopes w s) \<or> fs_pending (w_scopes w s) \<noteq> None then (False, w)
                 else (True, upd_scope s (fs_pending_update (\<lambda>_. Some r)) w))"

definition flushHandlerDone :: "nat option \<Rightarrow> ctx \<Rightarrow> Outcome \<Rightarrow> 'u world \<Rightarrow> 'u world" where
  "flushHandlerDone p c outcome w = (case p of None \<Rightarrow> w
     | Some s \<Rightarrow> (case fs_pending (w_scopes w s) of None \<Rightarrow> w
        | Some r \<Rightarrow> if fs_flushed (w_scopes w s) then w
                    else emit c (HandlerDone (r\<lparr>hr_Outcome := outcome\<rparr>))
                           (upd_scope s (fs_flushed_update (\<lambda>_. True)) w)))"

lemma upd_scope_simps [simp]:
  "w_now (upd_scope s f w) = w_now w" "w_trace (upd_scope s f w) = w_trace w"
  "w_next (upd_scope s f w) = w_next w" "w_fired (upd_scope s f w) = w_fired w"
  "w_user (upd_scope s f w) = w_user w"
  "w_scopes (upd_scope s f w) = (w_scopes w)(s := f (w_scopes w s))"
  by (simp_all add: upd_scope_def)

lemma ctx_upd_scope [simp, ctx_simps]:
  "ctx_done c (upd_scope s f w) = ctx_done c w" "ctx_Err c (upd_scope s f w) = ctx_Err c w"
  "ctx_Cause c (upd_scope s f w) = ctx_Cause c w" "cause_is c (upd_scope s f w) t = cause_is c w t"
  by (simp_all add: ctx_done_def ctx_Err_def ctx_Cause_def cause_is_def)

lemma quiet_step_SetBreaker [frame_intros]: "quiet_step sid w (SetBreaker p state w)"
  by (auto simp: SetBreaker_def upd_scope_def report_state_def intro!: quiet_step_scope split: option.splits)

lemma quiet_step_alloc [frame_intros]:
  "sid < w_next w \<Longrightarrow> alloc_scope s c w = (p, w') \<Longrightarrow> quiet_step sid w w'"
  by (auto simp: alloc_scope_def quiet_step_def)

section \<open>Settle\<close>

record 'u settle_input =
  in_SubscriptionCtx :: "ctx option"
  in_Evt :: "event option"
  in_Handler :: string
  in_Err :: "error option"
  in_Publisher :: "'u publisher option"

record settlement =
  s_Disposition :: Disposition
  s_Reason :: string
  s_Outcome :: Outcome
  s_Err :: "error option"

definition zero_settlement :: settlement where
  "zero_settlement = \<lparr>s_Disposition = DispositionInvalid, s_Reason = [], s_Outcome = OutcomeNone,
     s_Err = None\<rparr>"

definition handlerDoneOutcome :: "settlement \<Rightarrow> Outcome" where
  "handlerDoneOutcome s = (case s_Disposition s of
     DispositionAck \<Rightarrow> if s_Outcome s = OutcomeDeadLettered then OutcomeDeadLettered else OutcomeFailed
   | DispositionTerminal \<Rightarrow>
       if s_Outcome s = OutcomeDeadLettered then OutcomeDeadLettered
       else if s_Outcome s = OutcomeDropped then OutcomeDropped else OutcomeFailed
   | DispositionRetryDelayed \<Rightarrow>
       if s_Outcome s \<noteq> OutcomeDLQPublishFailed then OutcomeRetry else OutcomeFailed
   | DispositionRetry \<Rightarrow> OutcomeInterrupted
   | DispositionInvalid \<Rightarrow> OutcomeFailed)"

definition recoveredPanic :: "string \<Rightarrow> string \<Rightarrow> error" where
  "recoveredPanic v st = PanicError v st"

definition callEventOnErr :: "'u env \<Rightarrow> ctx \<Rightarrow> event \<Rightarrow> string \<Rightarrow> string \<Rightarrow> error \<Rightarrow> 'u world \<Rightarrow> 'u world" where
  "callEventOnErr E c ev handler subject err w =
     (case e_OnErr E ev c err handler w of
        (Ret _, w1) \<Rightarrow> w1
      | (Panics v st, w1) \<Rightarrow> emit c (InternalError
          \<lparr>ie_Component = ComponentEvent, ie_Op = OpPanic, ie_Handler = handler, ie_Subject = subject,
           ie_Err = Some (recoveredPanic v st)\<rparr>) w1)"

definition failureContext :: "ctx \<Rightarrow> 'u settle_input \<Rightarrow> delivery \<Rightarrow> Outcome \<Rightarrow> string \<Rightarrow> error \<Rightarrow> 'u world \<Rightarrow> failure_context" where
  "failureContext c inp d outcome reason err w =
     \<lparr>fc_Handler = in_Handler inp, fc_Event = in_Evt inp, fc_Metadata = MetadataFromContext c,
      fc_Outcome = (if outcome \<noteq> OutcomeDLQPublishFailed \<and> in_Evt inp = None \<and> isDecodeError err
                    then OutcomeDecodeFailed else outcome),
      fc_Reason = reason, fc_Cause = Some err,
      fc_Invoker = FailingInvokerOf (case in_Err inp of None \<Rightarrow> Some err | Some e \<Rightarrow> Some e),
      fc_Attempts = AttemptsOf (Some err), fc_Delivery = redactDelivery d,
      fc_Breaker = Breaker (FailureScopeFromContext c) w,
      fc_History = history_of (Some err), fc_At = w_now w\<rparr>"

definition reportTerminal :: "'u env \<Rightarrow> ctx \<Rightarrow> 'u settle_input \<Rightarrow> delivery \<Rightarrow> Outcome \<Rightarrow> string \<Rightarrow> error \<Rightarrow> 'u world \<Rightarrow> 'u world" where
  "reportTerminal E c inp d outcome reason err w =
     (case markReported (FailureScopeFromContext c) w of
        (False, w1) \<Rightarrow> w1
      | (True, w1) \<Rightarrow>
          (let w2 = emit c (Failure (failureContext c inp d outcome reason err w1)) w1
           in case in_Evt inp of None \<Rightarrow> w2
              | Some ev \<Rightarrow> if ev_OnErr ev
                  then callEventOnErr E c ev (in_Handler inp) (d_Subject d) err w2 else w2))"

definition reportUnsettled :: "'u env \<Rightarrow> ctx \<Rightarrow> 'u settle_input \<Rightarrow> Outcome \<Rightarrow> error \<Rightarrow> 'u world \<Rightarrow> 'u world" where
  "reportUnsettled E c inp outcome err =
     reportTerminal E c inp (delivery_of c) outcome (ReasonOf (Some err)) err"

definition interrupted_error :: "error \<Rightarrow> error" where
  "interrupted_error err = WrapError
     (''event: subscription ended on the final delivery, no redelivery follows: '' @ Error_text err) [err]"

text \<open>The decode signal Settle emits first, for a message that never became an event.\<close>

definition settle_decode :: "ctx \<Rightarrow> 'u settle_input \<Rightarrow> error \<Rightarrow> 'u world \<Rightarrow> 'u world" where
  "settle_decode c inp err w =
     (let d = delivery_of c in
      if in_Evt inp = None \<and> isDecodeError err
      then emit c (DecodeFailed \<lparr>df_Handler = in_Handler inp, df_Subject = d_Subject d,
             df_Reason = ReasonOf (Some err), df_Err = Some err, df_Delivery = redactDelivery d,
             df_Final = Final d\<rparr>) w
      else w)"

text \<open>The terminal branch: publish to the dead-letter queue, or drop.\<close>

definition settle_terminal :: "'u env \<Rightarrow> ctx \<Rightarrow> 'u settle_input \<Rightarrow> error \<Rightarrow> ('u, settlement) comp" where
  "settle_terminal E c inp err w =
     (let d = delivery_of c; reason = ReasonOf (Some err) in
      case in_Publisher inp of
        None \<Rightarrow> (Ret \<lparr>s_Disposition = DispositionTerminal, s_Reason = reason, s_Outcome = OutcomeDropped,
                    s_Err = Some err\<rparr>, reportTerminal E c inp d OutcomeDropped reason err w)
      | Some p \<Rightarrow>
          (case PublishDeadLetter E c p (NewDLQRecord c (in_Evt inp) (in_Handler inp) (Some err) w) w of
             (Panics v st, w1) \<Rightarrow> (Panics v st, w1)
           | (Ret (Some perr), w1) \<Rightarrow>
               (let failed = DeadLetterFailedError (Some err) reason (Some perr) in
                if Final d
                then (Ret \<lparr>s_Disposition = DispositionRetryDelayed, s_Reason = reason,
                         s_Outcome = OutcomeDLQPublishFailed, s_Err = Some failed\<rparr>,
                      reportTerminal E c inp d OutcomeDLQPublishFailed reason failed w1)
                else (Ret \<lparr>s_Disposition = DispositionRetryDelayed, s_Reason = reason,
                         s_Outcome = OutcomeNone, s_Err = Some failed\<rparr>, w1))
           | (Ret None, w1) \<Rightarrow>
               (let done = DeadLetteredError (Some err) reason in
                (Ret \<lparr>s_Disposition = DispositionTerminal, s_Reason = reason,
                     s_Outcome = OutcomeDeadLettered, s_Err = Some done\<rparr>,
                 reportTerminal E c inp d OutcomeDeadLettered reason done w1))))"

definition settle_body :: "'u env \<Rightarrow> ctx \<Rightarrow> 'u settle_input \<Rightarrow> error \<Rightarrow> ('u, settlement) comp" where
  "settle_body E c inp err w0 =
     (let d = delivery_of c; w = settle_decode c inp err w0; reason = ReasonOf (Some err) in
      if IsInterrupted (in_SubscriptionCtx inp) (Some err) w
      then if Final d
           then (Ret \<lparr>s_Disposition = DispositionRetry, s_Reason = ReasonInterrupted,
                    s_Outcome = OutcomeInterrupted, s_Err = Some (interrupted_error err)\<rparr>,
                 reportTerminal E c inp d OutcomeInterrupted ReasonInterrupted (interrupted_error err) w)
           else (Ret \<lparr>s_Disposition = DispositionRetry, s_Reason = ReasonInterrupted,
                    s_Outcome = OutcomeNone, s_Err = None\<rparr>, w)
      else case Dispose (Some err) d of
        DispositionAck \<Rightarrow>
          if errors_Is err ErrDuplicate \<or> \<not> errors_Is err ErrDeadLettered
          then (Ret \<lparr>s_Disposition = DispositionAck, s_Reason = reason, s_Outcome = OutcomeNone,
                   s_Err = None\<rparr>, w)
          else (Ret \<lparr>s_Disposition = DispositionAck, s_Reason = reason, s_Outcome = OutcomeDeadLettered,
                   s_Err = Some err\<rparr>, reportTerminal E c inp d OutcomeDeadLettered reason err w)
      | DispositionRetryDelayed \<Rightarrow>
          if errors_Is err ErrDeadLetterFailed
          then if Final d
               then (Ret \<lparr>s_Disposition = DispositionRetryDelayed, s_Reason = reason,
                        s_Outcome = OutcomeDLQPublishFailed, s_Err = Some err\<rparr>,
                     reportTerminal E c inp d OutcomeDLQPublishFailed reason err w)
               else (Ret \<lparr>s_Disposition = DispositionRetryDelayed, s_Reason = reason,
                        s_Outcome = OutcomeNone, s_Err = Some err\<rparr>, w)
          else (Ret \<lparr>s_Disposition = DispositionRetryDelayed, s_Reason = reason,
                   s_Outcome = OutcomeNone, s_Err = None\<rparr>, w)
      | _ \<Rightarrow> settle_terminal E c inp err w)"

text \<open>Settle: the deferred flush runs on every path of a failed chain, a panic included.\<close>

definition Settle :: "'u env \<Rightarrow> ctx \<Rightarrow> 'u settle_input \<Rightarrow> ('u, settlement) comp" where
  "Settle E c inp w =
     (case in_Err inp of
        None \<Rightarrow> (Ret (zero_settlement\<lparr>s_Disposition := DispositionAck\<rparr>), w)
      | Some err \<Rightarrow>
          (case settle_body E c inp err w of
             (Ret s, w1) \<Rightarrow>
               (Ret s, flushHandlerDone (FailureScopeFromContext c) c (handlerDoneOutcome s) w1)
           | (Panics v st, w1) \<Rightarrow>
               (Panics v st, flushHandlerDone (FailureScopeFromContext c) c
                  (handlerDoneOutcome zero_settlement) w1)))"

section \<open>The report of a delivery\<close>

text \<open>
  The abstract view of a scope: how many Failure and HandlerDone signals were emitted on
  it so far, and its report flags. The operations of the code refine operations on it.
\<close>

record report =
  rp_failures :: nat
  rp_dones :: nat
  rp_reported :: bool
  rp_pending :: "handler_result option"
  rp_flushed :: bool
  rp_settles :: bool

definition report_of :: "nat \<Rightarrow> 'u world \<Rightarrow> report" where
  "report_of sid w =
     \<lparr>rp_failures = count_if (failure_on sid) (w_trace w), rp_dones = count_if (done_on sid) (w_trace w),
      rp_reported = fs_reported (w_scopes w sid), rp_pending = fs_pending (w_scopes w sid),
      rp_flushed = fs_flushed (w_scopes w sid), rp_settles = fs_settles (w_scopes w sid)\<rparr>"

definition observed :: "ctx \<Rightarrow> nat" where
  "observed c = (if cx_observer c = None then 0 else 1)"

definition spec_report :: "nat \<Rightarrow> report \<Rightarrow> report" where
  "spec_report n r = (if rp_reported r then r else r\<lparr>rp_reported := True, rp_failures := rp_failures r + n\<rparr>)"

definition spec_flush :: "nat \<Rightarrow> report \<Rightarrow> report" where
  "spec_flush n r = (if rp_pending r = None \<or> rp_flushed r then r
     else r\<lparr>rp_flushed := True, rp_dones := rp_dones r + n\<rparr>)"

lemma report_of_quiet [dest]: "quiet_step sid w w' \<Longrightarrow> report_of sid w' = report_of sid w"
  using quiet_step_counts[of sid w w'] by (simp add: report_of_def report_state_def)

lemma report_of_emit_Failure:
  "cx_scope c = Some sid \<Longrightarrow>
     report_of sid (emit c (Failure f) w) = (report_of sid w)\<lparr>rp_failures := rp_failures (report_of sid w) + observed c\<rparr>"
  by (simp add: report_of_def emit_trace observed_def ends_defs split: option.splits)

lemma report_of_emit_Done:
  "cx_scope c = Some sid \<Longrightarrow>
     report_of sid (emit c (HandlerDone f) w) = (report_of sid w)\<lparr>rp_dones := rp_dones (report_of sid w) + observed c\<rparr>"
  by (simp add: report_of_def emit_trace observed_def ends_defs split: option.splits)

lemma quiet_callEventOnErr:
  "quiet_env sid E \<Longrightarrow> sid < w_next w \<Longrightarrow> quiet_step sid w (callEventOnErr E c ev h s err w)"
  by (auto simp: callEventOnErr_def split: prod.splits result.splits dest!: quiet_env_OnErr
      elim!: quiet_step_trans intro!: quiet_step_emit)

lemma reportTerminal_spec:
  assumes c: "cx_scope c = Some sid" and n: "sid < w_next w" and E: "quiet_env sid E"
  shows "report_of sid (reportTerminal E c inp d oc reason err w) = spec_report (observed c) (report_of sid w)"
    and "w_next w \<le> w_next (reportTerminal E c inp d oc reason err w)"
proof -
  let ?w1 = "upd_scope sid (fs_reported_update (\<lambda>_. True)) w"
  let ?w2 = "emit c (Failure (failureContext c inp d oc reason err ?w1)) ?w1"
  have q: "quiet_step sid ?w2 (callEventOnErr E c ev h s err ?w2)" for ev h s
    using n by (intro quiet_callEventOnErr E) simp
  have r2: "report_of sid ?w2 = (report_of sid w)\<lparr>rp_reported := True,
      rp_failures := rp_failures (report_of sid w) + observed c\<rparr>"
    by (simp add: report_of_emit_Failure[OF c]) (simp add: report_of_def)
  have rep: "rp_reported (report_of sid w) = fs_reported (w_scopes w sid)" by (simp add: report_of_def)
  show "report_of sid (reportTerminal E c inp d oc reason err w) = spec_report (observed c) (report_of sid w)"
    by (simp add: reportTerminal_def Let_def FailureScopeFromContext_def c markReported_def spec_report_def rep
        r2 report_of_quiet[OF q] split: option.splits)
  show "w_next w \<le> w_next (reportTerminal E c inp d oc reason err w)"
    using quiet_step_next[OF q]
    by (simp add: reportTerminal_def Let_def FailureScopeFromContext_def c markReported_def split: option.splits)
qed

lemma flushHandlerDone_spec:
  assumes c: "cx_scope c = Some sid"
  shows "report_of sid (flushHandlerDone (Some sid) c oc w) = spec_flush (observed c) (report_of sid w)"
  by (simp add: flushHandlerDone_def spec_flush_def report_of_emit_Done[OF c] split: option.splits)
    (simp add: report_of_def)

text \<open>What Settle did to the report, read off its result.\<close>

definition settle_reported :: "settlement result \<Rightarrow> bool" where
  "settle_reported r = (case r of Ret s \<Rightarrow> s_Outcome s \<noteq> OutcomeNone | Panics _ _ \<Rightarrow> False)"

lemma settle_terminal_spec:
  assumes c: "cx_scope c = Some sid" and n: "sid < w_next w" and E: "quiet_env sid E"
    and p: "quiet_dlq (in_Publisher inp)"
    and run: "settle_terminal E c inp err w = (r, w')"
  shows "report_of sid w' =
    (if settle_reported r then spec_report (observed c) (report_of sid w) else report_of sid w)"
proof (cases "in_Publisher inp")
  case None
  with run show ?thesis
    by (auto simp: settle_terminal_def Let_def reportTerminal_spec[OF c n E] settle_reported_def)
next
  case (Some p)
  let ?rec = "NewDLQRecord c (in_Evt inp) (in_Handler inp) (Some err) w"
  obtain r1 w1 where p1: "PublishDeadLetter E c p ?rec w = (r1, w1)" by fastforce
  have q: "quiet_step sid w w1"
    using assms(4) by (intro quiet_stepD[OF dlq_publisher.quiet_PublishDeadLetter[OF _ E] n p1]) (simp add: Some)
  have n1: "sid < w_next w1" using quiet_step_next[OF q] n by simp
  note rt = reportTerminal_spec[OF c n1 E]
  from run Some p1 report_of_quiet[OF q] show ?thesis
    by (auto simp: settle_terminal_def Let_def rt settle_reported_def
        split: result.splits option.splits if_splits)
qed

lemma quiet_settle_decode: "quiet_step sid w (settle_decode c inp err w)"
  by (simp add: settle_decode_def Let_def quiet_step_emit)

lemma w_next_settle_decode [simp]: "w_next (settle_decode c inp err w) = w_next w"
  by (simp add: settle_decode_def Let_def)

lemma settle_body_spec:
  assumes c: "cx_scope c = Some sid" and n: "sid < w_next w" and E: "quiet_env sid E"
    and p: "quiet_dlq (in_Publisher inp)"
    and run: "settle_body E c inp err w = (r, w')"
  shows "report_of sid w' =
    (if settle_reported r then spec_report (observed c) (report_of sid w) else report_of sid w)"
proof -
  let ?w = "settle_decode c inp err w"
  have n1: "sid < w_next ?w" using n by simp
  note rt = reportTerminal_spec[OF c n1 E] and dec = report_of_quiet[OF quiet_settle_decode]
  show ?thesis
  proof (cases "\<not> IsInterrupted (in_SubscriptionCtx inp) (Some err) ?w
      \<and> Dispose (Some err) (delivery_of c) = DispositionTerminal")
    case True
    with run have "settle_terminal E c inp err ?w = (r, w')" by (simp add: settle_body_def Let_def)
    from settle_terminal_spec[OF c n1 E p this] show ?thesis by (simp add: dec)
  next
    case False
    with run Dispose_never_Retry[of "Some err" "delivery_of c"] show ?thesis
      by (auto simp: settle_body_def Let_def rt settle_reported_def dec
          split: if_splits Disposition.splits)
  qed
qed

text \<open>
  Settle refines: report the end of the message if the settlement has an outcome, then
  complete the deferred HandlerDone.
\<close>

lemma Settle_spec:
  assumes c: "cx_scope c = Some sid" and n: "sid < w_next w" and E: "quiet_env sid E"
    and p: "quiet_dlq (in_Publisher inp)"
    and run: "Settle E c inp w = (r, w')"
  shows "report_of sid w' =
    (if in_Err inp = None then report_of sid w
     else spec_flush (observed c)
       (if settle_reported r then spec_report (observed c) (report_of sid w) else report_of sid w))"
proof (cases "in_Err inp")
  case None
  with run show ?thesis by (auto simp: Settle_def)
next
  case (Some err)
  obtain r1 w1 where b: "settle_body E c inp err w = (r1, w1)" by fastforce
  have r: "r1 = r" and w': "\<exists>oc. w' = flushHandlerDone (Some sid) c oc w1"
    using run Some b c by (auto simp: Settle_def FailureScopeFromContext_def split: result.splits)
  from w' settle_body_spec[OF c n E p b] Some show ?thesis
    by (auto simp: flushHandlerDone_spec[OF c] r)
qed

section \<open>What a settlement says\<close>

lemma Settle_Ret:
  "Settle E c inp w = (Ret s, w') \<Longrightarrow> in_Err inp = Some err \<Longrightarrow>
     \<exists>w1. settle_body E c inp err w = (Ret s, w1)"
  by (auto simp: Settle_def split: prod.splits result.splits)

lemma settle_terminal_cases:
  assumes "settle_terminal E c inp err w = (Ret s, w')"
  shows "s_Reason s = ReasonOf (Some err) \<and>
    (in_Publisher inp = None \<and> s_Disposition s = DispositionTerminal \<and> s_Outcome s = OutcomeDropped
   \<or> (\<exists>p w1. in_Publisher inp = Some p
        \<and> PublishDeadLetter E c p (NewDLQRecord c (in_Evt inp) (in_Handler inp) (Some err) w) w = (Ret None, w1)
        \<and> s_Disposition s = DispositionTerminal \<and> s_Outcome s = OutcomeDeadLettered)
   \<or> (\<exists>p perr w1. in_Publisher inp = Some p
        \<and> PublishDeadLetter E c p (NewDLQRecord c (in_Evt inp) (in_Handler inp) (Some err) w) w = (Ret (Some perr), w1)
        \<and> s_Disposition s = DispositionRetryDelayed
        \<and> s_Outcome s = (if Final (delivery_of c) then OutcomeDLQPublishFailed else OutcomeNone)))"
  using assms by (auto simp: settle_terminal_def Let_def split: option.splits prod.splits result.splits if_splits)

text \<open>The body, branch by branch.\<close>

lemma settle_body_cases:
  assumes run: "settle_body E c inp err w = (Ret s, w')"
  obtains (interrupted) "IsInterrupted (in_SubscriptionCtx inp) (Some err) (settle_decode c inp err w)"
      "s_Disposition s = DispositionRetry" "s_Reason s = ReasonInterrupted"
      "s_Outcome s = (if Final (delivery_of c) then OutcomeInterrupted else OutcomeNone)"
    | (ack) "Dispose (Some err) (delivery_of c) = DispositionAck" "s_Disposition s = DispositionAck"
      "s_Outcome s = (if errors_Is err ErrDuplicate then OutcomeNone else OutcomeDeadLettered)"
    | (delayed) "Dispose (Some err) (delivery_of c) = DispositionRetryDelayed"
      "s_Disposition s = DispositionRetryDelayed"
      "s_Outcome s = (if errors_Is err ErrDeadLetterFailed \<and> Final (delivery_of c)
                      then OutcomeDLQPublishFailed else OutcomeNone)"
    | (terminal) "Dispose (Some err) (delivery_of c) = DispositionTerminal"
      "\<not> IsInterrupted (in_SubscriptionCtx inp) (Some err) (settle_decode c inp err w)"
      "settle_terminal E c inp err (settle_decode c inp err w) = (Ret s, w')"
proof (cases "IsInterrupted (in_SubscriptionCtx inp) (Some err) (settle_decode c inp err w)")
  case True
  with run show ?thesis
    by (intro interrupted) (auto simp: settle_body_def Let_def split: if_splits)
next
  case False
  note ni = this
  show ?thesis
  proof (cases "Dispose (Some err) (delivery_of c)")
    case DispositionAck
    with run False Dispose_Ack_iff[of err "delivery_of c"] show ?thesis
      by (intro ack) (auto simp: settle_body_def Let_def split: if_splits)
  next
    case DispositionRetryDelayed
    with run False show ?thesis
      by (intro delayed) (auto simp: settle_body_def Let_def split: if_splits)
  next
    case DispositionTerminal
    with run False show ?thesis by (intro terminal) (auto simp: settle_body_def Let_def)
  qed (use Dispose_never_Retry in auto)
qed

text \<open>On the final delivery a failed chain never ends silently, duplicates apart.\<close>

lemma settle_final_reports:
  assumes "Settle E c inp w = (Ret s, w')" and "in_Err inp = Some err" and "Final (delivery_of c)"
    and "\<not> errors_Is err ErrDuplicate"
  shows "s_Outcome s \<noteq> OutcomeNone"
proof -
  obtain w1 where "settle_body E c inp err w = (Ret s, w1)" using Settle_Ret[OF assms(1, 2)] by blast
  then show ?thesis
  proof (cases rule: settle_body_cases)
    case delayed
    with assms(3) Dispose_final_RetryDelayed_iff[OF assms(3), of err] show ?thesis by simp
  next
    case terminal
    from settle_terminal_cases[OF terminal(3)] assms(3) show ?thesis by auto
  qed (use assms in auto)
qed

end
