(* ===== verification/Invoke.thy ===== *)
theory Invoke
  imports Settlement
begin

text \<open>
  InvokeHandler (invoke.go), the single handler entry point of every transport: panics of
  the handler are recovered innermost, panics of an invoker outermost, and HandlerDone is
  emitted or deferred exactly once. The function has no panicking result: whatever the
  handler and the invokers do, it returns an error value.
\<close>

section \<open>Definitions\<close>

definition safeEventName :: "event option \<Rightarrow> string" where
  "safeEventName e = (case e of None \<Rightarrow> [] | Some ev \<Rightarrow> ev_Name ev)"

text \<open>The closure \<^verbatim>\<open>call\<close>: the handler under its own recover.\<close>

definition recover_call :: "'u handler \<Rightarrow> 'u handler" where
  "recover_call fn c w = (case fn c w of (Ret e, w1) \<Rightarrow> (Ret e, w1)
     | (Panics v st, w1) \<Rightarrow> (Ret (Some (recoveredPanic v st)), w1))"

definition run_chain :: "'u invoker option \<Rightarrow> ctx \<Rightarrow> event \<Rightarrow> string \<Rightarrow> 'u handler \<Rightarrow> 'u world \<Rightarrow> error option \<times> 'u world" where
  "run_chain iv c evt name fn w =
     (case (case iv of None \<Rightarrow> recover_call fn c w
            | Some Inv \<Rightarrow> Inv c evt name (recover_call fn) w) of
        (Ret e, w1) \<Rightarrow> (e, w1)
      | (Panics v st, w1) \<Rightarrow> (Some (recoveredPanic v st), w1))"

definition handlerResult :: "ctx \<Rightarrow> event \<Rightarrow> string \<Rightarrow> time \<Rightarrow> error option \<Rightarrow> 'u world \<Rightarrow> handler_result" where
  "handlerResult c evt name start err w =
     \<lparr>hr_Handler = name, hr_Event = safeEventName (Some evt), hr_Outcome = OutcomeOf c err w,
      hr_Duration = w_now w - start, hr_Err = err, hr_At = w_now w\<rparr>"

definition defers :: "ctx \<Rightarrow> Outcome \<Rightarrow> bool" where
  "defers c o' \<longleftrightarrow> o' = OutcomeFailed \<or> isFlowControl o' \<and> finalDelivery c"

definition finish_chain :: "ctx \<Rightarrow> nat \<Rightarrow> handler_result \<Rightarrow> 'u world \<Rightarrow> 'u world" where
  "finish_chain c scope r w =
     (if defers c (hr_Outcome r)
      then (case deferHandlerDone (Some scope) r w of
              (True, w1) \<Rightarrow> w1
            | (False, w1) \<Rightarrow> emit c (HandlerDone r) w1)
      else emit c (HandlerDone r) w)"

definition InvokeHandler :: "ctx \<Rightarrow> 'u invoker option \<Rightarrow> event \<Rightarrow> string \<Rightarrow> 'u handler \<Rightarrow> 'u world \<Rightarrow> error option \<times> 'u world" where
  "InvokeHandler ctx0 iv evt name fn w0 =
     (case (case FailureScopeFromContext ctx0 of
              Some s \<Rightarrow> ((ctx0, s), w0) | None \<Rightarrow> newDetachedScope ctx0 w0) of
        ((c, scope), w) \<Rightarrow>
          (case run_chain iv c evt name fn w of
             (err, w1) \<Rightarrow> (err, finish_chain c scope (handlerResult c evt name (w_now w0) err w1) w1)))"

section \<open>Lemmas\<close>

text \<open>The optional invoker of a bus: none, or one that meets the contract.\<close>

definition quiet_chain :: "'u invoker option \<Rightarrow> bool" where
  "quiet_chain iv \<longleftrightarrow> (case iv of None \<Rightarrow> True | Some Inv \<Rightarrow> quiet_invoker Inv)"

lemma quiet_chain_simps [simp]: "quiet_chain None" "quiet_chain (Some Inv) = quiet_invoker Inv"
  by (simp_all add: quiet_chain_def)

lemma quiet_recover_call: "quiet_handler sid fn \<Longrightarrow> quiet_handler sid (recover_call fn)"
  by (intro quiet_handlerI quietI)
    (auto simp: recover_call_def split: prod.splits result.splits dest: quiet_handlerD)

lemma quiet_run_chain:
  assumes iv: "quiet_chain iv" and fn: "quiet_handler sid fn"
    and n: "sid < w_next w" and run: "run_chain iv c evt name fn w = (err, w')"
  shows "quiet_step sid w w'"
proof (cases iv)
  case None
  with run n quiet_handlerD[OF quiet_recover_call[OF fn]] show ?thesis
    by (auto simp: run_chain_def split: prod.splits result.splits)
next
  case (Some Inv)
  with iv have "quiet_invoker Inv" by simp
  from Some run n quiet_invoker.Invoke_step[OF this quiet_recover_call[OF fn]] show ?thesis
    by (auto simp: run_chain_def split: prod.splits result.splits)
qed

definition spec_finish :: "nat \<Rightarrow> bool \<Rightarrow> handler_result \<Rightarrow> report \<Rightarrow> report" where
  "spec_finish n d hr r = (if d \<and> rp_settles r \<and> rp_pending r = None then r\<lparr>rp_pending := Some hr\<rparr>
     else r\<lparr>rp_dones := rp_dones r + n\<rparr>)"

lemma finish_chain_spec:
  assumes c: "cx_scope c = Some sid"
  shows "report_of sid (finish_chain c sid hr w) =
    spec_finish (observed c) (defers c (hr_Outcome hr)) hr (report_of sid w)"
  by (simp add: finish_chain_def spec_finish_def deferHandlerDone_def report_of_emit_Done[OF c]
      split: option.splits) (simp add: report_of_def)

lemma w_next_finish_chain [simp]: "w_next (finish_chain c sid hr w) = w_next w"
  by (simp add: finish_chain_def deferHandlerDone_def split: option.splits)

lemma InvokeHandler_scoped:
  "cx_scope c = Some sid \<Longrightarrow> InvokeHandler c iv evt name fn w =
     (case run_chain iv c evt name fn w of (err, w1) \<Rightarrow>
        (err, finish_chain c sid (handlerResult c evt name (w_now w) err w1) w1))"
  by (simp add: InvokeHandler_def FailureScopeFromContext_def)

text \<open>
  InvokeHandler refines: leave the report alone while the chain runs, then defer or emit
  one HandlerDone.
\<close>

lemma InvokeHandler_spec:
  assumes c: "cx_scope c = Some sid" and n: "sid < w_next w"
    and iv: "quiet_chain iv" and fn: "quiet_handler sid fn"
    and run: "InvokeHandler c iv evt name fn w = (err, w')"
  obtains hr w1 where "run_chain iv c evt name fn w = (err, w1)"
    "hr = handlerResult c evt name (w_now w) err w1"
    "report_of sid w' = spec_finish (observed c) (defers c (hr_Outcome hr)) hr (report_of sid w)"
    "sid < w_next w'"
proof -
  obtain err1 w1 where ch: "run_chain iv c evt name fn w = (err1, w1)" by fastforce
  have q: "quiet_step sid w w1" by (rule quiet_run_chain[OF iv fn n ch])
  let ?hr = "handlerResult c evt name (w_now w) err w1"
  from run ch have e: "err1 = err" and w': "w' = finish_chain c sid ?hr w1"
    by (auto simp: InvokeHandler_scoped[OF c])
  have "sid < w_next w'" using quiet_step_next[OF q] n by (simp add: w')
  with that[of w1 ?hr] ch e show thesis
    by (simp add: w' finish_chain_spec[OF c] report_of_quiet[OF q])
qed

lemma run_chain_panic:
  "iv = None \<Longrightarrow> fn c w = (Panics v st, w1) \<Longrightarrow> run_chain iv c evt name fn w = (Some (PanicError v st), w1)"
  "iv = Some Inv \<Longrightarrow> Inv c evt name (recover_call fn) w = (Panics v st, w1) \<Longrightarrow>
     run_chain iv c evt name fn w = (Some (PanicError v st), w1)"
  by (simp_all add: run_chain_def recover_call_def recoveredPanic_def)

text \<open>Only a failed chain defers, so Settle always runs its flush after a deferral.\<close>

lemma OutcomeOf_defers_err: "defers c (OutcomeOf c err w) \<Longrightarrow> err \<noteq> None"
  by (cases err) (auto simp: defers_def OutcomeOf_def isFlowControl_def)

section \<open>A delivery: chain, then settlement\<close>

text \<open>The report of a scope that nothing was reported on yet.\<close>

definition clean_report :: report where
  "clean_report = \<lparr>rp_failures = 0, rp_dones = 0, rp_reported = False, rp_pending = None,
     rp_flushed = False, rp_settles = True\<rparr>"

text \<open>
  A transport runs the chain on a context and settles the result on a context with the
  same scope and observer: HandlerDone is emitted exactly once, and Failure once exactly
  when the settlement has an outcome.
\<close>

lemma delivery_report:
  fixes w :: "'u world"
  assumes c: "cx_scope c = Some sid" "sid < w_next w" "report_of sid w = clean_report"
    and iv: "quiet_chain iv" and fn: "quiet_handler sid fn"
    and run: "InvokeHandler c iv evt name fn w = (err, w1)"
    and between: "quiet_step sid w1 w2"
    and sc: "cx_scope sc = Some sid" "cx_observer sc = cx_observer c"
    and E: "quiet_env sid E" and p: "quiet_dlq (in_Publisher inp)"
    and err: "in_Err inp = None \<longleftrightarrow> err = None"
    and settle: "Settle E sc inp w2 = (r, w3)"
  shows "rp_dones (report_of sid w3) = observed c"
    and "rp_failures (report_of sid w3) = (if err \<noteq> None \<and> settle_reported r then observed c else 0)"
proof -
  have "\<exists>hr (wc :: 'u world). hr = handlerResult c evt name (w_now w) err wc \<and> sid < w_next w1
      \<and> report_of sid w1 = spec_finish (observed c) (defers c (hr_Outcome hr)) hr (report_of sid w)"
  proof (rule InvokeHandler_spec[OF c(1, 2) iv fn run])
    fix hr and wc :: "'u world"
    assume "hr = handlerResult c evt name (w_now w) err wc" "sid < w_next w1"
      "report_of sid w1 = spec_finish (observed c) (defers c (hr_Outcome hr)) hr (report_of sid w)"
    then show ?thesis by blast
  qed
  then obtain hr and wc :: "'u world" where hr: "hr = handlerResult c evt name (w_now w) err wc"
    and fin: "report_of sid w1 = spec_finish (observed c) (defers c (hr_Outcome hr)) hr clean_report"
    and n1: "sid < w_next w1"
    unfolding c(3) by blast
  have n2: "sid < w_next w2" using quiet_step_next[OF between] n1 by simp
  have obs: "observed sc = observed c" by (simp add: observed_def sc(2))
  note st = Settle_spec[OF sc(1) n2 E p settle, unfolded report_of_quiet[OF between] fin obs]
  have d: "defers c (hr_Outcome hr) \<Longrightarrow> err \<noteq> None"
    using OutcomeOf_defers_err by (simp add: hr handlerResult_def)
  show "rp_dones (report_of sid w3) = observed c"
    using d err by (auto simp: st spec_finish_def spec_flush_def spec_report_def clean_report_def)
  show "rp_failures (report_of sid w3) = (if err \<noteq> None \<and> settle_reported r then observed c else 0)"
    using err by (auto simp: st spec_finish_def spec_flush_def spec_report_def clean_report_def)
qed

text \<open>
  In a world whose trace mentions only scopes that exist, a fresh scope is clean.
\<close>

definition world_ok :: "'u world \<Rightarrow> bool" where
  "world_ok w \<longleftrightarrow> list_all (\<lambda>(_, s, _). case s of None \<Rightarrow> True | Some i \<Rightarrow> i < w_next w) (w_trace w)"

lemma fresh_clean:
  assumes "world_ok w" and "w_trace w' = w_trace w" and "w_next w \<le> w_next w'"
    and "WithFailureScope c w' = ((c', sid), w'')"
  shows "report_of sid w'' = clean_report" and "cx_scope c' = Some sid" and "sid < w_next w''"
    and "w_next w \<le> sid"
proof -
  have s: "sid = w_next w'" and t: "w_trace w'' = w_trace w"
    and f: "w_scopes w'' sid = fresh_scope True" and c': "c' = c\<lparr>cx_scope := Some sid\<rparr>"
    and nx: "w_next w'' = Suc (w_next w')"
    using assms(2, 4) by (auto simp: WithFailureScope_def alloc_scope_def)
  have no: "\<not> ends sid e" if "e \<in> set (w_trace w)" for e
    using that assms(1, 3) s by (auto simp: world_ok_def list_all_iff ends_def split: option.splits prod.splits)
  have "count_if (failure_on sid) (w_trace w) = 0" "count_if (done_on sid) (w_trace w) = 0"
    using no by (auto intro!: count_if_none simp: ends_defs split: prod.splits)
  then show "report_of sid w'' = clean_report"
    by (simp add: report_of_def t f fresh_scope_def clean_report_def)
  show "cx_scope c' = Some sid" "sid < w_next w''" "w_next w \<le> sid" using assms(3) by (simp_all add: c' s nx)
qed

end
