(* ===== verification/Invokers.thy ===== *)
theory Invokers
  imports Invoke
begin

text \<open>
  The invoker chain, the DLQ invoker and the rate limiter (invoker/chain.go,
  invoker/dlq.go, invoker/rate-limit.go). Each invoker is shown to meet the contract
  \<^verbatim>\<open>quiet_invoker\<close>, so InvokeHandler and Settle can rely on it.
\<close>

section \<open>Chain\<close>

text \<open>The local function \<^verbatim>\<open>next\<close> of Chain.Invoke, indexed like the source.\<close>

function chain_next :: "'u invoker list \<Rightarrow> nat \<Rightarrow> event \<Rightarrow> string \<Rightarrow> 'u handler \<Rightarrow> 'u handler" where
  "chain_next invokers i evt h handle =
     (if i \<ge> length invokers then handle
      else (\<lambda>c. (invokers ! i) c evt h (chain_next invokers (Suc i) evt h handle)))"
  by pat_completeness auto
termination by (relation "measure (\<lambda>(invokers, i, _). length invokers - i)") auto

declare chain_next.simps [simp del]

definition Chain_Invoke :: "'u invoker list \<Rightarrow> 'u invoker" where
  "Chain_Invoke invokers c evt h handle = chain_next invokers 0 evt h handle c"

lemma chain_next_foldr:
  "i \<le> length invokers \<Longrightarrow>
     chain_next invokers i evt h handle = foldr (\<lambda>f next c. f c evt h next) (drop i invokers) handle"
proof (induction "length invokers - i" arbitrary: i)
  case 0
  then show ?case by (simp add: chain_next.simps)
next
  case (Suc n)
  then have lt: "i < length invokers" and n: "n = length invokers - Suc i" by simp_all
  with Suc.hyps(1)[OF n] have "chain_next invokers (Suc i) evt h handle =
    foldr (\<lambda>f next c. f c evt h next) (drop (Suc i) invokers) handle" by simp
  with lt show ?case by (simp add: chain_next.simps[of invokers i] Cons_nth_drop_Suc[symmetric])
qed

lemma Chain_Invoke_foldr:
  "Chain_Invoke invokers c evt h handle = foldr (\<lambda>f next c. f c evt h next) invokers handle c"
  by (simp add: Chain_Invoke_def chain_next_foldr)

lemma Chain_Invoke_simps [simp]:
  "Chain_Invoke [] c evt h handle = handle c"
  "Chain_Invoke (i # is) c evt h handle = i c evt h (\<lambda>c. Chain_Invoke is c evt h handle)"
  by (simp_all add: Chain_Invoke_foldr[abs_def])

text \<open>A nested chain is the same as the flattened one.\<close>

lemma Chain_Invoke_append:
  "Chain_Invoke (is @ js) c evt h handle = Chain_Invoke is c evt h (\<lambda>c. Chain_Invoke js c evt h handle)"
  by (induction "is" arbitrary: c) simp_all

lemma quiet_Chain: "(\<And>i. i \<in> set is \<Longrightarrow> quiet_invoker i) \<Longrightarrow> quiet_invoker (Chain_Invoke is)"
proof (induction "is")
  case Nil
  show ?case by unfold_locales (simp add: quiet_handler_def)
next
  case (Cons i "is")
  then have i: "quiet_invoker i" and r: "quiet_invoker (Chain_Invoke is)" by simp_all
  show ?case
    by unfold_locales (simp add: quiet_invoker.quiet_Invoke[OF i] quiet_invoker.quiet_handler_next[OF r])
qed

interpretation empty_chain: quiet_invoker "Chain_Invoke []"
  by (rule quiet_Chain) simp

section \<open>DLQ\<close>

definition DLQ_Invoke :: "'u env \<Rightarrow> 'u publisher option \<Rightarrow> 'u invoker" where
  "DLQ_Invoke E publisher c evt handler next w =
     (case next c w of
        (Panics v st, w1) \<Rightarrow> (Panics v st, w1)
      | (Ret None, w1) \<Rightarrow> (Ret None, w1)
      | (Ret (Some err), w1) \<Rightarrow>
          (case publisher of None \<Rightarrow> (Ret (Some err), w1)
           | Some p \<Rightarrow>
               if IsInterrupted (Some c) (Some err) w1 then (Ret (Some err), w1)
               else if Dispose (Some err) (delivery_of c) \<noteq> DispositionTerminal then (Ret (Some err), w1)
               else (let rec = NewDLQRecord c (Some evt) handler (Some err) w1 in
                     case PublishDeadLetter E c p rec w1 of
                       (Panics v st, w2) \<Rightarrow> (Panics v st, w2)
                     | (Ret (Some perr), w2) \<Rightarrow>
                         (Ret (Some (DeadLetterFailedError (Some err) (r_Reason rec) (Some perr))), w2)
                     | (Ret None, w2) \<Rightarrow> (Ret (Some (DeadLetteredError (Some err) (r_Reason rec))), w2))))"

locale dlq_runtime = quiet_runtime E + dlq_publisher Publish
  for E :: "'u env" and Publish :: "'u publisher"

sublocale dlq_runtime \<subseteq> dlq: quiet_invoker "DLQ_Invoke E (Some Publish)"
proof unfold_locales
  fix sid :: nat and "next" :: "'u handler" and c evt h
  assume nx: "quiet_handler sid next"
  show "quiet sid (DLQ_Invoke E (Some Publish) c evt h next)"
  proof (rule quietI)
    fix w r w'
    assume n: "sid < w_next w" and run: "DLQ_Invoke E (Some Publish) c evt h next w = (r, w')"
    obtain r1 w1 where nw: "next c w = (r1, w1)" by fastforce
    have q1: "quiet_step sid w w1" by (rule quiet_handlerD[OF nx n nw])
    have q2: "quiet_step sid w1 w2" if "PublishDeadLetter E c Publish rec w1 = (r2, w2)" for rec r2 w2
      using quiet_stepD[OF quiet_PublishDeadLetter[OF quiet_runtime] _ that] quiet_step_next[OF q1] n
      by simp
    from run nw q1 show "quiet_step sid w w'"
      by (auto simp: DLQ_Invoke_def Let_def split: result.splits option.splits if_splits prod.splits
          dest!: q2 elim: quiet_step_trans)
  qed
qed

context dlq_runtime
begin

lemma quiet_DLQ: "quiet_invoker (DLQ_Invoke E (Some Publish))"
  by (rule dlq.quiet_invoker_axioms)

end

interpretation memory_dlq_runtime: dlq_runtime timer_env MemoryDLQ_Publish
  by unfold_locales

section \<open>RateLimiter\<close>

record 'u rate_limit_config =
  rl_Rate :: int
  rl_Period :: duration
  rl_Burst :: int
  rl_KeyPrefix :: string
  rl_OnLimit :: "(ctx \<Rightarrow> event \<Rightarrow> string \<Rightarrow> ('u, unit) comp) option"

type_synonym 'u rate_store =
  "ctx \<Rightarrow> string \<Rightarrow> int \<Rightarrow> duration \<Rightarrow> int \<Rightarrow> ('u, bool \<times> error option) comp"

definition RateLimiter_Invoke :: "'u rate_store \<Rightarrow> 'u rate_limit_config \<Rightarrow> 'u invoker" where
  "RateLimiter_Invoke Allow cfg c evt handler next w =
     (case ev_RateLimitKey evt of None \<Rightarrow> next c w
      | Some k \<Rightarrow> if k = [] then next c w else
          (let key = rl_KeyPrefix cfg @ k in
           case Allow c key (rl_Rate cfg) (rl_Period cfg) (rl_Burst cfg) w of
             (Panics v st, w1) \<Rightarrow> (Panics v st, w1)
           | (Ret (allowed, Some err), w1) \<Rightarrow>
               (Ret (Some err), emit c (StoreError \<lparr>se_Handler = handler, se_Event = ev_Name evt,
                  se_Store = ''rate_limit'', se_Op = ''allow'', se_Err = Some err\<rparr>) w1)
           | (Ret (False, None), w1) \<Rightarrow>
               (case rl_OnLimit cfg of
                  None \<Rightarrow> (Ret (Some (Sentinel ErrRateLimited)), w1)
                | Some f \<Rightarrow> (case f c evt key w1 of
                    (Panics v st, w2) \<Rightarrow> (Panics v st, w2)
                  | (Ret _, w2) \<Rightarrow> (Ret (Some (Sentinel ErrRateLimited)), w2)))
           | (Ret (True, None), w1) \<Rightarrow> next c w1))"

text \<open>The store and the OnLimit callback do not report for a delivery.\<close>

locale rate_limit =
  fixes Allow :: "'u rate_store" and cfg :: "'u rate_limit_config"
  assumes quiet_Allow: "quiet sid (Allow c key rate period burst)"
    and quiet_OnLimit: "rl_OnLimit cfg = Some f \<Longrightarrow> quiet sid (f c evt key)"

sublocale rate_limit \<subseteq> limiter: quiet_invoker "RateLimiter_Invoke Allow cfg"
proof unfold_locales
  fix sid :: nat and "next" :: "'u handler" and c evt h
  assume nx: "quiet_handler sid next"
  show "quiet sid (RateLimiter_Invoke Allow cfg c evt h next)"
  proof (rule quietI)
    fix w r w'
    assume n: "sid < w_next w" and run: "RateLimiter_Invoke Allow cfg c evt h next w = (r, w')"
    obtain r1 w1 where a: "Allow c (rl_KeyPrefix cfg @ the (ev_RateLimitKey evt))
        (rl_Rate cfg) (rl_Period cfg) (rl_Burst cfg) w = (r1, w1)" by fastforce
    have q1: "quiet_step sid w w1" by (rule quiet_stepD[OF quiet_Allow n a])
    have n1: "sid < w_next w1" using quiet_step_next[OF q1] n by simp
    have q2: "quiet_step sid w w2" if "rl_OnLimit cfg = Some f" "f c evt key w1 = (r2, w2)" for f key r2 w2
      by (rule quiet_step_trans[OF q1 quiet_stepD[OF quiet_OnLimit[OF that(1)] n1 that(2)]])
    have q3: "quiet_step sid w w2" if "next c w1 = (r2, w2)" for r2 w2
      by (rule quiet_step_trans[OF q1 quiet_handlerD[OF nx n1 that]])
    from run a q1 n show "quiet_step sid w w'"
      by (auto simp: RateLimiter_Invoke_def Let_def
          split: result.splits option.splits if_splits prod.splits bool.splits
          dest: q2 q3 quiet_handlerD[OF nx] intro: quiet_step_trans[OF q1 quiet_step_emit])
  qed
qed

context rate_limit
begin

lemma quiet_RateLimiter: "quiet_invoker (RateLimiter_Invoke Allow cfg)"
  by (rule limiter.quiet_invoker_axioms)

end

end
