(* ===== verification/Samples.thy ===== *)
theory Samples
  imports Invokers
begin

text \<open>
  Concrete inputs for the witnesses of the development: a world with one scope, a
  context that carries an observer, handlers that succeed, fail or panic, and
  publishers.
\<close>

definition sample_world :: "'u \<Rightarrow> 'u world" where
  "sample_world u = \<lparr>w_now = 1000, w_trace = [], w_scopes = (\<lambda>_. fresh_scope True), w_next = 1,
     w_fired = [], w_user = u\<rparr>"

definition sample_ctx :: ctx where
  "sample_ctx = Background\<lparr>cx_observer := Some 7, cx_scope := Some 0\<rparr>"

definition sample_event :: event where
  "sample_event = \<lparr>ev_Name = ''order.created'', ev_Id = Some ''o-1'', ev_Version = Some 1,
     ev_IdempotencyKey = None, ev_RateLimitKey = None, ev_OnErr = True, ev_Payload = ''p''\<rparr>"

definition boom :: error where
  "boom = UserError ''boom'' [] None None []"

definition returning :: "error option \<Rightarrow> 'u handler" where
  "returning e c w = (Ret e, w)"

definition panicking :: "'u handler" where
  "panicking c w = (Panics ''bad'' ''stack'', w)"

definition failing_publisher :: "error \<Rightarrow> 'u publisher" where
  "failing_publisher e c rec w = (Ret (Some e), w)"

lemma quiet_returning [simp]: "quiet_handler sid (returning e)"
  by (simp add: quiet_handler_def quiet_def returning_def)

lemma quiet_panicking [simp]: "quiet_handler sid panicking"
  by (simp add: quiet_handler_def quiet_def panicking_def)

lemma quiet_timers [simp]: "quiet_env sid timer_env"
  by (rule timers.quiet_runtime)

lemma quiet_memory_dlq [simp]: "dlq_publisher MemoryDLQ_Publish"
  by (rule memory_dlq.dlq_publisher_axioms)

lemma quiet_failing_publisher [simp]: "dlq_publisher (failing_publisher e)"
  by unfold_locales (simp add: failing_publisher_def quiet_def)

lemma sample_simps [simp]:
  "cx_scope sample_ctx = Some 0" "cx_observer sample_ctx = Some 7" "w_next (sample_world u) = 1"
  "w_trace (sample_world u) = []" "w_now (sample_world u) = 1000" "w_user (sample_world u) = u"
  "w_fired (sample_world u) = []"
  "report_of sid (sample_world u) = clean_report" "world_ok (sample_world u)"
  "delivery_of sample_ctx = single_delivery"
  by (simp_all add: sample_ctx_def sample_world_def report_of_def clean_report_def fresh_scope_def
      world_ok_def delivery_of_def DeliveryFromContext_def Background_def)

lemma errors_Is_boom [simp]: "errors_Is boom t = False"
  by (simp add: boom_def)

end
