(* ===== verification/Delivery_Guarantees.thy ===== *)
theory Delivery_Guarantees
  imports Samples
begin

text \<open>
  What the failure model, the handler chain and the settlement guarantee together for one
  delivery, with witnesses: reports exactly once, no silent loss, no dead-letter for an
  interrupted message, and dead-lettering at most once.
\<close>

section \<open>Reports\<close>

definition settle_in :: "ctx option \<Rightarrow> event option \<Rightarrow> string \<Rightarrow> error option \<Rightarrow> 'u publisher option \<Rightarrow> 'u settle_input" where
  "settle_in sub evt h err pub = \<lparr>in_SubscriptionCtx = sub, in_Evt = evt, in_Handler = h, in_Err = err,
     in_Publisher = pub\<rparr>"

lemma settle_in_simps [simp]:
  "in_SubscriptionCtx (settle_in sub evt h err pub) = sub" "in_Evt (settle_in sub evt h err pub) = evt"
  "in_Handler (settle_in sub evt h err pub) = h" "in_Err (settle_in sub evt h err pub) = err"
  "in_Publisher (settle_in sub evt h err pub) = pub"
  by (simp_all add: settle_in_def)

text \<open>
  C1. One delivery, one report. A transport that installed a FailureScope runs the handler
  through InvokeHandler and settles the result with Settle. Whatever the handler, the
  invoker chain, the publisher and the event's OnErr do (panics included), the Observer
  receives exactly one HandlerDone for the delivery, and one Failure exactly when the
  settlement has a terminal outcome; never two.
\<close>

theorem delivery_reported_once:
  assumes "cx_scope c = Some sid" and "sid < w_next w" and "report_of sid w = clean_report"
    and "cx_observer c = Some ob"
    and "quiet_chain iv" and "quiet_handler sid fn" and "quiet_env sid E" and "quiet_dlq pub"
    and "InvokeHandler c iv evt name fn w = (err, w1)"
    and "Settle E c (settle_in sub (Some evt) name err pub) w1 = (r, w2)"
  shows "count_if (done_on sid) (w_trace w2) = 1
    \<and> count_if (failure_on sid) (w_trace w2) = (if err \<noteq> None \<and> settle_reported r then 1 else 0)"
proof -
  have E: "in_Err (settle_in sub (Some evt) name err pub) = None \<longleftrightarrow> err = None" by simp
  have p: "quiet_dlq (in_Publisher (settle_in sub (Some evt) name err pub))" using assms(8) by simp
  from delivery_report[OF assms(1-3,5,6,9) quiet_step_refl assms(1) refl assms(7) p E assms(10)]
  show ?thesis using assms(4) by (simp add: report_of_def observed_def)
qed

theorem delivery_reported_once_witness:
  "count_if (done_on 0) (w_trace (snd (Settle timer_env sample_ctx (settle_in None (Some sample_event) ''h''
     (fst (InvokeHandler sample_ctx (Some (DLQ_Invoke timer_env (Some MemoryDLQ_Publish))) sample_event ''h''
        panicking (sample_world []))) (Some MemoryDLQ_Publish))
     (snd (InvokeHandler sample_ctx (Some (DLQ_Invoke timer_env (Some MemoryDLQ_Publish))) sample_event ''h''
        panicking (sample_world [])))))) = 1"
  by (rule delivery_reported_once[OF _ _ _ _ _ _ _ _ prod.collapse[symmetric] prod.collapse[symmetric],
        THEN conjunct1])
    (simp_all add: memory_dlq_runtime.dlq.quiet_invoker_axioms)

text \<open>
  No silent loss. On the final delivery, after which the broker redelivers nothing,
  every failed chain that is not a duplicate ends in a settlement with a terminal
  outcome: it is dead-lettered, reported as failed to dead-letter, dropped or
  interrupted, and so reported.
\<close>

lemma final_delivery_never_silent:
  assumes "Settle E c inp w = (Ret s, w')" and "in_Err inp = Some err" and "Final (delivery_of c)"
    and "\<not> errors_Is err ErrDuplicate"
  shows "s_Outcome s \<in> {OutcomeDeadLettered, OutcomeDLQPublishFailed, OutcomeDropped, OutcomeInterrupted}"
proof -
  obtain w1 where "settle_body E c inp err w = (Ret s, w1)" using Settle_Ret[OF assms(1, 2)] by blast
  then show ?thesis
  proof (cases rule: settle_body_cases)
    case delayed
    with assms(3) Dispose_final_RetryDelayed_iff[OF assms(3), of err] show ?thesis by simp
  next
    case terminal
    from settle_terminal_cases[OF terminal(3)] assms(3) show ?thesis by auto
  qed (use assms in auto)
qed

lemma boom_class [simp]: "isTerminal boom = False" "isDecodeError boom = False"
  by (simp_all add: isTerminal_def isDecodeError_def as_Terminal_def errors_As_def nodes.simps boom_def
      is_type_defs)

lemma boom_dispose [simp]: "Dispose (Some boom) d = (if Final d then DispositionTerminal else DispositionRetryDelayed)"
  by (simp add: Dispose_def retryUnlessFinal_def)

text \<open>The settlement of a plain failure on a final delivery without a publisher.\<close>

lemma sample_drop:
  "Settle timer_env sample_ctx (settle_in None None ''h'' (Some boom) None) (sample_world ()) =
     (Ret \<lparr>s_Disposition = DispositionTerminal, s_Reason = ReasonOf (Some boom), s_Outcome = OutcomeDropped,
        s_Err = Some boom\<rparr>,
      snd (Settle timer_env sample_ctx (settle_in None None ''h'' (Some boom) None) (sample_world ())))"
  by (simp add: Settle_def settle_body_def settle_decode_def settle_terminal_def IsInterrupted_def Let_def)

text \<open>
  C3. Terminal is safe. Settle answers Terminal, after which the transport removes the
  message for good, only when no publisher is configured (the message is then reported as
  dropped) or after the dead-letter publish of this very failure returned success.
\<close>

theorem terminal_only_after_publish:
  assumes "Settle E c inp w = (Ret s, w')" and "in_Err inp = Some err"
    and "s_Disposition s = DispositionTerminal"
  shows "in_Publisher inp = None \<and> s_Outcome s = OutcomeDropped
    \<or> (\<exists>p w0 w1. in_Publisher inp = Some p \<and> s_Outcome s = OutcomeDeadLettered
        \<and> PublishDeadLetter E c p (NewDLQRecord c (in_Evt inp) (in_Handler inp) (Some err) w0) w0 = (Ret None, w1))"
proof -
  obtain w1 where "settle_body E c inp err w = (Ret s, w1)" using Settle_Ret[OF assms(1, 2)] by blast
  then show ?thesis
  proof (cases rule: settle_body_cases)
    case terminal
    from settle_terminal_cases[OF terminal(3)] assms(3) show ?thesis by (elim conjE disjE exE) auto
  qed (use assms in auto)
qed

theorem terminal_only_after_publish_witness:
  "\<exists>s w'. Settle timer_env sample_ctx (settle_in None None ''h'' (Some boom) None) (sample_world ()) = (Ret s, w')
     \<and> s_Disposition s = DispositionTerminal \<and> s_Outcome s = OutcomeDropped"
proof (intro exI conjI, rule sample_drop)
  show "s_Outcome \<lparr>s_Disposition = DispositionTerminal, s_Reason = ReasonOf (Some boom),
      s_Outcome = OutcomeDropped, s_Err = Some boom\<rparr> = OutcomeDropped"
    using terminal_only_after_publish[OF sample_drop] by simp
qed simp

lemma reportTerminal_publisher:
  "reportTerminal E c (inp\<lparr>in_Publisher := p\<rparr>) d oc reason err w = reportTerminal E c inp d oc reason err w"
proof -
  have "failureContext c (inp\<lparr>in_Publisher := p\<rparr>) d oc reason err = failureContext c inp d oc reason err"
    by (intro ext) (simp add: failureContext_def)
  then show ?thesis by (auto simp: reportTerminal_def Let_def split: prod.splits bool.splits option.splits)
qed

text \<open>
  C4. An interrupted message is never dead-lettered. When the subscription context ended
  and the error is a context error, Settle answers Retry and behaves as if no publisher
  were configured: the publisher is not called.
\<close>

theorem interrupted_never_dead_lettered:
  assumes "in_Err inp = Some err" and "in_SubscriptionCtx inp = Some sc" and "ctx_Err sc w \<noteq> None"
    and "errors_Is err Canceled \<or> errors_Is err DeadlineExceeded"
  shows "Settle E c inp w = Settle E c (inp\<lparr>in_Publisher := None\<rparr>) w
    \<and> (\<exists>s w'. Settle E c inp w = (Ret s, w') \<and> s_Disposition s = DispositionRetry
         \<and> s_Outcome s = (if Final (delivery_of c) then OutcomeInterrupted else OutcomeNone))"
proof -
  have i: "IsInterrupted (in_SubscriptionCtx inp) (Some err) (settle_decode c inp err w)"
    "settle_decode c (inp\<lparr>in_Publisher := None\<rparr>) err w = settle_decode c inp err w"
    using assms(2, 3, 4) by (auto simp: IsInterrupted_def settle_decode_def Let_def split: option.splits if_splits)
  then show ?thesis
    using assms(1) by (simp add: Settle_def settle_body_def Let_def reportTerminal_publisher)
qed

definition stopped_world :: "dlq_record list world" where
  "stopped_world = fire 3 (Sentinel Canceled) (Sentinel ErrShutdownInterrupted) (sample_world [])"

theorem interrupted_never_dead_lettered_witness:
  "Settle timer_env sample_ctx
     (settle_in (Some (Background\<lparr>cx_sources := [3]\<rparr>)) (Some sample_event) ''h'' (Some (Sentinel Canceled))
       (Some MemoryDLQ_Publish)) stopped_world
   = Settle timer_env sample_ctx
     ((settle_in (Some (Background\<lparr>cx_sources := [3]\<rparr>)) (Some sample_event) ''h'' (Some (Sentinel Canceled))
       (Some MemoryDLQ_Publish))\<lparr>in_Publisher := None\<rparr>) stopped_world"
  by (rule interrupted_never_dead_lettered[where sc = "Background\<lparr>cx_sources := [3]\<rparr>", THEN conjunct1])
    (auto simp: ctx_Err_def ctx_done_def stopped_world_def fire_def)

section \<open>Dead-lettering\<close>

lemma keepsI: "(\<And>w r w'. f w = (r, w') \<Longrightarrow> calls w' = calls w) \<Longrightarrow> keeps f"
  unfolding keeps_def by (metis prod.collapse)

lemma calls_upd_scope [simp]: "calls (upd_scope s f w) = calls w"
  by (simp add: calls_def)

lemma calls_flush [simp]: "calls (flushHandlerDone p c oc w) = calls w"
  by (simp add: flushHandlerDone_def split: option.splits)

lemma calls_finish [simp]: "calls (finish_chain c s hr w) = calls w"
  by (simp add: finish_chain_def deferHandlerDone_def split: option.splits)

lemma calls_settle_decode [simp]: "calls (settle_decode c inp err w) = calls w"
  by (simp add: settle_decode_def Let_def)

lemma calls_alloc: "alloc_scope s c w = (p, w') \<Longrightarrow> calls w' = calls w"
  by (auto simp: alloc_scope_def calls_def)

text \<open>Waits and OnErr callbacks that leave the counter alone.\<close>

definition keeps_env :: "(nat \<times> 'u) env \<Rightarrow> bool" where
  "keeps_env E \<longleftrightarrow> (\<forall>c d. keeps (e_wait E c d)) \<and> (\<forall>ev c err h. keeps (e_OnErr E ev c err h))"

lemma keeps_env_OnErr: "keeps_env E \<Longrightarrow> e_OnErr E ev c err h w = (r, w') \<Longrightarrow> calls w' = calls w"
  unfolding keeps_env_def by (blast dest: keepsD)

lemma calls_reportTerminal:
  assumes "keeps_env E"
  shows "calls (reportTerminal E c inp d oc reason err w) = calls w"
  by (auto simp: reportTerminal_def callEventOnErr_def markReported_def Let_def
      split: option.splits prod.splits result.splits dest!: keeps_env_OnErr[OF assms])

definition delivered_error :: "error option \<Rightarrow> bool" where
  "delivered_error e \<longleftrightarrow> (case e of None \<Rightarrow> False | Some err \<Rightarrow> errors_Is err ErrDeadLettered)"

lemma calls_Settle:
  assumes E: "keeps_env E" and p: "\<And>c rec. keeps (p c rec)"
    and pub: "in_Publisher inp = Some (tally ok_result p)" and run: "Settle E c inp w = (r, w')"
  shows "calls w' \<le> calls w + (if delivered_error (in_Err inp) then 0 else 1)"
proof (cases "in_Err inp")
  case None
  with run show ?thesis by (auto simp: Settle_def)
next
  case (Some err)
  obtain r1 w1 where b: "settle_body E c inp err w = (r1, w1)" by fastforce
  have w': "calls w' = calls w1" using run Some b by (auto simp: Settle_def split: result.splits)
  note rt = calls_reportTerminal[OF E]
  have pc: "calls w3 \<le> calls w2 + 1" if "PublishDeadLetter E c (tally ok_result p) rec w2 = (r2, w3)" for rec w2 r2 w3
    using PublishDeadLetter_ok_calls[OF p _ that] E by (auto simp: keeps_env_def split: if_splits)
  show ?thesis
  proof (cases "\<not> IsInterrupted (in_SubscriptionCtx inp) (Some err) (settle_decode c inp err w)
      \<and> Dispose (Some err) (delivery_of c) = DispositionTerminal")
    case True
    then have "\<not> delivered_error (in_Err inp)" by (simp add: Some delivered_error_def Dispose_Terminal_iff)
    moreover have "settle_terminal E c inp err (settle_decode c inp err w) = (r1, w1)"
      using True b by (simp add: settle_body_def Let_def)
    then have "calls w1 \<le> calls w + 1"
      by (auto simp: settle_terminal_def pub Let_def rt split: prod.splits result.splits option.splits if_splits
          dest!: pc)
    ultimately show ?thesis by (simp add: w')
  next
    case False
    with b Dispose_never_Retry[of "Some err" "delivery_of c"] have "calls w1 = calls w"
      by (auto simp: settle_body_def Let_def rt split: if_splits Disposition.splits)
    then show ?thesis by (simp add: w')
  qed
qed

lemma calls_DLQ_Invoke:
  assumes E: "keeps_env E" and p: "\<And>c rec. keeps (p c rec)" and nx: "\<And>c. keeps (next c)"
    and run: "DLQ_Invoke E (Some (tally ok_result p)) c evt h next w = (r, w')"
  shows "calls w' \<le> calls w + (if (\<exists>e. r = Ret (Some e) \<and> errors_Is e ErrDeadLettered) then 1 else 0)"
proof -
  obtain r1 w1 where n: "next c w = (r1, w1)" by fastforce
  note c1 = keepsD[OF nx n]
  have pc: "calls w3 = calls w2 + (if r2 = Ret None then 1 else 0)"
    if "PublishDeadLetter E c (tally ok_result p) rec w2 = (r2, w3)" for rec w2 r2 w3
    using PublishDeadLetter_ok_calls[OF p _ that] E by (auto simp: keeps_env_def)
  from run n c1 show ?thesis
    by (auto simp: DLQ_Invoke_def Let_def split: result.splits option.splits if_splits prod.splits dest!: pc)
qed

lemma keeps_recover_call: "(\<And>c. keeps (fn c)) \<Longrightarrow> keeps (recover_call fn c)"
  by (rule keepsI) (auto simp: recover_call_def split: prod.splits result.splits dest: keepsD)

text \<open>
  C5. Dead-lettered at most once. With the DLQ invoker in the chain and the transport's
  own publisher behind it (the documented configuration: both are the same publisher), a
  delivery is published successfully to the dead-letter queue at most once, whatever the
  handler does and however often publishing fails or panics.
\<close>

theorem dead_lettered_at_most_once:
  assumes "keeps_env E" and "\<forall>c rec. keeps (p c rec)" and "\<forall>c. keeps (fn c)"
    and "InvokeHandler c (Some (DLQ_Invoke E (Some (tally ok_result p)))) evt name fn w = (err, w1)"
    and "Settle E sc (settle_in sub (Some evt) name err (Some (tally ok_result p))) w1 = (r, w2)"
  shows "calls w2 \<le> calls w + 1"
proof -
  obtain ch wa sid wb where sc: "(case FailureScopeFromContext c of Some s \<Rightarrow> ((c, s), w)
      | None \<Rightarrow> newDetachedScope c w) = ((ch, sid), wa)" and ca: "calls wa = calls w"
    by (cases "FailureScopeFromContext c")
      (auto simp: newDetachedScope_def alloc_scope_def calls_def)
  obtain r0 wc where dl: "DLQ_Invoke E (Some (tally ok_result p)) ch evt name (recover_call fn) wa = (r0, wc)"
    by fastforce
  have c1: "calls w1 = calls wc" and e1: "delivered_error err \<longleftrightarrow> (\<exists>e. r0 = Ret (Some e) \<and> errors_Is e ErrDeadLettered)"
    using assms(4) sc dl
    by (auto simp: InvokeHandler_def run_chain_def delivered_error_def recoveredPanic_def
        split: result.splits option.splits)
  have "calls wc \<le> calls w + (if delivered_error err then 1 else 0)"
    using calls_DLQ_Invoke[OF assms(1) _ keeps_recover_call dl] assms(2, 3) ca e1 by simp
  moreover have "calls w2 \<le> calls w1 + (if delivered_error err then 0 else 1)"
    using calls_Settle[OF assms(1) _ _ assms(5), of p] assms(2) by simp
  ultimately show ?thesis using c1 by (simp split: if_splits)
qed

definition counting_publisher :: "(nat \<times> unit) publisher" where
  "counting_publisher c rec w = (Ret None, w)"

theorem dead_lettered_at_most_once_witness:
  "calls (snd (Settle timer_env sample_ctx (settle_in None (Some sample_event) ''h''
     (fst (InvokeHandler sample_ctx (Some (DLQ_Invoke timer_env (Some (tally ok_result counting_publisher))))
        sample_event ''h'' panicking (sample_world (0, ())))) (Some (tally ok_result counting_publisher)))
     (snd (InvokeHandler sample_ctx (Some (DLQ_Invoke timer_env (Some (tally ok_result counting_publisher))))
        sample_event ''h'' panicking (sample_world (0, ()))))))
   \<le> calls (sample_world (0, ())) + 1"
  by (rule dead_lettered_at_most_once[OF _ _ _ prod.collapse[symmetric] prod.collapse[symmetric]])
    (simp_all add: keeps_env_def keeps_def timer_env_def timer_wait_def counting_publisher_def panicking_def
      calls_def)

text \<open>
  The publish loop is bounded. A final delivery calls the publisher at most three
  times, any other at most once, and at least once; when every call fails and no wait is
  cut short, the loop uses all its attempts.
\<close>

lemma publish_attempts_bounded:
  assumes "keeps (p c rec)" and "\<forall>d. keeps (e_wait E c d)"
    and "publishDeadLetter E c (tally (\<lambda>_. True) p) rec w = (r, w')"
  shows "calls w < calls w' \<and> calls w' \<le> calls w + (if Final (r_Delivery rec) then 3 else 1)
    \<and> ((\<exists>err. r = Ret (Some err)) \<and> (\<forall>c d w. fst (e_wait E c d w)) \<longrightarrow>
         calls w' = calls w + (if Final (r_Delivery rec) then 3 else 1))"
  using publish_loop_calls[of p c rec E "if Final (r_Delivery rec) then publishAttemptsFinal else 1"]
    assms
  by (auto simp: publishDeadLetter_def publishAttemptsFinal_def split: if_splits)

definition failing_count :: "(nat \<times> unit) publisher" where
  "failing_count c rec w = (Ret (Some boom), w)"

definition sample_record :: "dlq_record" where
  "sample_record = NewDLQRecord sample_ctx (Some sample_event) ''h'' (Some boom) (sample_world ())"

text \<open>
  Every failure header fits a broker header. Each header FailureHeaders writes for a
  record with a 64-bit attempt count is at most 2048 bytes long.
\<close>

lemma failure_headers_bounded:
  assumes "(k, v) \<in> set (FailureHeaders fmtTime r)" and "- (2 ^ 63) \<le> r_Attempts r" and "r_Attempts r < 2 ^ 63"
  shows "int (length v) \<le> 2048"
proof -
  have "\<bar>r_Attempts r\<bar> < 10 ^ 19" using assms(2, 3) by simp
  then have "int (length (Itoa (r_Attempts r))) \<le> 20" using length_Itoa by simp
  moreover have "int (length (TruncateHeader s DLQHeaderValueLimit)) \<le> 1024" for s
    using length_TruncateHeader[of DLQHeaderValueLimit s] by (simp add: DLQHeaderValueLimit_def)
  moreover have "int (length (fst (EncodeHistoryHeader fmtTime (r_History r) HistoryHeaderLimit))) \<le> 2048"
    using EncodeHistoryHeader_bound[of fmtTime "r_History r" HistoryHeaderLimit]
    by (auto simp: HistoryHeaderLimit_def)
  ultimately show ?thesis
    using FailureHeaders_values[OF assms(1)] by (elim disjE exE conjE) (fastforce intro: order_trans)+
qed

text \<open>
  A panic never escapes. When the handler panics, InvokeHandler returns a PanicError
  with the value and the stack, which every classification treats as final: it is
  terminal for Dispose on any delivery, its reason is panic and its attempt class is
  panic.
\<close>

lemma panic_contained:
  assumes "fn (c\<lparr>cx_scope := Some sid\<rparr>) w = (Panics v st, w1)"
  shows "\<exists>w'. InvokeHandler (c\<lparr>cx_scope := Some sid\<rparr>) None evt name fn w = (Some (PanicError v st), w')
    \<and> Dispose (Some (PanicError v st)) d = DispositionTerminal
    \<and> ReasonOf (Some (PanicError v st)) = ReasonPanic
    \<and> AttemptClassOf c (PanicError v st) w' = AttemptPanic"
  using run_chain_panic(1)[of None fn "c\<lparr>cx_scope := Some sid\<rparr>" w v st w1] assms
  by (auto simp: InvokeHandler_scoped Dispose_def ReasonOf_def AttemptClassOf_def)

end
