(* ===== verification/Retry.thy ===== *)
theory Retry
  imports Samples
begin

text \<open>
  The retry invoker (invoker/retry.go): error classification, exponential backoff in
  64-bit arithmetic, the bounded attempt history and the loop. The lemmas show that the
  number of handler runs is bounded and reported, and what the history holds.
\<close>

section \<open>Definitions\<close>

definition AttemptErrLimit :: int where "AttemptErrLimit = 256"

definition NewAttempt :: "int \<Rightarrow> error option \<Rightarrow> AttemptClass \<Rightarrow> time \<Rightarrow> duration \<Rightarrow> duration \<Rightarrow> attempt" where
  "NewAttempt n err class started dur delay =
     \<lparr>at_N = n, at_Err = (case err of None \<Rightarrow> [] | Some e \<Rightarrow> TruncateHeader (Error_text e) AttemptErrLimit),
      at_Class = class, at_Started = started, at_Duration = dur, at_Delay = delay\<rparr>"

definition DefaultHistorySize :: int where "DefaultHistorySize = 5"

record retry_policy =
  rt_MaxAttempts :: int
  rt_BaseDelay :: duration
  rt_MaxDelay :: duration
  rt_HistorySize :: int

record attempt_ring =
  g_size :: int
  g_items :: "attempt list"

definition newAttemptRing :: "int \<Rightarrow> attempt_ring" where
  "newAttemptRing configured =
     \<lparr>g_size = (if configured = 0 then DefaultHistorySize else if configured < 0 then 0 else configured),
      g_items = []\<rparr>"

definition ring_enabled :: "attempt_ring \<Rightarrow> bool" where
  "ring_enabled g \<longleftrightarrow> g_size g > 0"

text \<open>\<^verbatim>\<open>copy(g.items, g.items[1:])\<close> moves every entry one place down and keeps the last.\<close>

definition ring_add :: "attempt_ring \<Rightarrow> attempt \<Rightarrow> attempt_ring" where
  "ring_add g a =
     (if g_size g \<le> 0 then g
      else if int (length (g_items g)) = g_size g
      then g\<lparr>g_items := (tl (g_items g) @ [last (g_items g)])[length (g_items g) - 1 := a]\<rparr>
      else g\<lparr>g_items := g_items g @ [a]\<rparr>)"

text \<open>(retry, terminal)\<close>

definition classify :: "error option \<Rightarrow> bool \<times> bool" where
  "classify e = (case e of None \<Rightarrow> (False, False) | Some err \<Rightarrow>
     if errors_Is err ErrDuplicate then (False, False)
     else if errors_Is err ErrRateLimited then (False, False)
     else if errors_Is err ErrCircuitOpen then (False, False)
     else if errors_Is err ErrInProgress then (False, False)
     else if errors_Is err ErrDeadLettered \<or> errors_Is err ErrDeadLetterFailed then (False, False)
     else if errors_Is err Canceled \<or> errors_Is err DeadlineExceeded then (False, False)
     else if as_Terminal err = Some True then (False, True)
     else (case as_Retryable err of Some b \<Rightarrow> (b, False) | None \<Rightarrow> (True, False)))"

text \<open>
  \<^verbatim>\<open>time.Duration(1<<attempt) * base\<close> is a signed 64-bit product; the shift is a shift of
  a 64-bit one.
\<close>

definition backoff :: "nat \<Rightarrow> duration \<Rightarrow> duration \<Rightarrow> duration" where
  "backoff attempt base mx =
     (let d = sint (push_bit attempt (1 :: 64 word) * word_of_int base) in if d > mx then mx else d)"

definition wait :: "'u env \<Rightarrow> ctx \<Rightarrow> duration \<Rightarrow> 'u world \<Rightarrow> error option \<times> 'u world" where
  "wait E c d w =
     (if d \<le> 0 then (ctx_Err c w, w)
      else (case e_wait E c d w of (True, w1) \<Rightarrow> (None, w1) | (False, w1) \<Rightarrow> (ctx_Err c w1, w1)))"

definition maxAttempts :: "retry_policy \<Rightarrow> int" where
  "maxAttempts p = max (rt_MaxAttempts p) 1"

definition exhausted :: "retry_policy \<Rightarrow> error option \<Rightarrow> attempt_ring \<Rightarrow> error" where
  "exhausted pol lastErr hist = FailureError lastErr ReasonRetriesExhausted (maxAttempts pol) (g_items hist)"

definition add_if_enabled :: "attempt_ring \<Rightarrow> attempt \<Rightarrow> attempt_ring" where
  "add_if_enabled hist a = (if ring_enabled hist then ring_add hist a else hist)"

function retry_loop :: "'u env \<Rightarrow> retry_policy \<Rightarrow> ctx \<Rightarrow> event \<Rightarrow> string \<Rightarrow> 'u handler \<Rightarrow> int \<Rightarrow>
    attempt_ring \<Rightarrow> error option \<Rightarrow> ('u, error option) comp" where
  "retry_loop E pol c evt handler next attempt hist lastErr w =
     (if attempt > maxAttempts pol then (Ret (Some (exhausted pol lastErr hist)), w)
      else (case next c w of
        (Panics v st, w1) \<Rightarrow> (Panics v st, w1)
      | (Ret None, w1) \<Rightarrow> (Ret None, w1)
      | (Ret (Some err), w1) \<Rightarrow>
          (let started = w_now w; took = w_now w1 - w_now w; cls = AttemptClassOf c err w1 in
           case classify (Some err) of (retry, terminal) \<Rightarrow>
             if terminal
             then (let hist' = add_if_enabled hist (NewAttempt attempt (Some err) cls started took 0) in
                   (Ret (Some (FailureError (Some err) ReasonTerminal attempt (g_items hist'))), w1))
             else if \<not> retry
             then (if attempt > 1 \<and> errors_Is err ErrCircuitOpen
                   then (Ret (Some (FailureError (Some err) ReasonCircuitOpen (attempt - 1) (g_items hist))), w1)
                   else (Ret (Some err), w1))
             else if attempt = maxAttempts pol
             then (let hist' = add_if_enabled hist (NewAttempt attempt (Some err) cls started took 0) in
                   (Ret (Some (exhausted pol (Some err) hist')), w1))
             else (let delay = backoff (nat (attempt - 1)) (rt_BaseDelay pol) (rt_MaxDelay pol);
                       w2 = emit c (RetryAttempt \<lparr>ra_Handler = handler, ra_Event = ev_Name evt,
                              ra_Attempt = attempt, ra_Class = cls, ra_Err = Some err, ra_Delay = delay,
                              ra_At = started + took\<rparr>) w1;
                       hist' = add_if_enabled hist (NewAttempt attempt (Some err) cls started took delay)
                   in case wait E c delay w2 of
                        (Some cerr, w3) \<Rightarrow> (Ret (Some cerr), w3)
                      | (None, w3) \<Rightarrow>
                          retry_loop E pol c evt handler next (attempt + 1) hist' (Some err) w3))))"
  by pat_completeness auto
termination
  by (relation "measure (\<lambda>(E, pol, c, evt, h, next, attempt, _). nat (maxAttempts pol - attempt + 1))") auto

declare retry_loop.simps [simp del]

definition Retry_Invoke :: "'u env \<Rightarrow> retry_policy \<Rightarrow> 'u invoker" where
  "Retry_Invoke E pol c evt handler next w =
     retry_loop E pol c evt handler next 1 (newAttemptRing (rt_HistorySize pol)) None w"

section \<open>The attempt ring\<close>

definition ring_wf :: "attempt_ring \<Rightarrow> bool" where
  "ring_wf g \<longleftrightarrow> 0 \<le> g_size g \<and> int (length (g_items g)) \<le> g_size g"

lemma ring_wf_new: "ring_wf (newAttemptRing n)"
  by (simp add: ring_wf_def newAttemptRing_def DefaultHistorySize_def)

lemma ring_add_full:
  "0 < g_size g \<Longrightarrow> int (length (g_items g)) = g_size g \<Longrightarrow> ring_add g a = g\<lparr>g_items := tl (g_items g) @ [a]\<rparr>"
  by (cases "g_items g") (auto simp: ring_add_def list_update_append)

text \<open>A ring keeps the newest \<open>g_size\<close> entries of everything added, oldest first.\<close>

definition newest :: "nat \<Rightarrow> 'a list \<Rightarrow> 'a list" where
  "newest n xs = drop (length xs - n) xs"

lemma ring_add_newest:
  assumes "g_items g = newest (nat (g_size g)) xs"
  shows "g_items (ring_add g a) = newest (nat (g_size g)) (xs @ [a])"
proof (cases "0 < g_size g \<and> int (length (g_items g)) = g_size g")
  case True
  then obtain k where k: "nat (g_size g) = Suc k" by (cases "nat (g_size g)") auto
  have "nat (g_size g) \<le> length xs" using True assms by (auto simp: newest_def)
  with True assms k show ?thesis
    using drop_Suc[of "length xs - Suc k" xs] tl_drop[of "length xs - Suc k" xs]
    by (simp add: ring_add_full newest_def Suc_diff_le Suc_diff_Suc)
next
  case False
  show ?thesis
  proof (cases "g_size g \<le> 0")
    case True
    with assms show ?thesis by (simp add: ring_add_def newest_def)
  next
    case pos: False
    with False assms have "length xs < nat (g_size g)" by (auto simp: newest_def)
    with pos False assms show ?thesis by (auto simp: ring_add_def newest_def)
  qed
qed

lemma ring_add_size [simp]: "g_size (ring_add g a) = g_size g" "g_size (add_if_enabled g a) = g_size g"
  by (simp_all add: ring_add_def add_if_enabled_def)

lemma add_if_enabled_newest:
  "g_items g = newest (nat (g_size g)) xs \<Longrightarrow>
     g_items (add_if_enabled g a) = newest (nat (g_size g)) (xs @ [a])"
  using ring_add_newest[of g xs a] by (auto simp: add_if_enabled_def ring_enabled_def newest_def)

section \<open>Backoff\<close>

lemma backoff_eq:
  assumes "0 \<le> base" and "base * 2 ^ n < 2 ^ 63"
  shows "backoff n base mx = min mx (base * 2 ^ n)"
proof -
  have "push_bit n (1 :: 64 word) * word_of_int base = word_of_int (base * 2 ^ n)"
    by (simp add: push_bit_eq_mult mult.commute)
  moreover have "0 \<le> base * 2 ^ n" using assms(1) by simp
  then have "sint (word_of_int (base * 2 ^ n) :: 64 word) = base * 2 ^ n"
    using assms(2) by (intro sint_word64) auto
  ultimately show ?thesis by (simp add: backoff_def Let_def ac_simps min_def)
qed

section \<open>The loop\<close>

text \<open>The ways a round of the loop ends it, and the way it goes on.\<close>

lemma retry_loop_cases:
  assumes run: "retry_loop E pol c evt h next attempt hist lastErr w = (r, w')"
    and le: "attempt \<le> maxAttempts pol"
  obtains (returned) "next c w = (r, w')" "r = Ret None \<or> (\<exists>v st. r = Panics v st)
        \<or> (\<exists>err. r = Ret (Some err) \<and> classify (Some err) = (False, False))"
    | (failed) err cls took where "next c w = (Ret (Some err), w')" "snd (classify (Some err))"
        "r = Ret (Some (FailureError (Some err) ReasonTerminal attempt
               (g_items (add_if_enabled hist (NewAttempt attempt (Some err) cls (w_now w) took 0)))))"
    | (opened) err where "next c w = (Ret (Some err), w')" "1 < attempt" "errors_Is err ErrCircuitOpen"
        "r = Ret (Some (FailureError (Some err) ReasonCircuitOpen (attempt - 1) (g_items hist)))"
    | (exhausted) err cls took where "next c w = (Ret (Some err), w')" "classify (Some err) = (True, False)"
        "attempt = maxAttempts pol"
        "r = Ret (Some (FailureError (Some err) ReasonRetriesExhausted (maxAttempts pol)
               (g_items (add_if_enabled hist (NewAttempt attempt (Some err) cls (w_now w) took 0)))))"
    | (waited) err w1 info delay cerr where "next c w = (Ret (Some err), w1)" "attempt < maxAttempts pol"
        "wait E c delay (emit c (RetryAttempt info) w1) = (Some cerr, w')" "r = Ret (Some cerr)"
    | (again) err w1 info delay a w3 where "next c w = (Ret (Some err), w1)"
        "classify (Some err) = (True, False)" "attempt < maxAttempts pol" "at_N a = attempt"
        "ra_Attempt info = attempt"
        "wait E c delay (emit c (RetryAttempt info) w1) = (None, w3)"
        "retry_loop E pol c evt h next (attempt + 1) (add_if_enabled hist a) (Some err) w3 = (r, w')"
proof -
  obtain r1 w1 where nx: "next c w = (r1, w1)" by fastforce
  note un = run[unfolded retry_loop.simps[of E pol c evt h "next" attempt] nx]
  show thesis
  proof (cases r1)
    case (Panics v st)
    with un le nx show thesis by (intro returned) auto
  next
    case (Ret e)
    show thesis
    proof (cases e)
      case None
      with un le nx Ret show thesis by (intro returned) auto
    next
      case (Some err)
      note nx' = nx[unfolded Ret Some]
      obtain retry terminal where cl: "classify (Some err) = (retry, terminal)" by fastforce
      note un' = un[unfolded Ret Some, simplified cl, simplified]
      show thesis
      proof (cases "terminal \<or> \<not> retry")
        case True
        then show thesis
          using un' le nx' cl failed[of err] opened[of err] returned
          by (cases terminal) (auto simp: Let_def split: if_splits)
      next
        case rt: False
        show thesis
        proof (cases "attempt = maxAttempts pol")
          case True
          with rt un' nx' cl exhausted[of err] show thesis by (auto simp: Let_def exhausted_def)
        next
          case False
          let ?d = "backoff (nat (attempt - 1)) (rt_BaseDelay pol) (rt_MaxDelay pol)"
          let ?cls = "AttemptClassOf c err w1"
          let ?a = "NewAttempt attempt (Some err) ?cls (w_now w) (w_now w1 - w_now w) ?d"
          let ?info = "\<lparr>ra_Handler = h, ra_Event = ev_Name evt, ra_Attempt = attempt, ra_Class = ?cls,
            ra_Err = Some err, ra_Delay = ?d, ra_At = w_now w + (w_now w1 - w_now w)\<rparr>"
          obtain e' w3 where wt: "wait E c ?d (emit c (RetryAttempt ?info) w1) = (e', w3)" by fastforce
          with False rt un' nx' cl le waited[of err w1 ?d ?info] again[of err w1 ?a ?info ?d w3] show thesis
            by (cases e') (auto simp: Let_def NewAttempt_def)
        qed
      qed
    qed
  qed
qed

lemma quiet_step_wait:
  "quiet_env sid E \<Longrightarrow> sid < w_next w \<Longrightarrow> wait E c d w = (e, w') \<Longrightarrow> quiet_step sid w w'"
  by (auto simp: wait_def split: if_splits prod.splits bool.splits dest: quiet_env_wait)

lemma quiet_retry_loop:
  assumes nx: "quiet_handler sid next" and E: "quiet_env sid E"
  shows "sid < w_next w \<Longrightarrow> attempt \<le> maxAttempts pol \<Longrightarrow>
    retry_loop E pol c evt h next attempt hist lastErr w = (r, w') \<Longrightarrow> quiet_step sid w w'"
proof (induction "nat (maxAttempts pol - attempt)" arbitrary: attempt hist lastErr w rule: less_induct)
  case less
  have q1: "quiet_step sid w w1 \<and> sid < w_next w1" if "next c w = (r1, w1)" for r1 w1
    using quiet_handlerD[OF nx less.prems(1) that] less.prems(1) quiet_step_next by fastforce
  have q2: "quiet_step sid w1 w2 \<and> sid < w_next w2"
    if "sid < w_next w1" "wait E c d (emit c (RetryAttempt i) w1) = (e, w2)" for w1 d i e w2
    using quiet_step_wait[OF E _ that(2)] quiet_step_emit[of "RetryAttempt i" sid w1 c] that(1)
    by (auto dest: quiet_step_next intro: quiet_step_trans)
  from less.prems(3, 2) show ?case
  proof (cases rule: retry_loop_cases)
    case (waited err w1 info delay cerr)
    with q1 q2 show ?thesis by (blast intro: quiet_step_trans)
  next
    case (again err w1 info delay a w3)
    have q: "quiet_step sid w w3" "sid < w_next w3"
      using q1[OF again(1)] q2[OF _ again(6)] by (auto intro: quiet_step_trans)
    have "quiet_step sid w3 w'"
      using again(3) by (intro less.hyps[OF _ q(2) _ again(7)]) auto
    with q(1) show ?thesis by (rule quiet_step_trans)
  qed (use q1 in auto)
qed

lemma one_le_maxAttempts [simp]: "1 \<le> maxAttempts pol"
  by (simp add: maxAttempts_def)

sublocale quiet_runtime \<subseteq> retry: quiet_invoker "Retry_Invoke E pol" for pol
proof unfold_locales
  fix sid :: nat and "next" :: "'u handler" and c evt h
  assume nx: "quiet_handler sid next"
  show "quiet sid (Retry_Invoke E pol c evt h next)"
    by (rule quietI) (auto simp: Retry_Invoke_def
        elim!: quiet_retry_loop[OF nx quiet_runtime, rotated 2])
qed

context quiet_runtime
begin

lemma quiet_Retry: "quiet_invoker (Retry_Invoke E pol)"
  by (rule retry.quiet_invoker_axioms)

end

section \<open>How often the handler runs\<close>

definition counted :: "(nat \<times> 'u) handler \<Rightarrow> (nat \<times> 'u) handler" where
  "counted h c w = (case h c w of (r, w1) \<Rightarrow> (r, bump w1))"

lemma counted_calls: "keeps (h c) \<Longrightarrow> counted h c w = (r, w') \<Longrightarrow> calls w' = Suc (calls w)"
  by (auto simp: counted_def split: prod.splits dest: keepsD)

lemma wait_calls: "(\<And>d. keeps (e_wait E c d)) \<Longrightarrow> wait E c d w = (e, w') \<Longrightarrow> calls w' = calls w"
  by (auto simp: wait_def split: if_splits prod.splits bool.splits dest: keepsD)

lemma wait_Some: "wait E c d w = (Some e, w') \<Longrightarrow> ctx_Err c w' = Some e"
  by (auto simp: wait_def split: if_splits prod.splits bool.splits)

text \<open>The history after \<open>m\<close> failed attempts: the newest of attempts 1 to \<open>m\<close>.\<close>

definition history_size :: "retry_policy \<Rightarrow> nat" where
  "history_size pol = nat (g_size (newAttemptRing (rt_HistorySize pol)))"

definition history_upto :: "retry_policy \<Rightarrow> int \<Rightarrow> attempt list \<Rightarrow> bool" where
  "history_upto pol m items \<longleftrightarrow> (\<exists>as. items = newest (history_size pol) as \<and> map at_N as = [1..m])"

definition ring_upto :: "retry_policy \<Rightarrow> int \<Rightarrow> attempt_ring \<Rightarrow> bool" where
  "ring_upto pol m g \<longleftrightarrow> nat (g_size g) = history_size pol \<and> history_upto pol m (g_items g)"

lemma ring_upto_new: "ring_upto pol 0 (newAttemptRing (rt_HistorySize pol))"
  by (simp add: ring_upto_def history_upto_def history_size_def newAttemptRing_def newest_def)

lemma ring_upto_add:
  assumes "ring_upto pol (m - 1) g" and "at_N a = m" and "1 \<le> m"
  shows "ring_upto pol m (add_if_enabled g a)"
proof -
  from assms(1) obtain as where as: "g_items g = newest (nat (g_size g)) as" "map at_N as = [1..m - 1]"
    "nat (g_size g) = history_size pol" by (auto simp: ring_upto_def history_upto_def)
  have "map at_N (as @ [a]) = [1..m]" using as(2) assms(2, 3) by (simp add: upto_rec2)
  moreover have "g_items (add_if_enabled g a) = newest (history_size pol) (as @ [a])"
    using add_if_enabled_newest[OF as(1)] as(3) by simp
  ultimately show ?thesis using as(3) unfolding ring_upto_def history_upto_def by auto
qed

text \<open>The results Retry gives after \<open>n\<close> runs of the handler.\<close>

definition retry_result :: "retry_policy \<Rightarrow> ctx \<Rightarrow> int \<Rightarrow> error option result \<Rightarrow> 'u world \<Rightarrow> bool" where
  "retry_result pol c n r w \<longleftrightarrow>
     r = Ret None \<or> (\<exists>v st. r = Panics v st)
   \<or> (\<exists>err. r = Ret (Some err) \<and> classify (Some err) = (False, False))
   \<or> (\<exists>err. r = Ret (Some err) \<and> n < maxAttempts pol \<and> ctx_Err c w = Some err)
   \<or> (\<exists>cause reason m h. r = Ret (Some (FailureError (Some cause) reason m h)) \<and> history_upto pol m h
        \<and> (reason = ReasonTerminal \<and> m = n \<and> snd (classify (Some cause))
         \<or> reason = ReasonCircuitOpen \<and> m = n - 1 \<and> 1 \<le> m \<and> errors_Is cause ErrCircuitOpen
         \<or> reason = ReasonRetriesExhausted \<and> m = n \<and> n = maxAttempts pol
             \<and> classify (Some cause) = (True, False)))"

lemma retry_loop_runs:
  assumes nx: "keeps (next c)" and E: "\<And>d. keeps (e_wait E c d)"
  shows "1 \<le> attempt \<Longrightarrow> attempt \<le> maxAttempts pol \<Longrightarrow> ring_upto pol (attempt - 1) hist \<Longrightarrow>
    retry_loop E pol c evt h (counted next) attempt hist lastErr w = (r, w') \<Longrightarrow>
    \<exists>n. attempt \<le> n \<and> n \<le> maxAttempts pol \<and> int (calls w') = int (calls w) + (n - attempt + 1)
      \<and> retry_result pol c n r w'"
proof (induction "nat (maxAttempts pol - attempt)" arbitrary: attempt hist lastErr w rule: less_induct)
  case less
  note c1 = counted_calls[of "next", OF nx]
  have ri: "history_upto pol (attempt - 1) (g_items hist)"
    using less.prems(3) by (simp add: ring_upto_def)
  have ra: "ring_upto pol attempt (add_if_enabled hist a)" if "at_N a = attempt" for a
    by (rule ring_upto_add[OF less.prems(3) that less.prems(1)])
  then have rb: "history_upto pol attempt (g_items (add_if_enabled hist (NewAttempt attempt e cl s t 0)))"
    for e cl s t by (simp add: ring_upto_def NewAttempt_def)
  from less.prems(4, 2) show ?case
  proof (cases rule: retry_loop_cases)
    case (again err w1 info delay a w3)
    have w3: "calls w3 = Suc (calls w)" using c1[OF again(1)] wait_calls[OF E again(6)] by simp
    have "\<exists>n. attempt + 1 \<le> n \<and> n \<le> maxAttempts pol \<and> int (calls w') = int (calls w3) + (n - (attempt + 1) + 1)
      \<and> retry_result pol c n r w'"
      using again(3) less.prems(1) ra[OF again(4)] by (intro less.hyps[OF _ _ _ _ again(7)]) auto
    then show ?thesis using w3 by auto
  next
    case (waited err w1 info delay cerr)
    have "calls w' = Suc (calls w)" using c1[OF waited(1)] wait_calls[OF E waited(3)] by simp
    with waited wait_Some[OF waited(3)] show ?thesis
      by (intro exI[of _ attempt]) (auto simp: retry_result_def)
  qed (use less.prems(1, 2) c1 ri rb in \<open>(intro exI[of _ attempt], fastforce simp: retry_result_def)\<close>)+
qed

section \<open>Properties\<close>

text \<open>
  C35. The retry budget is kept and reported. Retry runs the handler between once and
  max(MaxAttempts, 1) times. Success, panics and errors that are not retryable come back
  unchanged; a wait cut short gives the context error; otherwise the FailureError carries
  the number of runs (for an open circuit, of the runs that happened), the reason that
  fits, and the newest HistorySize attempts numbered without gaps.
\<close>

theorem retry_budget:
  assumes "keeps (next c)" and "\<forall>d. keeps (e_wait E c d)"
    and "Retry_Invoke E pol c evt h (counted next) w = (r, w')"
  shows "\<exists>n. 1 \<le> n \<and> n \<le> maxAttempts pol \<and> int (calls w') = int (calls w) + n \<and> retry_result pol c n r w'"
  using retry_loop_runs[of "next" c E 1 pol "newAttemptRing (rt_HistorySize pol)" evt h None w r w']
    assms ring_upto_new[of pol]
  by (auto simp: Retry_Invoke_def)

definition sample_policy :: retry_policy where
  "sample_policy = \<lparr>rt_MaxAttempts = 3, rt_BaseDelay = Millisecond, rt_MaxDelay = Second, rt_HistorySize = 2\<rparr>"

theorem retry_budget_witness:
  "\<exists>n. 1 \<le> n \<and> n \<le> maxAttempts sample_policy
    \<and> int (calls (snd (Retry_Invoke timer_env sample_policy sample_ctx sample_event ''h''
        (counted (returning (Some boom))) (sample_world (0, ()))))) = int (calls (sample_world (0, ()))) + n
    \<and> retry_result sample_policy sample_ctx n
        (fst (Retry_Invoke timer_env sample_policy sample_ctx sample_event ''h''
          (counted (returning (Some boom))) (sample_world (0, ()))))
        (snd (Retry_Invoke timer_env sample_policy sample_ctx sample_event ''h''
          (counted (returning (Some boom))) (sample_world (0, ()))))"
  by (rule retry_budget[OF _ _ prod.collapse[symmetric]])
    (simp_all add: keeps_def returning_def timer_env_def timer_wait_def calls_def)


end
