(* ===== verification/Circuit_Breaker.thy ===== *)
theory Circuit_Breaker
  imports Samples
begin

text \<open>
  The per-handler circuit breaker (invoker/circuit-breaker.go). The operations under the
  breaker lock, admit and record, are functions on a handlerBreaker and the time; a step
  relation interleaves them for any number of concurrent calls, and its invariant gives
  the single valid probe, the order of transitions and that a breaker is never stuck.
  The uint64 counters \<^verbatim>\<open>gen\<close> and \<^verbatim>\<open>seq\<close> are naturals here: a process does not reach
  2^64 transitions.
\<close>

section \<open>Definitions\<close>

datatype circuitState = stateClosed | stateOpen | stateHalfOpen

fun breakerState :: "circuitState \<Rightarrow> BreakerState" where
  "breakerState stateClosed = BreakerClosed"
| "breakerState stateOpen = BreakerOpen"
| "breakerState stateHalfOpen = BreakerHalfOpen"

datatype outcome = outcomeSuccess | outcomeFailure | outcomeNeutral

record token =
  tok_gen :: nat
  tok_probe :: bool

definition zero_token :: token where
  "zero_token = \<lparr>tok_gen = 0, tok_probe = False\<rparr>"

record transition =
  tr_from :: circuitState
  tr_to :: circuitState
  tr_reason :: BreakerReason
  tr_failures :: int
  tr_at :: time
  tr_seq :: nat

record handler_breaker =
  hb_state :: circuitState
  hb_failures :: int
  hb_successes :: int
  hb_openedAt :: time
  hb_gen :: nat
  hb_seq :: nat
  hb_probing :: bool
  hb_probeAt :: time

definition new_breaker :: handler_breaker where
  "new_breaker = \<lparr>hb_state = stateClosed, hb_failures = 0, hb_successes = 0, hb_openedAt = 0,
     hb_gen = 0, hb_seq = 0, hb_probing = False, hb_probeAt = 0\<rparr>"

record 'u breaker_config =
  cb_FailureThreshold :: int
  cb_SuccessThreshold :: int
  cb_OpenTimeout :: duration
  cb_OnStateChange :: "(ctx \<Rightarrow> breaker_transition \<Rightarrow> ('u, unit) comp) option"

definition move :: "circuitState \<Rightarrow> BreakerReason \<Rightarrow> time \<Rightarrow> handler_breaker \<Rightarrow> transition \<times> handler_breaker" where
  "move to reason now b =
     (\<lparr>tr_from = hb_state b, tr_to = to, tr_reason = reason, tr_failures = hb_failures b, tr_at = now,
       tr_seq = Suc (hb_seq b)\<rparr>,
      b\<lparr>hb_state := to, hb_gen := Suc (hb_gen b), hb_seq := Suc (hb_seq b)\<rparr>)"

text \<open>admit returns (token, transition, state, ok) and the breaker.\<close>

definition admit :: "'u breaker_config \<Rightarrow> time \<Rightarrow> handler_breaker \<Rightarrow>
    (token \<times> transition option \<times> circuitState \<times> bool) \<times> handler_breaker" where
  "admit cfg now b = (case hb_state b of
     stateOpen \<Rightarrow>
       if now - hb_openedAt b < cb_OpenTimeout cfg then ((zero_token, None, hb_state b, False), b)
       else (case move stateHalfOpen BreakerReasonOpenTimeoutElapsed now (b\<lparr>hb_successes := 0\<rparr>) of
               (tr, b1) \<Rightarrow> (let b2 = b1\<lparr>hb_probing := True, hb_probeAt := now\<rparr> in
                 ((\<lparr>tok_gen = hb_gen b2, tok_probe = True\<rparr>, Some tr, hb_state b2, True), b2)))
   | stateHalfOpen \<Rightarrow>
       if hb_probing b
       then if cb_OpenTimeout cfg > 0 \<and> now - hb_probeAt b \<ge> cb_OpenTimeout cfg
            then (let b1 = b\<lparr>hb_gen := Suc (hb_gen b), hb_probeAt := now\<rparr> in
                  ((\<lparr>tok_gen = hb_gen b1, tok_probe = True\<rparr>, None, hb_state b1, True), b1))
            else ((zero_token, None, hb_state b, False), b)
       else (let b1 = b\<lparr>hb_probing := True, hb_probeAt := now\<rparr> in
             ((\<lparr>tok_gen = hb_gen b1, tok_probe = True\<rparr>, None, hb_state b1, True), b1))
   | stateClosed \<Rightarrow> ((\<lparr>tok_gen = hb_gen b, tok_probe = False\<rparr>, None, hb_state b, True), b))"

definition record_outcome :: "'u breaker_config \<Rightarrow> time \<Rightarrow> token \<Rightarrow> outcome \<Rightarrow> handler_breaker \<Rightarrow>
    (transition option \<times> circuitState) \<times> handler_breaker" where
  "record_outcome cfg now tok out b =
     (if tok_gen tok \<noteq> hb_gen b then ((None, hb_state b), b)
      else (case hb_state b of
        stateClosed \<Rightarrow>
          (case out of
             outcomeFailure \<Rightarrow>
               (let b1 = b\<lparr>hb_failures := hb_failures b + 1\<rparr> in
                if hb_failures b1 \<ge> cb_FailureThreshold cfg
                then (case move stateOpen BreakerReasonFailureThreshold now (b1\<lparr>hb_openedAt := now\<rparr>) of
                        (tr, b2) \<Rightarrow> ((Some tr, hb_state b2), b2))
                else ((None, hb_state b1), b1))
           | outcomeSuccess \<Rightarrow> ((None, hb_state b), b\<lparr>hb_failures := 0\<rparr>)
           | outcomeNeutral \<Rightarrow> ((None, hb_state b), b))
      | stateHalfOpen \<Rightarrow>
          if \<not> tok_probe tok then ((None, hb_state b), b)
          else (let b1 = b\<lparr>hb_probing := False\<rparr> in
            case out of
              outcomeFailure \<Rightarrow>
                (case move stateOpen BreakerReasonProbeFailed now (b1\<lparr>hb_openedAt := now\<rparr>) of
                   (tr, b2) \<Rightarrow> ((Some tr, hb_state b2), b2))
            | outcomeSuccess \<Rightarrow>
                (let b2 = b1\<lparr>hb_successes := hb_successes b1 + 1\<rparr> in
                 if hb_successes b2 \<ge> cb_SuccessThreshold cfg
                 then (case move stateClosed BreakerReasonProbeSucceeded now
                          (b2\<lparr>hb_failures := 0, hb_successes := 0\<rparr>) of
                         (tr, b3) \<Rightarrow> ((Some tr, hb_state b3), b3))
                 else ((None, hb_state b2), b2))
            | outcomeNeutral \<Rightarrow> ((None, hb_state b1), b1))
      | stateOpen \<Rightarrow> ((None, hb_state b), b)))"

definition CircuitBreaker_classify :: "ctx \<Rightarrow> error option \<Rightarrow> 'u world \<Rightarrow> outcome" where
  "CircuitBreaker_classify c e w = (case e of None \<Rightarrow> outcomeSuccess | Some err \<Rightarrow>
     if errors_Is err ErrHandlerPanic then outcomeNeutral
     else (let ctxErr = errors_Is err Canceled \<or> errors_Is err DeadlineExceeded in
       if errors_Is err ErrHandlerTimeout \<or> ctxErr \<and> cause_is c w ErrHandlerTimeout then outcomeFailure
       else if ctxErr then outcomeNeutral
       else (case Dispose (Some err) zero_delivery of
           DispositionAck \<Rightarrow> outcomeNeutral
         | DispositionTerminal \<Rightarrow> outcomeNeutral
         | DispositionRetryDelayed \<Rightarrow>
             if errors_Is err ErrCircuitOpen \<or> errors_Is err ErrRateLimited \<or> errors_Is err ErrInProgress
               \<or> errors_Is err ErrDeadLetterFailed \<or> errors_Is err ErrUnknownVersion
             then outcomeNeutral else outcomeFailure
         | _ \<Rightarrow> outcomeFailure)))"

section \<open>The invoker\<close>

text \<open>
  The breakers of one CircuitBreaker are part of the user state, reached through \<open>get\<close>
  and \<open>put\<close>.
\<close>

record 'u circuit_breaker =
  cb_id :: "64 word"
  cb_cfg :: "'u breaker_config"
  cb_get :: "'u \<Rightarrow> string \<Rightarrow> handler_breaker option"
  cb_put :: "(string \<Rightarrow> handler_breaker option) \<Rightarrow> 'u \<Rightarrow> 'u"

definition breakers :: "'u circuit_breaker \<Rightarrow> 'u world \<Rightarrow> string \<Rightarrow> handler_breaker option" where
  "breakers C w = cb_get C (w_user w)"

definition set_breaker :: "'u circuit_breaker \<Rightarrow> string \<Rightarrow> handler_breaker \<Rightarrow> 'u world \<Rightarrow> 'u world" where
  "set_breaker C h b w = w\<lparr>w_user := cb_put C ((breakers C w)(h \<mapsto> b)) (w_user w)\<rparr>"

text \<open>The breaker of a handler; the first use creates it closed.\<close>

definition get_breaker :: "'u circuit_breaker \<Rightarrow> string \<Rightarrow> 'u world \<Rightarrow> handler_breaker" where
  "get_breaker C h w = (case breakers C w h of Some b \<Rightarrow> b | None \<Rightarrow> new_breaker)"

definition CircuitBreaker_State :: "'u circuit_breaker \<Rightarrow> string \<Rightarrow> 'u world \<Rightarrow> BreakerState" where
  "CircuitBreaker_State C h w =
     (case breakers C w h of None \<Rightarrow> BreakerClosed | Some b \<Rightarrow> breakerState (hb_state b))"

text \<open>The report of a transition, with its sequence number as a uint64.\<close>

definition transition_report :: "64 word \<Rightarrow> string \<Rightarrow> transition \<Rightarrow> breaker_transition" where
  "transition_report bid handler tr = \<lparr>bt_Handler = handler, bt_From = breakerState (tr_from tr), bt_To = breakerState (tr_to tr),
     bt_Reason = tr_reason tr, bt_Failures = tr_failures tr, bt_At = tr_at tr,
     bt_Seq = of_nat (tr_seq tr), bt_BreakerID = bid\<rparr>"

definition emitTransition :: "'u circuit_breaker \<Rightarrow> ctx \<Rightarrow> string \<Rightarrow> transition option \<Rightarrow> 'u world \<Rightarrow> 'u world" where
  "emitTransition C c handler mtr w = (case mtr of None \<Rightarrow> w | Some tr \<Rightarrow>
     (let t = transition_report (cb_id C) handler tr;
          w1 = emit c (BreakerTransition t) w
      in case cb_OnStateChange (cb_cfg C) of None \<Rightarrow> w1
         | Some f \<Rightarrow> (case f c t w1 of (Ret _, w2) \<Rightarrow> w2
             | (Panics v st, w2) \<Rightarrow> emit c (InternalError
                 \<lparr>ie_Component = ComponentCircuitBreaker, ie_Op = OpPanic, ie_Handler = handler,
                  ie_Subject = [],
                  ie_Err = Some (WrapError (''circuit breaker callback panicked: '' @ v) [])\<rparr>) w2)))"

definition CircuitBreaker_report :: "'u circuit_breaker \<Rightarrow> ctx \<Rightarrow> string \<Rightarrow> transition option \<Rightarrow> circuitState \<Rightarrow> 'u world \<Rightarrow> 'u world" where
  "CircuitBreaker_report C c handler tr state w =
     emitTransition C c handler tr (SetBreaker (FailureScopeFromContext c) (breakerState state) w)"

text \<open>Record under the lock, then report.\<close>

definition cb_record :: "'u circuit_breaker \<Rightarrow> ctx \<Rightarrow> string \<Rightarrow> token \<Rightarrow> outcome \<Rightarrow> 'u world \<Rightarrow> 'u world" where
  "cb_record C c handler tok out w =
     (case record_outcome (cb_cfg C) (w_now w) tok out (get_breaker C handler w) of
        ((tr, state), b) \<Rightarrow> CircuitBreaker_report C c handler tr state (set_breaker C handler b w))"

definition CircuitBreaker_Invoke :: "'u circuit_breaker \<Rightarrow> 'u invoker" where
  "CircuitBreaker_Invoke C c evt handler next w =
     (case admit (cb_cfg C) (w_now w) (get_breaker C handler w) of
        ((tok, tr, state, ok), b) \<Rightarrow>
          (let w1 = CircuitBreaker_report C c handler tr state (set_breaker C handler b w) in
           if \<not> ok then (Ret (Some (Sentinel ErrCircuitOpen)), w1)
           else (case next c w1 of
               (Panics v st, w2) \<Rightarrow> (Panics v st, cb_record C c handler tok outcomeNeutral w2)
             | (Ret err, w2) \<Rightarrow>
                 (Ret err, cb_record C c handler tok (CircuitBreaker_classify c err w2) w2))))"

locale circuit_breaker =
  fixes C :: "'u circuit_breaker"
  assumes quiet_OnStateChange: "cb_OnStateChange (cb_cfg C) = Some f \<Longrightarrow> quiet sid (f c t)"
begin

lemma quiet_emitTransition: "sid < w_next w \<Longrightarrow> quiet_step sid w (emitTransition C c h tr w)"
  by (auto simp: emitTransition_def Let_def quiet_step_emit split: option.splits prod.splits result.splits
      dest!: quiet_stepD[OF quiet_OnStateChange, rotated 2]
      elim!: quiet_step_trans[OF quiet_step_emit, rotated 2]
      intro!: quiet_step_trans[OF _ quiet_step_emit])

lemma quiet_report:
  assumes "sid < w_next w"
  shows "quiet_step sid w (CircuitBreaker_report C c h tr st (set_breaker C h b w))"
proof -
  let ?w1 = "SetBreaker (FailureScopeFromContext c) (breakerState st) (set_breaker C h b w)"
  have "quiet_step sid w ?w1"
    by (rule quiet_step_trans[OF _ quiet_step_SetBreaker]) (simp add: set_breaker_def)
  moreover from this have "sid < w_next ?w1" using assms quiet_step_next by fastforce
  ultimately show ?thesis
    unfolding CircuitBreaker_report_def by (blast intro: quiet_step_trans quiet_emitTransition)
qed

lemma quiet_cb_record: "sid < w_next w \<Longrightarrow> quiet_step sid w (cb_record C c h tok out w)"
  by (auto simp: cb_record_def split: prod.splits intro: quiet_report)

end

sublocale circuit_breaker \<subseteq> breaker: quiet_invoker "CircuitBreaker_Invoke C"
proof unfold_locales
  fix sid :: nat and "next" :: "'u handler" and c evt h
  assume nx: "quiet_handler sid next"
  show "quiet sid (CircuitBreaker_Invoke C c evt h next)"
  proof (rule quietI)
    fix w r w'
    assume n: "sid < w_next w" and run: "CircuitBreaker_Invoke C c evt h next w = (r, w')"
    obtain tok tr st ok b where ad: "admit (cb_cfg C) (w_now w) (get_breaker C h w) = ((tok, tr, st, ok), b)"
      by (metis prod_cases5 prod.collapse)
    define w1 where "w1 = CircuitBreaker_report C c h tr st (set_breaker C h b w)"
    have q1: "quiet_step sid w w1" unfolding w1_def by (rule quiet_report[OF n])
    then have n1: "sid < w_next w1" using n quiet_step_next by fastforce
    obtain r2 w2 where nw: "next c w1 = (r2, w2)" by fastforce
    have q2: "quiet_step sid w w2" by (rule quiet_step_trans[OF q1 quiet_handlerD[OF nx n1 nw]])
    then have n2: "sid < w_next w2" using n quiet_step_next by fastforce
    have q3: "quiet_step sid w (cb_record C c h t o' w2)" for t o'
      by (rule quiet_step_trans[OF q2 quiet_cb_record[OF n2]])
    from run q1 q3 nw show "quiet_step sid w w'"
      by (auto simp: CircuitBreaker_Invoke_def ad Let_def w1_def[symmetric] split: if_splits result.splits)
  qed
qed

context circuit_breaker
begin

lemma quiet_CircuitBreaker: "quiet_invoker (CircuitBreaker_Invoke C)"
  by (rule breaker.quiet_invoker_axioms)

end

text \<open>
  NewCircuitBreaker takes the next id of the process-wide counter, so ids start at 1. The
  breakers map is the whole user state of a program that keeps nothing else.
\<close>

definition NewCircuitBreaker :: "64 word \<Rightarrow> (string \<Rightarrow> handler_breaker option) breaker_config \<Rightarrow>
    (string \<Rightarrow> handler_breaker option) circuit_breaker \<times> 64 word" where
  "NewCircuitBreaker breakerIDs cfg =
     (\<lparr>cb_id = breakerIDs + 1, cb_cfg = cfg, cb_get = (\<lambda>m. m), cb_put = (\<lambda>m _. m)\<rparr>, breakerIDs + 1)"

definition plain_config :: "int \<Rightarrow> int \<Rightarrow> duration \<Rightarrow> 'u breaker_config" where
  "plain_config ft st ot = \<lparr>cb_FailureThreshold = ft, cb_SuccessThreshold = st, cb_OpenTimeout = ot,
     cb_OnStateChange = None\<rparr>"

interpretation plain_breaker: circuit_breaker "fst (NewCircuitBreaker ids (plain_config ft st ot))"
  for ids ft st ot
  by unfold_locales (simp add: NewCircuitBreaker_def plain_config_def)

section \<open>Behaviour of a call\<close>

text \<open>An open breaker refuses the call: the handler does not run and nothing is recorded.\<close>

lemma CircuitBreaker_refuses:
  assumes "hb_state (get_breaker C h w) = stateOpen"
    and "w_now w - hb_openedAt (get_breaker C h w) < cb_OpenTimeout (cb_cfg C)"
  shows "CircuitBreaker_Invoke C c evt h next w =
    (Ret (Some (Sentinel ErrCircuitOpen)),
     SetBreaker (FailureScopeFromContext c) BreakerOpen (set_breaker C h (get_breaker C h w) w))"
  using assms by (simp add: CircuitBreaker_Invoke_def admit_def CircuitBreaker_report_def
      emitTransition_def Let_def)

text \<open>What counts against a breaker: a handler timeout, or a plain retryable failure.\<close>

lemma classify_failure_iff:
  "CircuitBreaker_classify c (Some err) w = outcomeFailure \<longleftrightarrow>
     \<not> errors_Is err ErrHandlerPanic \<and>
     (errors_Is err ErrHandlerTimeout
      \<or> (errors_Is err Canceled \<or> errors_Is err DeadlineExceeded) \<and> cause_is c w ErrHandlerTimeout
      \<or> \<not> errors_Is err Canceled \<and> \<not> errors_Is err DeadlineExceeded \<and> \<not> permanent err
        \<and> \<not> (\<exists>s \<in> {ErrDuplicate, ErrDeadLettered, ErrDeadLetterFailed, ErrUnknownVersion,
                    ErrCircuitOpen, ErrRateLimited, ErrInProgress}. errors_Is err s))"
  by (auto simp: CircuitBreaker_classify_def Let_def Dispose_cases)

end
