(* ===== verification/Breaker_Machine.thy ===== *)
theory Breaker_Machine
  imports Circuit_Breaker "HOL-Library.Multiset"
begin

text \<open>
  The circuit breaker of one handler under concurrent calls. A state holds the breaker,
  the tokens of the calls in flight, the clock and the transitions reported so far; the
  steps are the two critical sections of circuit-breaker.go in any order, and time
  passing between them.
\<close>

section \<open>The step relation\<close>

record breaker_run =
  br_b :: handler_breaker
  br_live :: "token multiset"
  br_now :: time
  br_log :: "transition list"

definition breaker_init :: "time \<Rightarrow> breaker_run" where
  "breaker_init t = \<lparr>br_b = new_breaker, br_live = {#}, br_now = t, br_log = []\<rparr>"

definition log_opt :: "transition option \<Rightarrow> transition list" where
  "log_opt t = (case t of None \<Rightarrow> [] | Some x \<Rightarrow> [x])"

inductive breaker_step :: "'u breaker_config \<Rightarrow> breaker_run \<Rightarrow> breaker_run \<Rightarrow> bool" for cfg where
  tick: "br_now s \<le> t \<Longrightarrow> breaker_step cfg s (s\<lparr>br_now := t\<rparr>)"
| admitted: "admit cfg (br_now s) (br_b s) = ((tok, tr, st, True), b') \<Longrightarrow>
    breaker_step cfg s (s\<lparr>br_b := b', br_live := add_mset tok (br_live s), br_log := br_log s @ log_opt tr\<rparr>)"
| refused: "admit cfg (br_now s) (br_b s) = ((tok, tr, st, False), b') \<Longrightarrow>
    breaker_step cfg s (s\<lparr>br_b := b', br_log := br_log s @ log_opt tr\<rparr>)"
| completed: "tok \<in># br_live s \<Longrightarrow> record_outcome cfg (br_now s) tok out (br_b s) = ((tr, st), b') \<Longrightarrow>
    breaker_step cfg s (s\<lparr>br_b := b', br_live := br_live s - {#tok#}, br_log := br_log s @ log_opt tr\<rparr>)"

inductive_cases breaker_stepE: "breaker_step cfg s s'"

inductive breaker_reach :: "'u breaker_config \<Rightarrow> breaker_run \<Rightarrow> bool" for cfg where
  init: "breaker_reach cfg (breaker_init t)"
| step: "breaker_reach cfg s \<Longrightarrow> breaker_step cfg s s' \<Longrightarrow> breaker_reach cfg s'"

section \<open>The invariant\<close>

definition current :: "breaker_run \<Rightarrow> token multiset" where
  "current s = filter_mset (\<lambda>t. tok_gen t = hb_gen (br_b s)) (br_live s)"

text \<open>The transitions of the state machine, with the failure count that opened it.\<close>

definition legal :: "'u breaker_config \<Rightarrow> transition \<Rightarrow> bool" where
  "legal cfg t \<longleftrightarrow>
     (tr_from t, tr_to t, tr_reason t) \<in>
       {(stateClosed, stateOpen, BreakerReasonFailureThreshold),
        (stateOpen, stateHalfOpen, BreakerReasonOpenTimeoutElapsed),
        (stateHalfOpen, stateOpen, BreakerReasonProbeFailed),
        (stateHalfOpen, stateClosed, BreakerReasonProbeSucceeded)}
   \<and> (tr_reason t = BreakerReasonFailureThreshold \<longrightarrow> cb_FailureThreshold cfg \<le> tr_failures t)"

fun log_path :: "'u breaker_config \<Rightarrow> nat \<Rightarrow> circuitState \<Rightarrow> transition list \<Rightarrow> circuitState \<Rightarrow> bool" where
  "log_path cfg n s [] s' \<longleftrightarrow> s = s'"
| "log_path cfg n s (t # ts) s' \<longleftrightarrow>
     tr_from t = s \<and> tr_seq t = Suc n \<and> legal cfg t \<and> log_path cfg (Suc n) (tr_to t) ts s'"

lemma log_path_append:
  "log_path cfg n s (ts @ us) s' \<longleftrightarrow>
     (\<exists>m. log_path cfg n s ts m \<and> log_path cfg (n + length ts) m us s')"
  by (induction ts arbitrary: n s) auto

definition gens_ok :: "breaker_run \<Rightarrow> bool" where
  "gens_ok s \<longleftrightarrow> (\<forall>t. t \<in># br_live s \<longrightarrow> tok_gen t \<le> hb_gen (br_b s))"

definition probe_ok :: "breaker_run \<Rightarrow> bool" where
  "probe_ok s \<longleftrightarrow> (case hb_state (br_b s) of
     stateHalfOpen \<Rightarrow> current s = (if hb_probing (br_b s)
        then {#\<lparr>tok_gen = hb_gen (br_b s), tok_probe = True\<rparr>#} else {#})
   | stateOpen \<Rightarrow> current s = {#} \<and> \<not> hb_probing (br_b s)
   | stateClosed \<Rightarrow> (\<forall>t. t \<in># current s \<longrightarrow> \<not> tok_probe t) \<and> \<not> hb_probing (br_b s))"

definition counts_ok :: "'u breaker_config \<Rightarrow> breaker_run \<Rightarrow> bool" where
  "counts_ok cfg s \<longleftrightarrow> 0 \<le> hb_failures (br_b s) \<and> 0 \<le> hb_successes (br_b s)
   \<and> (hb_state (br_b s) = stateClosed \<longrightarrow> 1 \<le> cb_FailureThreshold cfg \<longrightarrow>
        hb_failures (br_b s) < cb_FailureThreshold cfg)
   \<and> (hb_state (br_b s) = stateHalfOpen \<longrightarrow> 1 \<le> cb_SuccessThreshold cfg \<longrightarrow>
        hb_successes (br_b s) < cb_SuccessThreshold cfg)"

definition log_ok :: "'u breaker_config \<Rightarrow> breaker_run \<Rightarrow> bool" where
  "log_ok cfg s \<longleftrightarrow> hb_seq (br_b s) = length (br_log s)
     \<and> log_path cfg 0 stateClosed (br_log s) (hb_state (br_b s))"

definition breaker_inv :: "'u breaker_config \<Rightarrow> breaker_run \<Rightarrow> bool" where
  "breaker_inv cfg s \<longleftrightarrow> gens_ok s \<and> probe_ok s \<and> counts_ok cfg s \<and> log_ok cfg s"

lemmas breaker_inv_defs = breaker_inv_def gens_ok_def probe_ok_def counts_ok_def log_ok_def current_def

lemma breaker_inv_init: "breaker_inv cfg (breaker_init t)"
  by (simp add: breaker_inv_defs breaker_init_def new_breaker_def)

text \<open>Tokens of a newer generation do not exist yet.\<close>

lemma filter_newer: "\<forall>t. t \<in># M \<longrightarrow> tok_gen t \<le> g \<Longrightarrow> filter_mset (\<lambda>t. tok_gen t = Suc g) M = {#}"
  by (rule multiset_eqI) (auto simp: count_eq_zero_iff)

lemma breaker_inv_admit:
  assumes inv: "breaker_inv cfg s"
    and ad: "admit cfg (br_now s) (br_b s) = ((tok, tr, st, ok), b')"
    and s': "s' = s\<lparr>br_b := b', br_live := (if ok then add_mset tok (br_live s) else br_live s),
                    br_log := br_log s @ log_opt tr\<rparr>"
  shows "breaker_inv cfg s'"
proof -
  have newer: "filter_mset (\<lambda>t. tok_gen t = Suc (hb_gen (br_b s))) (br_live s) = {#}"
    using inv by (intro filter_newer) (simp add: breaker_inv_defs)
  show ?thesis
  proof (cases "hb_state (br_b s)")
    case stateClosed
    with inv ad show ?thesis
      by (auto simp: s' admit_def breaker_inv_defs log_opt_def split: if_splits)
  next
    case stateOpen
    with inv ad newer show ?thesis
      by (auto simp: s' admit_def breaker_inv_defs log_opt_def move_def Let_def log_path_append legal_def
          zero_token_def le_Suc_eq split: if_splits)
  next
    case stateHalfOpen
    with inv ad newer show ?thesis
      by (auto simp: s' admit_def breaker_inv_defs log_opt_def Let_def zero_token_def le_Suc_eq
          split: if_splits)
  qed
qed

lemma breaker_inv_record:
  assumes inv: "breaker_inv cfg s" and tok: "tok \<in># br_live s"
    and rc: "record_outcome cfg (br_now s) tok out (br_b s) = ((tr, st), b')"
    and s': "s' = s\<lparr>br_b := b', br_live := br_live s - {#tok#}, br_log := br_log s @ log_opt tr\<rparr>"
  shows "breaker_inv cfg s'"
proof (cases "tok_gen tok = hb_gen (br_b s)")
  case False
  then have "filter_mset (\<lambda>t. tok_gen t = hb_gen (br_b s)) (br_live s - {#tok#})
      = filter_mset (\<lambda>t. tok_gen t = hb_gen (br_b s)) (br_live s)" by simp
  with False inv rc show ?thesis
    by (auto simp: s' record_outcome_def breaker_inv_defs log_opt_def dest: in_diffD
        split: circuitState.splits)
next
  case gen: True
  have newer: "filter_mset (\<lambda>t. tok_gen t = Suc (hb_gen (br_b s))) (br_live s - {#tok#}) = {#}"
    using inv by (intro filter_newer) (auto simp: breaker_inv_defs dest: in_diffD)
  have old: "t \<in># br_live s - {#tok#} \<Longrightarrow> tok_gen t \<le> hb_gen (br_b s)" for t
    using inv by (auto simp: breaker_inv_defs dest: in_diffD)
  then have old': "t \<in># br_live s - {#tok#} \<Longrightarrow> tok_gen t \<le> Suc (hb_gen (br_b s))" for t
    using le_SucI by blast
  show ?thesis
  proof (cases "hb_state (br_b s)")
    case stateClosed
    have "probe_ok s'"
      using stateClosed gen inv rc newer by (cases out)
        (auto simp: s' record_outcome_def breaker_inv_def probe_ok_def current_def move_def Let_def
          dest!: in_diffD split: if_splits)
    moreover have "gens_ok s'" "counts_ok cfg s'"
      using stateClosed gen inv rc old old' by (cases out;
        auto simp: s' record_outcome_def breaker_inv_def gens_ok_def counts_ok_def move_def Let_def split: if_splits)+
    moreover have "log_ok cfg s'"
      using stateClosed gen inv rc by (cases out)
        (auto simp: s' record_outcome_def breaker_inv_def log_ok_def log_opt_def log_path_append legal_def
          move_def Let_def split: if_splits)
    ultimately show ?thesis by (simp add: breaker_inv_def)
  next
    case stateOpen
    have "tok \<in># current s" using tok gen by (simp add: current_def)
    with inv stateOpen show ?thesis by (simp add: breaker_inv_def probe_ok_def)
  next
    case stateHalfOpen
    then have cur: "filter_mset (\<lambda>t. tok_gen t = hb_gen (br_b s)) (br_live s)
        = (if hb_probing (br_b s) then {#\<lparr>tok_gen = hb_gen (br_b s), tok_probe = True\<rparr>#} else {#})"
      using inv by (simp add: breaker_inv_defs)
    moreover have "tok \<in># filter_mset (\<lambda>t. tok_gen t = hb_gen (br_b s)) (br_live s)"
      using tok gen by simp
    ultimately have probe: "tok_probe tok" and
      none: "filter_mset (\<lambda>t. tok_gen t = hb_gen (br_b s)) (br_live s - {#tok#}) = {#}"
      by (auto split: if_splits)
    then have "probe_ok s'"
      using stateHalfOpen gen rc newer by (cases out)
        (auto simp: s' record_outcome_def probe_ok_def current_def move_def Let_def
          dest!: in_diffD split: if_splits)
    moreover have "gens_ok s'" "counts_ok cfg s'"
      using stateHalfOpen gen inv rc probe old old' by (cases out;
        auto simp: s' record_outcome_def breaker_inv_def gens_ok_def counts_ok_def move_def Let_def split: if_splits)+
    moreover have "log_ok cfg s'"
      using stateHalfOpen gen inv rc probe by (cases out)
        (auto simp: s' record_outcome_def breaker_inv_def log_ok_def log_opt_def log_path_append legal_def
          move_def Let_def split: if_splits)
    ultimately show ?thesis by (simp add: breaker_inv_def)
  qed
qed

lemma breaker_inv_step: "breaker_step cfg s s' \<Longrightarrow> breaker_inv cfg s \<Longrightarrow> breaker_inv cfg s'"
proof (induction rule: breaker_step.induct)
  case (tick s t)
  then show ?case by (cases "hb_state (br_b s)") (simp_all add: breaker_inv_defs)
next
  case (admitted s tok tr st b')
  then show ?case using breaker_inv_admit by force
next
  case (refused s tok tr st b')
  then show ?case using breaker_inv_admit by force
next
  case (completed tok s out tr st b')
  then show ?case using breaker_inv_record by blast
qed

lemma breaker_inv_reach: "breaker_reach cfg s \<Longrightarrow> breaker_inv cfg s"
  by (induction rule: breaker_reach.induct) (auto intro: breaker_inv_init breaker_inv_step)

section \<open>Consequences\<close>

text \<open>When a call is refused.\<close>

lemma admit_refused_iff:
  "(\<exists>tok tr st b'. admit cfg now b = ((tok, tr, st, False), b')) \<longleftrightarrow>
     hb_state b = stateOpen \<and> now - hb_openedAt b < cb_OpenTimeout cfg
   \<or> hb_state b = stateHalfOpen \<and> hb_probing b
       \<and> \<not> (0 < cb_OpenTimeout cfg \<and> cb_OpenTimeout cfg \<le> now - hb_probeAt b)"
  by (cases "hb_state b") (auto simp: admit_def Let_def move_def)

lemma admit_refused_unchanged: "admit cfg now b = ((tok, tr, st, False), b') \<Longrightarrow> b' = b \<and> tr = None"
  by (cases "hb_state b") (auto simp: admit_def Let_def move_def split: if_splits)

lemma probe_single:
  assumes "breaker_inv cfg s"
  shows "size (filter_mset tok_probe (current s)) \<le> 1"
proof (cases "hb_state (br_b s)")
  case stateHalfOpen
  with assms show ?thesis by (auto simp: breaker_inv_def probe_ok_def)
next
  case stateClosed
  with assms have "filter_mset tok_probe (current s) = {#}"
    by (intro multiset_eqI) (auto simp: breaker_inv_def probe_ok_def count_eq_zero_iff)
  then show ?thesis by (simp only: size_empty zero_le_one)
qed (use assms in \<open>auto simp: breaker_inv_def probe_ok_def\<close>)

section \<open>Properties\<close>

text \<open>
  A concrete run for the witnesses: threshold 1, timeout 10. A call fails at time 0 and
  opens the breaker; at time 10 a probe is admitted.
\<close>

definition open_run :: breaker_run where
  "open_run = \<lparr>br_b = new_breaker\<lparr>hb_state := stateOpen, hb_failures := 1, hb_gen := 1, hb_seq := 1\<rparr>,
     br_live = {#}, br_now = 10,
     br_log = [\<lparr>tr_from = stateClosed, tr_to = stateOpen, tr_reason = BreakerReasonFailureThreshold,
       tr_failures = 1, tr_at = 0, tr_seq = 1\<rparr>]\<rparr>"

definition probe_run :: breaker_run where
  "probe_run = \<lparr>br_b = new_breaker\<lparr>hb_state := stateHalfOpen, hb_failures := 1, hb_gen := 2, hb_seq := 2,
       hb_probing := True, hb_probeAt := 10\<rparr>,
     br_live = {#\<lparr>tok_gen = 2, tok_probe = True\<rparr>#}, br_now = 10,
     br_log = br_log open_run @ [\<lparr>tr_from = stateOpen, tr_to = stateHalfOpen,
       tr_reason = BreakerReasonOpenTimeoutElapsed, tr_failures = 1, tr_at = 10, tr_seq = 2\<rparr>]\<rparr>"

lemma reach_open_run: "breaker_reach (plain_config 1 1 10 :: unit breaker_config) open_run"
proof -
  let ?cfg = "plain_config 1 1 10 :: unit breaker_config"
  let ?call = "(breaker_init 0)\<lparr>br_live := {#\<lparr>tok_gen = 0, tok_probe = False\<rparr>#}\<rparr>"
  have a: "breaker_step ?cfg (breaker_init 0) ?call"
    using breaker_step.admitted[of ?cfg "breaker_init 0" "\<lparr>tok_gen = 0, tok_probe = False\<rparr>" None stateClosed new_breaker]
    by (simp add: breaker_init_def new_breaker_def admit_def log_opt_def)
  have b: "breaker_step ?cfg ?call (open_run\<lparr>br_now := 0\<rparr>)"
    using breaker_step.completed[of "\<lparr>tok_gen = 0, tok_probe = False\<rparr>" ?call ?cfg outcomeFailure
        "Some (hd (br_log open_run))" stateOpen "br_b open_run"]
    by (simp add: breaker_init_def new_breaker_def record_outcome_def log_opt_def plain_config_def move_def open_run_def)
  have c: "breaker_step ?cfg (open_run\<lparr>br_now := 0\<rparr>) open_run"
    using breaker_step.tick[of "open_run\<lparr>br_now := 0\<rparr>" 10 ?cfg] by (simp add: open_run_def)
  have "breaker_reach ?cfg open_run"
    by (intro breaker_reach.step[OF _ c] breaker_reach.step[OF _ b] breaker_reach.step[OF _ a] breaker_reach.init)
  then show ?thesis .
qed

lemma reach_probe_run: "breaker_reach (plain_config 1 1 10 :: unit breaker_config) probe_run"
proof (rule breaker_reach.step)
  show "breaker_reach (plain_config 1 1 10 :: unit breaker_config) open_run" by (rule reach_open_run)
  show "breaker_step (plain_config 1 1 10 :: unit breaker_config) open_run probe_run"
    using breaker_step.admitted[of "plain_config 1 1 10 :: unit breaker_config" open_run
        "\<lparr>tok_gen = 2, tok_probe = True\<rparr>" "Some (br_log probe_run ! 1)" stateHalfOpen "br_b probe_run"]
    by (simp add: open_run_def probe_run_def new_breaker_def admit_def log_opt_def plain_config_def move_def)
qed

text \<open>
  C10. One probe at a time. Whatever calls are admitted, finish or never return, in any
  order and with any outcomes, at most one call of the current generation of a breaker
  carries the probe token; an open breaker has no call of its generation in flight and a
  half-open one has none besides that probe.
\<close>

theorem single_probe:
  assumes "breaker_reach cfg s"
  shows "size (filter_mset tok_probe (current s)) \<le> 1
    \<and> (hb_state (br_b s) = stateOpen \<longrightarrow> current s = {#})
    \<and> (hb_state (br_b s) = stateHalfOpen \<longrightarrow> size (current s) = (if hb_probing (br_b s) then 1 else 0))"
proof (intro conjI impI)
  note inv = breaker_inv_reach[OF assms]
  show "size (filter_mset tok_probe (current s)) \<le> 1" by (rule probe_single[OF inv])
  show "current s = {#}" if "hb_state (br_b s) = stateOpen"
    using inv that by (simp add: breaker_inv_def probe_ok_def)
  show "size (current s) = (if hb_probing (br_b s) then 1 else 0)" if "hb_state (br_b s) = stateHalfOpen"
    using inv that by (simp add: breaker_inv_def probe_ok_def)
qed

theorem single_probe_witness:
  "size (filter_mset tok_probe (current probe_run)) \<le> 1 \<and> size (current probe_run) = 1"
  using single_probe[OF reach_probe_run] by (simp add: probe_run_def)

text \<open>
  C11. The transition log is a run of the documented state machine. The transitions
  reported by a breaker are numbered 1, 2, 3 without gaps, each starts in the state where
  the one before ended, the first starts closed and the last ends in the current state,
  each is one of the four edges with its reason, and the edge to open is taken from closed
  only at or above the failure threshold.
\<close>

theorem transitions_ordered:
  assumes "breaker_reach cfg s"
  shows "log_path cfg 0 stateClosed (br_log s) (hb_state (br_b s)) \<and> hb_seq (br_b s) = length (br_log s)"
  using breaker_inv_reach[OF assms] by (simp add: breaker_inv_def log_ok_def)

theorem transitions_ordered_witness:
  "log_path (plain_config 1 1 10 :: unit breaker_config) 0 stateClosed (br_log probe_run) stateHalfOpen"
  using transitions_ordered[OF reach_probe_run] by (simp add: probe_run_def)

text \<open>
  C12. A breaker is never stuck. In every reachable state, once the open timeout has passed
  since the breaker opened, the next call is admitted when no call is in flight, and also
  when a probe was lost: a probe that began a whole timeout ago does not keep the breaker
  closed to new calls, whether it returns or not.
\<close>

theorem breaker_recovers:
  assumes "breaker_reach cfg s" and "hb_openedAt (br_b s) + cb_OpenTimeout cfg \<le> br_now s"
    and "br_live s = {#} \<or> 0 < cb_OpenTimeout cfg \<and> hb_probeAt (br_b s) + cb_OpenTimeout cfg \<le> br_now s"
  shows "\<exists>tok tr st b'. admit cfg (br_now s) (br_b s) = ((tok, tr, st, True), b')"
proof -
  have "\<not> (\<exists>tok tr st b'. admit cfg (br_now s) (br_b s) = ((tok, tr, st, False), b'))"
    unfolding admit_refused_iff using assms(2, 3) breaker_inv_reach[OF assms(1)] by (auto simp: breaker_inv_defs)
  then show ?thesis by (metis (full_types) prod.collapse)
qed

theorem breaker_recovers_witness:
  "\<exists>tok tr st b'. admit (plain_config 1 1 10 :: unit breaker_config) 10 (br_b open_run) = ((tok, tr, st, True), b')"
  using breaker_recovers[OF reach_open_run] by (simp add: plain_config_def open_run_def new_breaker_def)

end
