(* ===== verification/Idempotency.thy ===== *)
theory Idempotency
  imports Samples
begin

text \<open>
  The idempotency invoker and its in-memory store (invoker/idempotency.go). The locale
  \<^verbatim>\<open>idempotency_store\<close> is the contract of IdempotencyStore: what Get answers after Put,
  through a view of the store. The lemmas in it hold for every store; the memory store
  is an instance.
\<close>

section \<open>Definitions\<close>

datatype IdempotencyStatus = StatusProcessing | StatusCompleted | StatusFailed | StatusDeadLettered

record idempotency_record =
  ir_Status :: IdempotencyStatus
  ir_StartedAt :: time
  ir_EndedAt :: "time option"

definition zero_record :: idempotency_record where
  "zero_record = \<lparr>ir_Status = StatusProcessing, ir_StartedAt = 0, ir_EndedAt = None\<rparr>"

type_synonym 'u store_get = "ctx \<Rightarrow> string \<Rightarrow> ('u, idempotency_record \<times> bool \<times> error option) comp"
type_synonym 'u store_put = "ctx \<Rightarrow> string \<Rightarrow> idempotency_record \<Rightarrow> ('u, error option) comp"
type_synonym 'u store_delete = "ctx \<Rightarrow> string \<Rightarrow> ('u, error option) comp"

text \<open>The TTL of NewIdempotency: zero means five minutes.\<close>

definition processingTTL :: "duration \<Rightarrow> duration" where
  "processingTTL ttl = (if ttl = 0 then 5 * 60 * Second else ttl)"

definition extractKey :: "event \<Rightarrow> string option" where
  "extractKey evt = (case ev_IdempotencyKey evt of Some k \<Rightarrow> Some k | None \<Rightarrow> ev_Id evt)"

definition full_key :: "string \<Rightarrow> string \<Rightarrow> string" where
  "full_key key handlerName = (if handlerName \<noteq> [] then key @ '':'' @ handlerName else key)"

definition storeError :: "ctx \<Rightarrow> event \<Rightarrow> string \<Rightarrow> string \<Rightarrow> error \<Rightarrow> 'u world \<Rightarrow> 'u world" where
  "storeError c evt handler op err =
     emit c (StoreError \<lparr>se_Handler = handler, se_Event = ev_Name evt, se_Store = ''idempotency'',
       se_Op = op, se_Err = Some err\<rparr>)"

text \<open>The status and the store operation name of a finished run.\<close>

definition final_status :: "error option \<Rightarrow> IdempotencyStatus \<times> string" where
  "final_status err = (case err of None \<Rightarrow> (StatusCompleted, ''put_completed'')
     | Some e \<Rightarrow> if errors_Is e ErrDeadLettered then (StatusDeadLettered, ''put_dead_lettered'')
                 else (StatusFailed, ''put_failed''))"

definition finish_run :: "'u store_put \<Rightarrow> ctx \<Rightarrow> event \<Rightarrow> string \<Rightarrow> string \<Rightarrow> time \<Rightarrow> error option \<Rightarrow> ('u, error option) comp" where
  "finish_run Put c evt handlerName key started err w =
     (case final_status err of (status, op) \<Rightarrow>
        (case Put c key \<lparr>ir_Status = status, ir_StartedAt = started, ir_EndedAt = Some (w_now w)\<rparr> w of
           (Panics v st, w1) \<Rightarrow> (Panics v st, w1)
         | (Ret None, w1) \<Rightarrow> (Ret err, w1)
         | (Ret (Some perr), w1) \<Rightarrow> (Ret err, storeError c evt handlerName op perr w1)))"

text \<open>Mark the key as processing, run the handler, record how it ended.\<close>

definition run_marked :: "'u store_put \<Rightarrow> ctx \<Rightarrow> event \<Rightarrow> string \<Rightarrow> string \<Rightarrow> 'u handler \<Rightarrow> ('u, error option) comp" where
  "run_marked Put c evt handlerName key handle w =
     (let started = w_now w in
      case Put c key \<lparr>ir_Status = StatusProcessing, ir_StartedAt = started, ir_EndedAt = None\<rparr> w of
        (Panics v st, w1) \<Rightarrow> (Panics v st, w1)
      | (Ret (Some perr), w1) \<Rightarrow>
          (Ret (Some perr), storeError c evt handlerName ''put_processing'' perr w1)
      | (Ret None, w1) \<Rightarrow>
          (case handle c w1 of
             (Panics v st, w2) \<Rightarrow> (Panics v st, w2)
           | (Ret err, w2) \<Rightarrow> finish_run Put c evt handlerName key started err w2))"

definition Idempotency_Invoke :: "'u store_get \<Rightarrow> 'u store_put \<Rightarrow> duration \<Rightarrow> 'u invoker" where
  "Idempotency_Invoke Get Put ttl c evt handlerName handle w =
     (case extractKey evt of None \<Rightarrow> handle c w
      | Some k \<Rightarrow>
          (let key = full_key k handlerName in
           case Get c key w of
             (Panics v st, w1) \<Rightarrow> (Panics v st, w1)
           | (Ret (_, _, Some err), w1) \<Rightarrow> (Ret (Some err), storeError c evt handlerName ''get'' err w1)
           | (Ret (rec, exists, None), w1) \<Rightarrow>
               if exists \<and> ir_Status rec = StatusCompleted then (Ret (Some (Sentinel ErrDuplicate)), w1)
               else if exists \<and> ir_Status rec = StatusProcessing
               then if w_now w1 - ir_StartedAt rec < processingTTL ttl
                    then (Ret (Some (Sentinel ErrInProgress)), w1)
                    else run_marked Put c evt handlerName key handle
                           (emit c (IdempotencyStale \<lparr>is_Handler = handlerName, is_Event = ev_Name evt,
                              is_Age = w_now w1 - ir_StartedAt rec\<rparr>) w1)
               else run_marked Put c evt handlerName key handle w1))"

section \<open>The store contract\<close>

locale idempotency_store =
  fixes Get :: "'u store_get" and Put :: "'u store_put" and Delete :: "'u store_delete"
    and view :: "'u \<Rightarrow> string \<Rightarrow> idempotency_record option"
  assumes Get_view: "Get c key w = (Ret (rec, exists, None), w') \<Longrightarrow>
      exists = (view (w_user w) key \<noteq> None) \<and> (exists \<longrightarrow> view (w_user w) key = Some rec)
      \<and> view (w_user w') = view (w_user w)"
    and Put_view: "Put c key rec w = (Ret None, w') \<Longrightarrow> view (w_user w') = (view (w_user w))(key \<mapsto> rec)"
    and Delete_view: "Delete c key w = (Ret None, w') \<Longrightarrow> view (w_user w') = (view (w_user w))(key := None)"
    and quiet_Get: "quiet sid (Get c key)"
    and quiet_Put: "quiet sid (Put c key rec)"
begin

abbreviation Invoke where "Invoke \<equiv> Idempotency_Invoke Get Put"

text \<open>A completed key is never run again: the result does not depend on the handler.\<close>

lemma Invoke_duplicate:
  assumes "extractKey evt = Some k" and "view (w_user w) (full_key k h) = Some rec"
    and "ir_Status rec = StatusCompleted"
    and "Get c (full_key k h) w = (Ret (r, ex, None), w1)"
  shows "Invoke ttl c evt h handle w = (Ret (Some (Sentinel ErrDuplicate)), w1)"
  using assms Get_view[OF assms(4)] by (simp add: Idempotency_Invoke_def Let_def)

lemma Invoke_in_progress:
  assumes "extractKey evt = Some k" and "view (w_user w) (full_key k h) = Some rec"
    and "ir_Status rec = StatusProcessing"
    and "Get c (full_key k h) w = (Ret (r, ex, None), w1)"
    and "w_now w1 - ir_StartedAt rec < processingTTL ttl"
  shows "Invoke ttl c evt h handle w = (Ret (Some (Sentinel ErrInProgress)), w1)"
  using assms Get_view[OF assms(4)] by (simp add: Idempotency_Invoke_def Let_def)

text \<open>A failed or dead-lettered key, and an unknown one, runs the handler under a processing mark.\<close>

lemma Invoke_runs:
  assumes "extractKey evt = Some k"
    and "view (w_user w) (full_key k h) = None \<or>
      (\<exists>rec. view (w_user w) (full_key k h) = Some rec \<and> ir_Status rec \<in> {StatusFailed, StatusDeadLettered})"
    and "Get c (full_key k h) w = (Ret (r, ex, None), w1)"
  shows "Invoke ttl c evt h handle w = run_marked Put c evt h (full_key k h) handle w1"
  using assms Get_view[OF assms(3)] by (auto simp: Idempotency_Invoke_def Let_def)

text \<open>
  Whatever the store held before, a run whose final Put succeeded leaves the status of
  its own result, and the result is the handler's.
\<close>

lemma finish_run_view:
  assumes "finish_run Put c evt h key started err w = (Ret r, w')"
  shows "r = err" and
    "(\<exists>perr w1. Put c key \<lparr>ir_Status = fst (final_status err), ir_StartedAt = started,
        ir_EndedAt = Some (w_now w)\<rparr> w = (Ret (Some perr), w1))
     \<or> (\<exists>rec. view (w_user w') key = Some rec \<and> ir_Status rec = fst (final_status err))"
  using assms
  by (auto simp: finish_run_def split: prod.splits result.splits option.splits dest!: Put_view)

lemma quiet_storeError: "quiet_step sid w (storeError c evt h op e w)"
  by (simp add: storeError_def quiet_step_emit)

lemma quiet_finish_run: "quiet sid (finish_run Put c evt h key started err)"
proof (rule quietI)
  fix w r w'
  assume n: "sid < w_next w" and run: "finish_run Put c evt h key started err w = (r, w')"
  from run show "quiet_step sid w w'"
    by (auto simp: finish_run_def split: prod.splits result.splits option.splits
        dest!: quiet_stepD[OF quiet_Put n] intro: quiet_step_trans quiet_storeError)
qed

lemma quiet_run_marked:
  assumes "quiet_handler sid handle"
  shows "quiet sid (run_marked Put c evt h key handle)"
proof (rule quietI)
  fix w r w'
  assume n: "sid < w_next w" and run: "run_marked Put c evt h key handle w = (r, w')"
  obtain r1 w1 where p: "Put c key \<lparr>ir_Status = StatusProcessing, ir_StartedAt = w_now w, ir_EndedAt = None\<rparr> w
      = (r1, w1)" by fastforce
  have q1: "quiet_step sid w w1" by (rule quiet_stepD[OF quiet_Put n p])
  then have n1: "sid < w_next w1" using n quiet_step_next by fastforce
  obtain r2 w2 where hd: "handle c w1 = (r2, w2)" by fastforce
  have q2: "quiet_step sid w w2" by (rule quiet_step_trans[OF q1 quiet_handlerD[OF assms n1 hd]])
  then have n2: "sid < w_next w2" using n quiet_step_next by fastforce
  have q3: "quiet_step sid w w3" if "finish_run Put c evt h key st e w2 = (r3, w3)" for st e r3 w3
    by (rule quiet_step_trans[OF q2 quiet_stepD[OF quiet_finish_run n2 that]])
  from run p hd q1 q2 show "quiet_step sid w w'"
    by (auto simp: run_marked_def Let_def split: result.splits option.splits
        dest: q3 intro: quiet_step_trans quiet_storeError)
qed

end

sublocale idempotency_store \<subseteq> idem: quiet_invoker "Idempotency_Invoke Get Put ttl" for ttl
proof unfold_locales
  fix sid :: nat and "next" :: "'u handler" and c evt h
  assume nx: "quiet_handler sid next"
  show "quiet sid (Idempotency_Invoke Get Put ttl c evt h next)"
  proof (cases "extractKey evt")
    case None
    with nx show ?thesis by (simp add: Idempotency_Invoke_def quiet_def quiet_handler_def)
  next
    case (Some k)
    show ?thesis
    proof (rule quietI)
      fix w r w'
      assume n: "sid < w_next w" and run: "Idempotency_Invoke Get Put ttl c evt h next w = (r, w')"
      obtain r1 w1 where g: "Get c (full_key k h) w = (r1, w1)" by fastforce
      have q1: "quiet_step sid w w1" by (rule quiet_stepD[OF quiet_Get n g])
      have n1: "sid < w_next w1" using quiet_step_next[OF q1] n by simp
      have q2: "quiet_step sid w w3" if "run_marked Put c evt h key next w1 = (r3, w3)" for key r3 w3
        by (rule quiet_step_trans[OF q1 quiet_stepD[OF quiet_run_marked[OF nx] n1 that]])
      have q3: "quiet_step sid w w3"
        if "run_marked Put c evt h key next (emit c (IdempotencyStale i) w1) = (r3, w3)" for key i r3 w3
        using quiet_stepD[OF quiet_run_marked[OF nx] _ that] n1
          quiet_step_trans[OF q1 quiet_step_emit[of "IdempotencyStale i"]]
        by (auto intro: quiet_step_trans)
      from run Some g q1 quiet_step_trans[OF q1 quiet_storeError] show "quiet_step sid w w'"
        by (auto simp: Idempotency_Invoke_def Let_def split: result.splits option.splits if_splits
            dest!: q2 q3)
    qed
  qed
qed

context idempotency_store
begin

lemma quiet_Idempotency: "quiet_invoker (Idempotency_Invoke Get Put ttl)"
  by (rule idem.quiet_invoker_axioms)

end

section \<open>MemoryIdempotencyStore\<close>

type_synonym memory_store = "string \<Rightarrow> idempotency_record option"

definition MemoryStore_Get :: "memory_store store_get" where
  "MemoryStore_Get c key w =
     (Ret (case w_user w key of Some rec \<Rightarrow> (rec, True, None) | None \<Rightarrow> (zero_record, False, None)), w)"

definition MemoryStore_Put :: "memory_store store_put" where
  "MemoryStore_Put c key rec w = (Ret None, w\<lparr>w_user := (w_user w)(key \<mapsto> rec)\<rparr>)"

definition MemoryStore_Delete :: "memory_store store_delete" where
  "MemoryStore_Delete c key w = (Ret None, w\<lparr>w_user := (w_user w)(key := None)\<rparr>)"

interpretation memory_store: idempotency_store MemoryStore_Get MemoryStore_Put MemoryStore_Delete "\<lambda>m. m"
  by unfold_locales
    (auto simp: MemoryStore_Get_def MemoryStore_Put_def MemoryStore_Delete_def intro!: quietI
      split: option.splits)

section \<open>Properties\<close>

abbreviation Memory_Invoke :: "duration \<Rightarrow> memory_store invoker" where
  "Memory_Invoke \<equiv> Idempotency_Invoke MemoryStore_Get MemoryStore_Put"

lemmas memory_defs = MemoryStore_Get_def MemoryStore_Put_def

text \<open>What a run under a processing mark leaves in the memory store.\<close>

lemma memory_run_marked:
  assumes "run_marked MemoryStore_Put c evt h key handle w = (Ret r, w')"
  obtains w2 st where "handle c (w\<lparr>w_user := (w_user w)(key \<mapsto> \<lparr>ir_Status = StatusProcessing,
      ir_StartedAt = w_now w, ir_EndedAt = None\<rparr>)\<rparr>) = (Ret r, w2)"
    "w_user w' = (w_user w2)(key \<mapsto> \<lparr>ir_Status = fst (final_status r), ir_StartedAt = w_now w,
       ir_EndedAt = Some (w_now w2)\<rparr>)"
  using assms by (auto simp: run_marked_def finish_run_def memory_defs Let_def
      split: prod.splits result.splits option.splits)

lemma memory_completed:
  assumes "extractKey evt = Some k" and "Memory_Invoke ttl c evt h handle w = (Ret None, w')"
  obtains rec where "w_user w' (full_key k h) = Some rec" "ir_Status rec = StatusCompleted"
  using assms by (auto simp: Idempotency_Invoke_def memory_defs Let_def final_status_def
      split: option.splits if_splits elim!: memory_run_marked)

text \<open>
  C34. A completed execution is never repeated. Once the invoker answered success for an
  event and a handler, every later call with the same key and handler name answers
  ErrDuplicate without running its handler, at any later time and under any TTL, as long
  as the record is in the store, and leaves the world unchanged.
\<close>

theorem completed_never_reruns:
  assumes "extractKey evt = Some k" and "Memory_Invoke ttl c evt h handle w = (Ret None, w1)"
    and "extractKey evt' = Some k" and "w_user w2 (full_key k h) = w_user w1 (full_key k h)"
  shows "Memory_Invoke ttl' c' evt' h handle' w2 = (Ret (Some (Sentinel ErrDuplicate)), w2)"
proof -
  obtain rec where "w_user w1 (full_key k h) = Some rec" "ir_Status rec = StatusCompleted"
    by (rule memory_completed[OF assms(1, 2)])
  with assms(3, 4) show ?thesis
    by (intro memory_store.Invoke_duplicate[where k = k and rec = rec]) (auto simp: memory_defs)
qed

lemma sample_idempotent_run:
  "Memory_Invoke 0 sample_ctx sample_event ''h'' (returning None) (sample_world Map.empty) =
     (Ret None, (sample_world Map.empty)\<lparr>w_user := Map.empty(''o-1:h'' \<mapsto> \<lparr>ir_Status = StatusCompleted,
        ir_StartedAt = 1000, ir_EndedAt = Some 1000\<rparr>)\<rparr>)"
  by (simp add: Idempotency_Invoke_def run_marked_def finish_run_def final_status_def memory_defs extractKey_def
      full_key_def sample_event_def returning_def Let_def)

lemma sample_key: "extractKey sample_event = Some ''o-1''" "full_key ''o-1'' ''h'' = ''o-1:h''"
  by (simp_all add: extractKey_def sample_event_def full_key_def)

theorem completed_never_reruns_witness:
  "Memory_Invoke 0 sample_ctx sample_event ''h'' panicking
     (snd (Memory_Invoke 0 sample_ctx sample_event ''h'' (returning None) (sample_world Map.empty))) =
   (Ret (Some (Sentinel ErrDuplicate)),
    snd (Memory_Invoke 0 sample_ctx sample_event ''h'' (returning None) (sample_world Map.empty)))"
  by (rule completed_never_reruns[where k = "''o-1''" and c = sample_ctx and ttl = 0 and evt = sample_event
        and handle = "returning None" and w = "sample_world Map.empty"])
    (simp_all only: sample_idempotent_run snd_conv sample_key)

text \<open>
  A failure is not a completion. When a run ended with an error of its handler
  (dead-lettered or not), the next call with that key runs its handler again, with the key
  marked as processing, and returns the result of that second run.
\<close>

lemma failed_runs_again:
  assumes "extractKey evt = Some k" and "run_marked MemoryStore_Put c evt h (full_key k h) handle w = (Ret (Some err), w1)"
    and "extractKey evt' = Some k" and "w_user w2 (full_key k h) = w_user w1 (full_key k h)"
    and "Memory_Invoke ttl' c' evt' h handle' w2 = (Ret r, w3)"
  shows "fst (handle' c' (w2\<lparr>w_user := (w_user w2)(full_key k h \<mapsto> \<lparr>ir_Status = StatusProcessing,
    ir_StartedAt = w_now w2, ir_EndedAt = None\<rparr>)\<rparr>)) = Ret r"
proof -
  obtain rec where rec: "w_user w2 (full_key k h) = Some rec" "ir_Status rec \<in> {StatusFailed, StatusDeadLettered}"
    by (rule memory_run_marked[OF assms(2)]) (auto simp: assms(4) final_status_def split: if_splits)
  have "Memory_Invoke ttl' c' evt' h handle' w2 = run_marked MemoryStore_Put c' evt' h (full_key k h) handle' w2"
    using assms(3) rec by (intro memory_store.Invoke_runs[where k = k]) (auto simp: memory_defs)
  with assms(5) have "run_marked MemoryStore_Put c' evt' h (full_key k h) handle' w2 = (Ret r, w3)" by simp
  then show ?thesis by (rule memory_run_marked) simp
qed

lemma sample_failed_run:
  "run_marked MemoryStore_Put sample_ctx sample_event ''h'' ''o-1:h'' (returning (Some boom)) (sample_world Map.empty) =
     (Ret (Some boom), (sample_world Map.empty)\<lparr>w_user := Map.empty(''o-1:h'' \<mapsto> \<lparr>ir_Status = StatusFailed,
        ir_StartedAt = 1000, ir_EndedAt = Some 1000\<rparr>)\<rparr>)"
  by (simp add: run_marked_def finish_run_def final_status_def memory_defs returning_def Let_def)

lemma sample_second_run:
  "Memory_Invoke 0 sample_ctx sample_event ''h'' (returning None) ((sample_world Map.empty)\<lparr>w_user :=
     Map.empty(''o-1:h'' \<mapsto> \<lparr>ir_Status = StatusFailed, ir_StartedAt = 1000, ir_EndedAt = Some 1000\<rparr>)\<rparr>) =
   (Ret None, (sample_world Map.empty)\<lparr>w_user := Map.empty(''o-1:h'' \<mapsto> \<lparr>ir_Status = StatusCompleted,
     ir_StartedAt = 1000, ir_EndedAt = Some 1000\<rparr>)\<rparr>)"
  by (simp add: Idempotency_Invoke_def run_marked_def finish_run_def final_status_def memory_defs sample_key
      returning_def Let_def)

text \<open>
  An empty id is a key. Two different events whose Id() is empty, which the WithId
  contract allows, share the idempotency key of a handler: after the first completed, the
  second is refused as a duplicate and its handler does not run.
\<close>

lemma empty_id_collides:
  assumes "ev_IdempotencyKey e1 = None" and "ev_Id e1 = Some []"
    and "ev_IdempotencyKey e2 = None" and "ev_Id e2 = Some []"
    and "Memory_Invoke ttl c e1 h handle w = (Ret None, w1)"
  shows "Memory_Invoke ttl c e2 h handle' w1 = (Ret (Some (Sentinel ErrDuplicate)), w1)"
proof -
  have k: "extractKey e1 = Some []" "extractKey e2 = Some []" using assms(1-4) by (simp_all add: extractKey_def)
  obtain rec where "w_user w1 (full_key [] h) = Some rec" "ir_Status rec = StatusCompleted"
    by (rule memory_completed[OF k(1) assms(5)])
  with k(2) show ?thesis
    by (intro memory_store.Invoke_duplicate[where k = "[]" and rec = rec]) (auto simp: memory_defs)
qed

end
