(* ===== verification/Redis.thy ===== *)
theory Redis
  imports Complex_Main Idempotency History_Header
begin

text \<open>
  The redis stores (redis/rate-limit.go, redis/idempotency.go). The Lua script of the rate
  limiter is a function over the redis commands it calls; Lua numbers are rationals. The
  server itself is not part of the repository: the commands are the arguments, and the locale
  \<^verbatim>\<open>redis_hash\<close> states what the script relies on, namely that a hash keeps its value until
  its expiry at least. A server with a clock and expiring keys is an instance.
\<close>

section \<open>The token bucket script\<close>

text \<open>
  The commands the script calls: TIME (seconds and microseconds), HMGET of the two fields,
  HMSET of both, PEXPIRE; and \<open>rd_pass d\<close>, \<open>d\<close> milliseconds in which no other client
  touches the key.
\<close>

record 'r redis =
  rd_TIME :: "'r \<Rightarrow> int \<times> int"
  rd_HMGET :: "string \<Rightarrow> 'r \<Rightarrow> (rat \<times> int) option"
  rd_HMSET :: "string \<Rightarrow> rat \<times> int \<Rightarrow> 'r \<Rightarrow> 'r"
  rd_PEXPIRE :: "string \<Rightarrow> int \<Rightarrow> 'r \<Rightarrow> 'r"
  rd_pass :: "int \<Rightarrow> 'r \<Rightarrow> 'r"

definition redis_now :: "'r redis \<Rightarrow> 'r \<Rightarrow> int" where
  "redis_now R r = fst (rd_TIME R r) * 1000 + snd (rd_TIME R r) div 1000"

definition rate_script :: "'r redis \<Rightarrow> string \<Rightarrow> int \<Rightarrow> int \<Rightarrow> int \<Rightarrow> 'r \<Rightarrow> int \<times> 'r" where
  "rate_script R key rate period burst r =
     (let now = redis_now R r;
          (tokens0, ts) = (case rd_HMGET R key r of None \<Rightarrow> (of_int burst, now) | Some data \<Rightarrow> data);
          delta = max 0 (now - ts);
          refill = of_int (delta * rate) / of_int period;
          tokens = min (of_int burst) (tokens0 + refill)
      in if tokens < 1
         then (0, rd_PEXPIRE R key period (rd_HMSET R key (tokens, now) r))
         else (1, rd_PEXPIRE R key period (rd_HMSET R key (tokens - 1, now) r)))"

text \<open>Allow on a client whose \<^verbatim>\<open>script.Run(...).Int()\<close> is \<open>run\<close>.\<close>

definition RateLimitStore_Allow :: "(ctx \<Rightarrow> string \<Rightarrow> int \<Rightarrow> int \<Rightarrow> int \<Rightarrow> ('u, error + int) comp) \<Rightarrow> 'u rate_store" where
  "RateLimitStore_Allow run c key rate period burst w =
     (case run c key rate (Milliseconds period) burst w of
        (Panics v st, w1) \<Rightarrow> (Panics v st, w1)
      | (Ret (Inl err), w1) \<Rightarrow> (Ret (False, Some err), w1)
      | (Ret (Inr res), w1) \<Rightarrow> (Ret (res = 1, None), w1))"

text \<open>Calls of the script for one key, each after a gap in milliseconds; true is allowed.\<close>

fun script_run :: "'r redis \<Rightarrow> string \<Rightarrow> int \<Rightarrow> int \<Rightarrow> int \<Rightarrow> int list \<Rightarrow> 'r \<Rightarrow> bool list" where
  "script_run R key rate period burst [] r = []"
| "script_run R key rate period burst (d # ds) r =
     (case rate_script R key rate period burst (rd_pass R d r) of
        (res, r1) \<Rightarrow> (res = 1) # script_run R key rate period burst ds r1)"

section \<open>The reference bucket\<close>

text \<open>The token bucket without keys and expiry: refill, cap, take one.\<close>

fun bucket_run :: "int \<Rightarrow> int \<Rightarrow> int \<Rightarrow> int list \<Rightarrow> rat \<Rightarrow> bool list" where
  "bucket_run rate period burst [] t = []"
| "bucket_run rate period burst (d # ds) t =
     (let t' = min (of_int burst) (t + of_int (d * rate) / of_int period) in
      if t' < 1 then False # bucket_run rate period burst ds t'
      else True # bucket_run rate period burst ds (t' - 1))"

lemma bucket_bound:
  assumes "0 \<le> rate" "0 < period" "0 \<le> t" "\<forall>d \<in> set ds. 0 \<le> d" "0 \<le> burst"
  shows "of_nat (count_if id (bucket_run rate period burst ds t)) \<le> t + of_int (rate * sum_list ds) / of_int period"
  using assms
proof (induction ds arbitrary: t)
  case (Cons d ds)
  define t' where "t' = min (of_int burst) (t + of_int (d * rate) / of_int period)"
  have "0 \<le> of_int (d * rate) / (of_int period :: rat)" using Cons.prems by simp
  then have t0: "0 \<le> t'" using Cons.prems by (simp add: t'_def)
  have le: "t' \<le> t + of_int (d * rate) / of_int period" by (simp add: t'_def)
  have sum: "of_int (rate * sum_list (d # ds)) / (of_int period :: rat)
      = of_int (d * rate) / of_int period + of_int (rate * sum_list ds) / of_int period"
    by (simp add: algebra_simps add_divide_distrib)
  have run: "bucket_run rate period burst (d # ds) t = (if t' < 1 then False # bucket_run rate period burst ds t'
      else True # bucket_run rate period burst ds (t' - 1))" by (simp only: bucket_run.simps Let_def t'_def)
  show ?case
    using Cons.IH[of t'] Cons.IH[of "t' - 1"] Cons.prems t0 le unfolding run sum by (cases "t' < 1") simp_all
qed simp

section \<open>What the script relies on\<close>

locale redis_hash =
  fixes R :: "'r redis"
  assumes now_pass: "0 \<le> d \<Longrightarrow> redis_now R (rd_pass R d r) = redis_now R r + d"
    and now_write: "redis_now R (rd_PEXPIRE R key p (rd_HMSET R key v r)) = redis_now R r"
    and keeps: "0 \<le> d \<Longrightarrow> d < p \<Longrightarrow>
      rd_HMGET R key (rd_pass R d (rd_PEXPIRE R key p (rd_HMSET R key v r))) = Some v"
    and expires: "0 \<le> d \<Longrightarrow>
      rd_HMGET R key (rd_pass R d (rd_PEXPIRE R key p (rd_HMSET R key v r))) \<in> {Some v, None}"
begin

text \<open>One call on a key written earlier: the refill of a period fills the bucket when the
  rate is at least the burst, so an expired key reads like a kept one.\<close>

lemma refill_expired:
  assumes "burst \<le> rate" "0 < period" "period \<le> d" "0 \<le> (t :: rat)" "0 \<le> rate"
  shows "min (of_int burst) (t + of_int (d * rate) / of_int period) = of_int burst"
proof -
  have "rate * period \<le> d * rate" using assms by (simp add: mult.commute mult_right_mono)
  then have "of_int rate \<le> of_int (d * rate) / (of_int period :: rat)"
    using assms(2) by (simp add: pos_le_divide_eq flip: of_int_mult)
  moreover have "(of_int burst :: rat) \<le> of_int rate" using assms(1) by simp
  ultimately have "of_int burst \<le> t + of_int (d * rate) / (of_int period :: rat)" using assms(4) by linarith
  then show ?thesis by simp
qed

lemma script_run_bucket:
  assumes "burst \<le> rate" "0 < period" "0 \<le> rate" "0 \<le> t" "t \<le> of_int burst" "\<forall>d \<in> set ds. 0 \<le> d"
  shows "script_run R key rate period burst ds (rd_PEXPIRE R key period (rd_HMSET R key (t, redis_now R r) r))
    = bucket_run rate period burst ds t"
  using assms
proof (induction ds arbitrary: t r)
  case (Cons d ds)
  let ?r = "rd_PEXPIRE R key period (rd_HMSET R key (t, redis_now R r) r)"
  let ?t = "min (of_int burst) (t + of_int (d * rate) / of_int period)"
  let ?r1 = "rd_pass R d ?r"
  have d: "0 \<le> d" using Cons.prems by simp
  have now: "redis_now R ?r1 = redis_now R r + d" using d by (simp add: now_pass now_write)
  have t0: "0 \<le> ?t" using Cons.prems d by auto
  have IH: "script_run R key rate period burst ds
      (rd_PEXPIRE R key period (rd_HMSET R key (u, redis_now R ?r1) ?r1)) = bucket_run rate period burst ds u"
    if "0 \<le> u" "u \<le> of_int burst" for u using Cons.IH[OF Cons.prems(1-3) that] Cons.prems by simp
  have call: "rate_script R key rate period burst ?r1 = (if ?t < 1
      then (0, rd_PEXPIRE R key period (rd_HMSET R key (?t, redis_now R ?r1) ?r1))
      else (1, rd_PEXPIRE R key period (rd_HMSET R key (?t - 1, redis_now R ?r1) ?r1)))"
  proof (cases "rd_HMGET R key ?r1")
    case (Some v)
    then have "v = (t, redis_now R r)" using expires[OF d, of key period "(t, redis_now R r)" r] by auto
    with Some d show ?thesis by (simp add: rate_script_def Let_def now)
  next
    case None
    then have p: "period \<le> d" using keeps[OF d, of period key "(t, redis_now R r)" r] by fastforce
    note full = refill_expired[OF Cons.prems(1,2) p Cons.prems(4) Cons.prems(3)]
    show ?thesis by (simp only: full) (simp add: rate_script_def Let_def None)
  qed
  show ?case
  proof (cases "?t < 1")
    case True
    then show ?thesis using IH[of ?t] t0 by (simp only: script_run.simps bucket_run.simps call Let_def) simp
  next
    case False
    then have "0 \<le> ?t - 1" "?t - 1 \<le> of_int burst" by linarith+
    note IH[OF this]
    with False show ?thesis by (simp only: script_run.simps bucket_run.simps call Let_def if_False) simp
  qed
qed simp

lemma script_run_fresh:
  assumes "burst \<le> rate" "0 < period" "0 \<le> burst" "\<forall>d \<in> set ds. 0 \<le> d"
    and fresh: "rd_HMGET R key (rd_pass R (hd ds) r) = None" and "ds \<noteq> []"
  shows "script_run R key rate period burst ds r = bucket_run rate period burst (0 # tl ds) (of_int burst)"
proof -
  obtain d es where ds: "ds = d # es" using assms(6) by (cases ds) auto
  let ?r1 = "rd_pass R d r"
  have run: "script_run R key rate period burst es
      (rd_PEXPIRE R key period (rd_HMSET R key (u, redis_now R ?r1) ?r1)) = bucket_run rate period burst es u"
    if "0 \<le> u" "u \<le> of_int burst" for u using script_run_bucket[OF assms(1,2) _ that] assms ds by simp
  show ?thesis using run[of "of_int burst"] run[of "of_int burst - 1"] assms(3) fresh
    by (simp add: ds rate_script_def Let_def)
qed

end

section \<open>A server\<close>

text \<open>
  An instance of the commands: a clock in milliseconds, and keys with a value and the
  instant at which they expire. Token buckets are hashes, idempotency records are strings.
\<close>

record 'v server =
  sv_now :: int
  sv_hash :: "string \<Rightarrow> ((rat \<times> int) \<times> int option) option"
  sv_str :: "string \<Rightarrow> ('v \<times> int option) option"

definition alive :: "int \<Rightarrow> ('a \<times> int option) option \<Rightarrow> 'a option" where
  "alive now x = (case x of None \<Rightarrow> None | Some (v, None) \<Rightarrow> Some v
     | Some (v, Some e) \<Rightarrow> if now < e then Some v else None)"

lemma alive_simps [simp]:
  "alive now None = None" "alive now (Some (v, None)) = Some v"
  "alive now (Some (v, Some e)) = (if now < e then Some v else None)"
  by (simp_all add: alive_def)

text \<open>HMSET keeps the expiry of an existing key; a new key does not expire until PEXPIRE.\<close>

definition server_redis :: "'v server redis" where
  "server_redis =
     \<lparr>rd_TIME = (\<lambda>r. (sv_now r div 1000, sv_now r mod 1000 * 1000)),
      rd_HMGET = (\<lambda>k r. alive (sv_now r) (sv_hash r k)),
      rd_HMSET = (\<lambda>k v r. r\<lparr>sv_hash := (sv_hash r)(k \<mapsto>
         (v, if alive (sv_now r) (sv_hash r k) = None then None else snd (the (sv_hash r k))))\<rparr>),
      rd_PEXPIRE = (\<lambda>k p r. r\<lparr>sv_hash := (sv_hash r)(k :=
         map_option (\<lambda>v. (v, Some (sv_now r + p))) (alive (sv_now r) (sv_hash r k)))\<rparr>),
      rd_pass = (\<lambda>d r. r\<lparr>sv_now := sv_now r + d\<rparr>)\<rparr>"

lemma redis_now_server [simp]: "redis_now server_redis r = sv_now r"
  by (simp add: redis_now_def server_redis_def)

interpretation server: redis_hash server_redis
  by unfold_locales (simp_all, auto simp: server_redis_def alive_def split: option.splits)

text \<open>The client of the rate limiter on this server, and the invoker over it.\<close>

definition server_run :: "ctx \<Rightarrow> string \<Rightarrow> int \<Rightarrow> int \<Rightarrow> int \<Rightarrow> ('v server, error + int) comp" where
  "server_run c key rate period burst w =
     (case rate_script server_redis key rate period burst (w_user w) of
        (res, r) \<Rightarrow> (Ret (Inr res), w\<lparr>w_user := r\<rparr>))"

definition sample_limit :: "'v server rate_limit_config" where
  "sample_limit = \<lparr>rl_Rate = 1, rl_Period = Second, rl_Burst = 1, rl_KeyPrefix = ''limit:'', rl_OnLimit = None\<rparr>"

interpretation server_limit: rate_limit "RateLimitStore_Allow server_run" sample_limit
  by unfold_locales
    (auto simp: RateLimitStore_Allow_def server_run_def sample_limit_def quiet_step_def report_state_def
      intro!: quietI split: prod.splits)

section \<open>The idempotency store\<close>

text \<open>
  The client: Set with a TTL, Get (None is \<^verbatim>\<open>redis.Nil\<close>), Del; and \<^verbatim>\<open>encoding/json\<close> for
  the record. \<open>'v\<close> is the type of the stored bytes.
\<close>

record ('u, 'v) redis_client =
  rc_Set :: "ctx \<Rightarrow> string \<Rightarrow> 'v \<Rightarrow> duration \<Rightarrow> ('u, error option) comp"
  rc_Get :: "ctx \<Rightarrow> string \<Rightarrow> ('u, error + 'v option) comp"
  rc_Del :: "ctx \<Rightarrow> string \<Rightarrow> ('u, error option) comp"
  rc_Marshal :: "idempotency_record \<Rightarrow> error + 'v"
  rc_Unmarshal :: "'v \<Rightarrow> error + idempotency_record"

fun status_ttl :: "IdempotencyStatus \<Rightarrow> duration" where
  "status_ttl StatusProcessing = 5 * 60 * Second"
| "status_ttl StatusCompleted = 24 * 60 * 60 * Second"
| "status_ttl _ = 60 * 60 * Second"

definition RedisStore_Put :: "('u, 'v) redis_client \<Rightarrow> 'u store_put" where
  "RedisStore_Put rdb c key rec w =
     (case rc_Marshal rdb rec of
        Inl err \<Rightarrow> (Ret (Some err), w)
      | Inr data \<Rightarrow> rc_Set rdb c key data (status_ttl (ir_Status rec)) w)"

definition RedisStore_Get :: "('u, 'v) redis_client \<Rightarrow> 'u store_get" where
  "RedisStore_Get rdb c key w =
     (case rc_Get rdb c key w of
        (Panics v st, w1) \<Rightarrow> (Panics v st, w1)
      | (Ret (Inl err), w1) \<Rightarrow> (Ret (zero_record, False, Some err), w1)
      | (Ret (Inr None), w1) \<Rightarrow> (Ret (zero_record, False, None), w1)
      | (Ret (Inr (Some val)), w1) \<Rightarrow>
          (case rc_Unmarshal rdb val of
             Inl err \<Rightarrow> (Ret (zero_record, False, Some err), w1)
           | Inr rec \<Rightarrow> (Ret (rec, True, None), w1)))"

definition RedisStore_Delete :: "('u, 'v) redis_client \<Rightarrow> 'u store_delete" where
  "RedisStore_Delete rdb c key = rc_Del rdb c key"

text \<open>The client on the server above, which stores the records themselves.\<close>

definition server_client :: "(idempotency_record server, idempotency_record) redis_client" where
  "server_client =
     \<lparr>rc_Set = (\<lambda>c k v ttl w. (Ret None, w\<lparr>w_user := (w_user w)\<lparr>sv_str :=
          (sv_str (w_user w))(k \<mapsto> (v, Some (sv_now (w_user w) + Milliseconds ttl)))\<rparr>\<rparr>)),
      rc_Get = (\<lambda>c k w. (Ret (Inr (alive (sv_now (w_user w)) (sv_str (w_user w) k))), w)),
      rc_Del = (\<lambda>c k w. (Ret None, w\<lparr>w_user := (w_user w)\<lparr>sv_str := (sv_str (w_user w))(k := None)\<rparr>\<rparr>)),
      rc_Marshal = Inr, rc_Unmarshal = Inr\<rparr>"

lemma status_ttl_pos [simp]: "0 < Milliseconds (status_ttl s)"
  by (cases s) (simp_all add: Milliseconds_def)

interpretation redis_store: idempotency_store "RedisStore_Get server_client" "RedisStore_Put server_client"
    "RedisStore_Delete server_client" "\<lambda>u k. alive (sv_now u) (sv_str u k)"
proof unfold_locales
  show "exists = (alive (sv_now (w_user w)) (sv_str (w_user w) key) \<noteq> None) \<and>
      (exists \<longrightarrow> alive (sv_now (w_user w)) (sv_str (w_user w) key) = Some rec) \<and>
      (\<lambda>k. alive (sv_now (w_user w')) (sv_str (w_user w') k)) = (\<lambda>k. alive (sv_now (w_user w)) (sv_str (w_user w) k))"
    if "RedisStore_Get server_client c key w = (Ret (rec, exists, None), w')" for c key w rec exists w'
    using that by (auto simp: RedisStore_Get_def server_client_def split: option.splits)
  show "(\<lambda>k. alive (sv_now (w_user w')) (sv_str (w_user w') k)) =
      (\<lambda>k. alive (sv_now (w_user w)) (sv_str (w_user w) k))(key \<mapsto> rec)"
    if "RedisStore_Put server_client c key rec w = (Ret None, w')" for c key rec w w'
    using that by (auto simp: RedisStore_Put_def server_client_def fun_eq_iff)
  show "(\<lambda>k. alive (sv_now (w_user w')) (sv_str (w_user w') k)) =
      (\<lambda>k. alive (sv_now (w_user w)) (sv_str (w_user w) k))(key := None)"
    if "RedisStore_Delete server_client c key w = (Ret None, w')" for c key w w'
    using that by (auto simp: RedisStore_Delete_def server_client_def fun_eq_iff)
  show "quiet sid (RedisStore_Get server_client c key)" for sid c key
    by (rule quietI) (auto simp: RedisStore_Get_def server_client_def split: option.splits)
  show "quiet sid (RedisStore_Put server_client c key rec)" for sid c key rec
    by (rule quietI) (auto simp: RedisStore_Put_def server_client_def quiet_step_def report_state_def)
qed

section \<open>Properties\<close>


abbreviation sample_server :: "unit server" where
  "sample_server \<equiv> \<lparr>sv_now = 5, sv_hash = Map.empty, sv_str = Map.empty\<rparr>"



text \<open>
  The redis store keeps the idempotency contract. A key completed through the redis store
  is not run again while the record lives: the call answers ErrDuplicate whatever its
  handler, and does not write.
\<close>

lemma redis_completed_duplicate:
  assumes "extractKey evt = Some k"
    and "sv_str (w_user w) (full_key k h) = Some (rec, Some expiry)" and "ir_Status rec = StatusCompleted"
    and "sv_now (w_user w) < expiry"
  shows "Idempotency_Invoke (RedisStore_Get server_client) (RedisStore_Put server_client) ttl c evt h handle w
    = (Ret (Some (Sentinel ErrDuplicate)), w)"
proof -
  have v: "alive (sv_now (w_user w)) (sv_str (w_user w) (full_key k h)) = Some rec"
    using assms(2, 4) by simp
  have g: "RedisStore_Get server_client c (full_key k h) w = (Ret (rec, True, None), w)"
    using v by (simp add: RedisStore_Get_def server_client_def)
  show ?thesis by (rule redis_store.Invoke_duplicate[OF assms(1) v assms(3) g])
qed

definition completed_server :: "idempotency_record server" where
  "completed_server = \<lparr>sv_now = 5, sv_hash = Map.empty, sv_str = Map.empty(''o-1:h'' \<mapsto>
     (\<lparr>ir_Status = StatusCompleted, ir_StartedAt = 1, ir_EndedAt = Some 2\<rparr>, Some 100))\<rparr>"

end
