(* ===== verification/Lifecycle.thy ===== *)
theory Lifecycle
  imports Failure_Model "HOL-Library.Multiset"
begin

text \<open>
  The shutdown state machine shared by every bus (lifecycle.go). The critical sections of
  Admit, Track, release, BeginShutdown, Wait and Interrupt are functions on a Lifecycle
  record; a step relation interleaves them for any number of emitters, handlers and
  callers of Shutdown. Its invariant shows that the in-flight count is the number of
  units not yet released, that nothing is admitted once the bus is done or interrupted,
  and that no waiter misses the end of the drain.
\<close>

section \<open>Definitions\<close>

text \<open>How long Close waits when a bus sets no timeout.\<close>

definition DefaultShutdownTimeout :: duration where
  "DefaultShutdownTimeout = 30 * Second"

text \<open>Channels are numbered; \<^verbatim>\<open>l_chans\<close> is the number of idle channels made so far.\<close>

record lifecycle =
  l_closed :: bool
  l_forced :: bool
  l_done :: bool
  l_inflight :: int
  l_idle :: "nat option"
  l_idleClosed :: bool
  l_chans :: nat
  l_cancelled :: bool

definition zero_lifecycle :: lifecycle where
  "zero_lifecycle = \<lparr>l_closed = False, l_forced = False, l_done = False, l_inflight = 0,
     l_idle = None, l_idleClosed = False, l_chans = 0, l_cancelled = False\<rparr>"

text \<open>Admit and Track refuse, or answer the lifecycle with one more unit in flight.\<close>

definition Admit :: "bool \<Rightarrow> lifecycle \<Rightarrow> sentinel + lifecycle" where
  "Admit nested l =
     (if l_forced l \<or> l_done l then Inl ErrBusClosed
      else if l_closed l \<and> (\<not> nested \<or> l_inflight l \<le> 0) then Inl ErrBusClosed
      else Inr (l\<lparr>l_inflight := l_inflight l + 1\<rparr>))"

definition Track :: "lifecycle \<Rightarrow> lifecycle option" where
  "Track l = (if l_forced l \<or> l_done l then None else Some (l\<lparr>l_inflight := l_inflight l + 1\<rparr>))"

text \<open>The body of a releaser; it closes the idle channel when the last unit ends.\<close>

definition release :: "lifecycle \<Rightarrow> lifecycle" where
  "release l0 =
     (let l = l0\<lparr>l_inflight := l_inflight l0 - 1\<rparr> in
      if l_closed l \<and> l_inflight l = 0 \<and> l_idle l \<noteq> None \<and> \<not> l_idleClosed l
      then l\<lparr>l_idleClosed := True\<rparr> else l)"

definition BeginShutdown :: "lifecycle \<Rightarrow> lifecycle" where
  "BeginShutdown l = l\<lparr>l_closed := True\<rparr>"

text \<open>One pass of the loop of Wait: return nil, or block on the idle channel.\<close>

definition Wait_pass :: "lifecycle \<Rightarrow> nat option \<times> lifecycle" where
  "Wait_pass l =
     (if l_inflight l = 0 then (None, l\<lparr>l_done := True\<rparr>)
      else (case (if l_idleClosed l then None else l_idle l) of
          Some ch \<Rightarrow> (Some ch, l)
        | None \<Rightarrow> (Some (l_chans l),
            l\<lparr>l_idle := Some (l_chans l), l_idleClosed := False, l_chans := Suc (l_chans l)\<rparr>)))"

definition Interrupt :: "lifecycle \<Rightarrow> lifecycle" where
  "Interrupt l = l\<lparr>l_forced := True, l_closed := True, l_cancelled := True\<rparr>"

definition Closing :: "lifecycle \<Rightarrow> bool" where
  "Closing l \<longleftrightarrow> l_closed l \<or> l_forced l"

section \<open>Interleavings\<close>

text \<open>
  \<open>lr_live\<close> counts the units admitted or tracked and not released yet; a releaser takes
  effect once. \<open>lr_waiting\<close> holds the channels callers of Shutdown block on, and
  \<open>lr_returned\<close> says that some Wait returned nil. A channel that is not the current one,
  or that was closed, wakes its readers.
\<close>

record life_run =
  lr_l :: lifecycle
  lr_live :: nat
  lr_waiting :: "nat multiset"
  lr_returned :: bool

definition woken :: "lifecycle \<Rightarrow> nat \<Rightarrow> bool" where
  "woken l ch \<longleftrightarrow> l_idle l \<noteq> Some ch \<or> l_idleClosed l"

definition pass_result :: "life_run \<Rightarrow> nat multiset \<Rightarrow> life_run" where
  "pass_result s waiting = (case Wait_pass (lr_l s) of
     (None, l') \<Rightarrow> s\<lparr>lr_l := l', lr_waiting := waiting, lr_returned := True\<rparr>
   | (Some ch, l') \<Rightarrow> s\<lparr>lr_l := l', lr_waiting := add_mset ch waiting\<rparr>)"

inductive life_step :: "life_run \<Rightarrow> life_run \<Rightarrow> bool" where
  admit: "Admit nested (lr_l s) = Inr l' \<Longrightarrow> life_step s (s\<lparr>lr_l := l', lr_live := Suc (lr_live s)\<rparr>)"
| track: "Track (lr_l s) = Some l' \<Longrightarrow> life_step s (s\<lparr>lr_l := l', lr_live := Suc (lr_live s)\<rparr>)"
| released: "0 < lr_live s \<Longrightarrow> life_step s (s\<lparr>lr_l := release (lr_l s), lr_live := lr_live s - 1\<rparr>)"
| begin_shutdown: "life_step s (s\<lparr>lr_l := BeginShutdown (lr_l s)\<rparr>)"
| wait_enter: "l_closed (lr_l s) \<Longrightarrow> life_step s (pass_result s (lr_waiting s))"
| wait_wake: "ch \<in># lr_waiting s \<Longrightarrow> woken (lr_l s) ch \<Longrightarrow>
    life_step s (pass_result s (lr_waiting s - {#ch#}))"
| wait_expired: "ch \<in># lr_waiting s \<Longrightarrow>
    life_step s (s\<lparr>lr_l := Interrupt (lr_l s), lr_waiting := lr_waiting s - {#ch#}\<rparr>)"
| interrupt: "life_step s (s\<lparr>lr_l := Interrupt (lr_l s)\<rparr>)"

definition life_init :: life_run where
  "life_init = \<lparr>lr_l = zero_lifecycle, lr_live = 0, lr_waiting = {#}, lr_returned = False\<rparr>"

inductive life_reach :: "life_run \<Rightarrow> bool" where
  init: "life_reach life_init"
| step: "life_reach s \<Longrightarrow> life_step s s' \<Longrightarrow> life_reach s'"

section \<open>The invariant\<close>

definition count_ok :: "life_run \<Rightarrow> bool" where
  "count_ok s \<longleftrightarrow> l_inflight (lr_l s) = int (lr_live s)"

definition flags_ok :: "life_run \<Rightarrow> bool" where
  "flags_ok s \<longleftrightarrow> (l_forced (lr_l s) \<longrightarrow> l_closed (lr_l s))
     \<and> l_cancelled (lr_l s) = l_forced (lr_l s)
     \<and> (l_done (lr_l s) \<longrightarrow> l_inflight (lr_l s) = 0) \<and> (lr_returned s \<longrightarrow> l_done (lr_l s))
     \<and> (l_done (lr_l s) \<longrightarrow> l_closed (lr_l s))"

text \<open>A waiter that is not woken waits for units that are still in flight.\<close>

definition waiters_ok :: "life_run \<Rightarrow> bool" where
  "waiters_ok s \<longleftrightarrow> (\<forall>ch. ch \<in># lr_waiting s \<longrightarrow> l_closed (lr_l s)
      \<and> (woken (lr_l s) ch \<or> 0 < l_inflight (lr_l s)))
    \<and> (\<forall>ch. l_idle (lr_l s) = Some ch \<longrightarrow> ch < l_chans (lr_l s))"

definition life_inv :: "life_run \<Rightarrow> bool" where
  "life_inv s \<longleftrightarrow> count_ok s \<and> flags_ok s \<and> waiters_ok s"

lemmas life_inv_defs = life_inv_def count_ok_def flags_ok_def waiters_ok_def woken_def

lemma life_inv_init: "life_inv life_init"
  by (simp add: life_inv_defs life_init_def zero_lifecycle_def)

lemma life_inv_pass:
  assumes "life_inv s" and "l_closed (lr_l s)" and "W \<subseteq># lr_waiting s"
  shows "life_inv (pass_result s W)"
proof -
  have sub: "ch \<in># W \<Longrightarrow> ch \<in># lr_waiting s" for ch using assms(3) by (rule mset_subset_eqD)
  show ?thesis
  proof (cases "l_inflight (lr_l s) = 0")
    case True
    with assms sub show ?thesis by (auto simp: pass_result_def Wait_pass_def life_inv_defs)
  next
    case False
    then have pos: "0 < l_inflight (lr_l s)" using assms(1) by (simp add: life_inv_defs)
    show ?thesis
      using assms(1, 2) sub pos False
      by (auto simp: pass_result_def Wait_pass_def life_inv_defs split: option.splits if_splits)
  qed
qed

lemma life_inv_step: "life_step s s' \<Longrightarrow> life_inv s \<Longrightarrow> life_inv s'"
proof (induction rule: life_step.induct)
  case (admit nested s l')
  then show ?case by (auto simp: Admit_def life_inv_defs split: if_splits)
next
  case (track s l')
  then show ?case by (auto simp: Track_def life_inv_defs split: if_splits)
next
  case (released s)
  then show ?case by (auto simp: release_def Let_def life_inv_defs)
next
  case (begin_shutdown s)
  then show ?case by (auto simp: BeginShutdown_def life_inv_defs)
next
  case (wait_enter s)
  then show ?case by (simp add: life_inv_pass)
next
  case (wait_wake ch s)
  then have "l_closed (lr_l s)" by (auto simp: life_inv_defs)
  with wait_wake show ?case by (simp add: life_inv_pass)
next
  case (wait_expired ch s)
  then show ?case by (auto simp: Interrupt_def life_inv_defs dest: in_diffD)
next
  case (interrupt s)
  then show ?case by (auto simp: Interrupt_def life_inv_defs)
qed

lemma life_inv_reach: "life_reach s \<Longrightarrow> life_inv s"
  by (induction rule: life_reach.induct) (auto intro: life_inv_init life_inv_step)

section \<open>Consequences\<close>

text \<open>Once forced or done, no unit is ever added, and both flags stay.\<close>

lemma closed_for_good_step:
  "life_step s s' \<Longrightarrow> l_forced (lr_l s) \<or> l_done (lr_l s) \<Longrightarrow>
     lr_live s' \<le> lr_live s \<and> (l_forced (lr_l s') \<or> l_done (lr_l s'))"
  by (induction rule: life_step.induct)
    (auto simp: Admit_def Track_def release_def Let_def BeginShutdown_def pass_result_def Wait_pass_def
      Interrupt_def split: if_splits option.splits)

lemma closed_for_good:
  "life_step\<^sup>*\<^sup>* s s' \<Longrightarrow> l_forced (lr_l s) \<or> l_done (lr_l s) \<Longrightarrow>
     lr_live s' \<le> lr_live s \<and> (l_forced (lr_l s') \<or> l_done (lr_l s'))"
  by (induction rule: rtranclp_induct) (auto dest: closed_for_good_step)

text \<open>A drained lifecycle wakes every waiter, and the pass of a woken waiter then returns nil.\<close>

lemma drained_wakes:
  assumes "life_inv s" and "lr_live s = 0" and "ch \<in># lr_waiting s"
  shows "woken (lr_l s) ch" and "fst (Wait_pass (lr_l s)) = None"
  using assms by (auto simp: life_inv_def count_ok_def waiters_ok_def Wait_pass_def)

section \<open>Properties\<close>

text \<open>A run for the witnesses: one unit is admitted, then Shutdown begins and waits for it.\<close>

definition draining_run :: life_run where
  "draining_run = \<lparr>lr_l = zero_lifecycle\<lparr>l_closed := True, l_inflight := 1, l_idle := Some 0, l_chans := 1\<rparr>,
     lr_live = 1, lr_waiting = {#0#}, lr_returned = False\<rparr>"

definition drained_run :: life_run where
  "drained_run = \<lparr>lr_l = zero_lifecycle\<lparr>l_closed := True, l_idle := Some 0, l_idleClosed := True, l_chans := 1\<rparr>,
     lr_live = 0, lr_waiting = {#0#}, lr_returned = False\<rparr>"

definition ended_run :: life_run where
  "ended_run = drained_run\<lparr>lr_l := (lr_l drained_run)\<lparr>l_done := True\<rparr>, lr_waiting := {#}, lr_returned := True\<rparr>"

lemma reach_draining: "life_reach draining_run"
proof -
  let ?one = "life_init\<lparr>lr_l := zero_lifecycle\<lparr>l_inflight := 1\<rparr>, lr_live := 1\<rparr>"
  have a: "life_step life_init ?one"
    using life_step.admit[of False life_init "zero_lifecycle\<lparr>l_inflight := 1\<rparr>"]
    by (simp add: life_init_def zero_lifecycle_def Admit_def)
  have b: "life_step ?one (?one\<lparr>lr_l := BeginShutdown (lr_l ?one)\<rparr>)" by (rule life_step.begin_shutdown)
  have c: "life_step (?one\<lparr>lr_l := BeginShutdown (lr_l ?one)\<rparr>) draining_run"
    using life_step.wait_enter[of "?one\<lparr>lr_l := BeginShutdown (lr_l ?one)\<rparr>"]
    by (simp add: life_init_def zero_lifecycle_def BeginShutdown_def pass_result_def Wait_pass_def draining_run_def)
  show ?thesis
    by (intro life_reach.step[OF _ c] life_reach.step[OF _ b] life_reach.step[OF _ a] life_reach.init)
qed

lemma reach_drained: "life_reach drained_run"
proof (rule life_reach.step[OF reach_draining])
  show "life_step draining_run drained_run"
    using life_step.released[of draining_run]
    by (simp add: draining_run_def drained_run_def release_def zero_lifecycle_def Let_def)
qed

lemma reach_ended: "life_reach ended_run"
proof (rule life_reach.step[OF reach_drained])
  show "life_step drained_run ended_run"
    using life_step.wait_wake[of 0 drained_run]
    by (simp add: drained_run_def ended_run_def woken_def pass_result_def Wait_pass_def zero_lifecycle_def)
qed

text \<open>
  C6. Nothing runs after close. In every interleaving of admissions, tracked work,
  releases and concurrent Shutdown calls, the in-flight count is the number of units not
  released, and once a Shutdown returned nil there is none: then and after any further
  steps, nested emits included, no unit is in flight again.
\<close>

theorem nothing_after_close:
  assumes "life_reach s"
  shows "l_inflight (lr_l s) = int (lr_live s)
    \<and> (lr_returned s \<longrightarrow> lr_live s = 0 \<and> (\<forall>s'. life_step\<^sup>*\<^sup>* s s' \<longrightarrow> lr_live s' = 0))"
proof (intro conjI impI allI)
  note inv = life_inv_reach[OF assms]
  show "l_inflight (lr_l s) = int (lr_live s)" using inv by (simp add: life_inv_def count_ok_def)
  assume r: "lr_returned s"
  then have d: "l_done (lr_l s)" and z: "lr_live s = 0" using inv by (auto simp: life_inv_defs)
  show "lr_live s = 0" by (rule z)
  show "lr_live s' = 0" if "life_step\<^sup>*\<^sup>* s s'" for s' using closed_for_good[OF that] d z by simp
qed

theorem nothing_after_close_witness:
  "lr_returned ended_run \<and> lr_live ended_run = 0 \<and> l_inflight (lr_l ended_run) = 0"
  using nothing_after_close[OF reach_ended] by (simp add: ended_run_def)

text \<open>
  Shutdown does not hang on a drained bus. In every reachable state in which all units
  were released, each caller blocked in Wait has been woken, and its next pass through the
  loop returns nil; no wake-up is lost, whichever channel it waits on.
\<close>

lemma drained_shutdown_returns:
  assumes "life_reach s" and "lr_live s = 0" and "ch \<in># lr_waiting s"
  shows "woken (lr_l s) ch \<and> life_step s (pass_result s (lr_waiting s - {#ch#}))
    \<and> lr_returned (pass_result s (lr_waiting s - {#ch#}))"
proof -
  note w = drained_wakes[OF life_inv_reach[OF assms(1)] assms(2, 3)]
  have "lr_returned (pass_result s (lr_waiting s - {#ch#}))"
    using w(2) by (auto simp: pass_result_def split: prod.splits option.splits)
  with w(1) life_step.wait_wake[OF assms(3) w(1)] show ?thesis by simp
qed

text \<open>
  An expired Shutdown refuses all new work. Once Interrupt ran (the deadline of a
  Shutdown passed), in every later state Admit answers ErrBusClosed, for nested emits too,
  Track refuses, the bus context is cancelled, and the units in flight only decrease.
\<close>

lemma interrupted_refuses:
  assumes "life_reach s" and "l_forced (lr_l s)" and "life_step\<^sup>*\<^sup>* s s'"
  shows "lr_live s' \<le> lr_live s \<and> Admit nested (lr_l s') = Inl ErrBusClosed \<and> Track (lr_l s') = None
    \<and> l_cancelled (lr_l s)"
proof -
  have "l_cancelled (lr_l s)" using life_inv_reach[OF assms(1)] assms(2) by (simp add: life_inv_defs)
  with closed_for_good[OF assms(3)] assms(2) show ?thesis by (auto simp: Admit_def Track_def)
qed

definition interrupted_run :: life_run where
  "interrupted_run = draining_run\<lparr>lr_l := Interrupt (lr_l draining_run)\<rparr>"

lemma reach_interrupted: "life_reach interrupted_run"
  unfolding interrupted_run_def by (rule life_reach.step[OF reach_draining life_step.interrupt])

end
