(* ===== verification/Metadata.thy ===== *)
theory Metadata
  imports World "HOL-Library.AList"
begin

text \<open>
  Emit and subscribe options (options.go) and the Metadata of an outgoing event
  (metadata.go): ResolveOutbound with its causal rules and the header inheritance. Go
  maps are association lists without duplicate keys.
\<close>

section \<open>Options\<close>

type_synonym 'u id_source = "'u world \<Rightarrow> string \<times> 'u world"

record 'u emit_options =
  eo_Subject :: string
  eo_ID :: string
  eo_CorrelationID :: string
  eo_IDGenerator :: "'u id_source option"
  eo_Headers :: "(string \<times> string) list"
  eo_InheritHeaders :: "string list"

type_synonym 'u emit_option = "'u emit_options \<Rightarrow> 'u emit_options"

definition WithSubject :: "string \<Rightarrow> 'u emit_option" where
  "WithSubject subject = eo_Subject_update (\<lambda>_. subject)"

definition WithID :: "string \<Rightarrow> 'u emit_option" where
  "WithID ident = eo_ID_update (\<lambda>_. ident)"

definition WithCorrelationID :: "string \<Rightarrow> 'u emit_option" where
  "WithCorrelationID ident = eo_CorrelationID_update (\<lambda>_. ident)"

definition WithHeader :: "string \<Rightarrow> string \<Rightarrow> 'u emit_option" where
  "WithHeader key val o' = (if key = [] then o' else o'\<lparr>eo_Headers := AList.update key val (eo_Headers o')\<rparr>)"

definition ApplyEmitOptions :: "event \<Rightarrow> 'u emit_option list \<Rightarrow> 'u emit_options" where
  "ApplyEmitOptions evt opts = fold (\<lambda>opt o'. opt o') opts
     \<lparr>eo_Subject = ev_Name evt, eo_ID = [], eo_CorrelationID = [], eo_IDGenerator = None,
      eo_Headers = [], eo_InheritHeaders = []\<rparr>"

text \<open>Subscribe options; a nil BackOff is None, which a consumer treats unlike an empty one.\<close>

record subscribe_options =
  so_HandlerName :: string
  so_Stream :: string
  so_Consumer :: string
  so_MaxDeliver :: int
  so_BackOff :: "duration list option"

type_synonym subscribe_option = "subscribe_options \<Rightarrow> subscribe_options"

definition WithHandlerName :: "string \<Rightarrow> subscribe_option" where
  "WithHandlerName name = so_HandlerName_update (\<lambda>_. name)"

definition WithStream :: "string \<Rightarrow> subscribe_option" where
  "WithStream stream = so_Stream_update (\<lambda>_. stream)"

definition WithConsumer :: "string \<Rightarrow> subscribe_option" where
  "WithConsumer consumer = so_Consumer_update (\<lambda>_. consumer)"

definition WithMaxDeliver :: "int \<Rightarrow> subscribe_option" where
  "WithMaxDeliver n = so_MaxDeliver_update (\<lambda>_. n)"

definition WithBackOff :: "duration list option \<Rightarrow> subscribe_option" where
  "WithBackOff delays = so_BackOff_update (\<lambda>_. delays)"

definition ApplyOptions :: "subscribe_option list \<Rightarrow> subscribe_options" where
  "ApplyOptions opts = fold (\<lambda>opt o'. opt o') opts
     \<lparr>so_HandlerName = [], so_Stream = [], so_Consumer = [], so_MaxDeliver = 0, so_BackOff = None\<rparr>"

section \<open>ResolveOutbound\<close>

text \<open>resolveHeaders: allowlisted parent headers first, explicit headers on top.\<close>

definition resolveHeaders :: "metadata option \<Rightarrow> 'u emit_options \<Rightarrow> (string \<times> string) list" where
  "resolveHeaders parent opts =
     (let inherited = (case parent of None \<Rightarrow> []
            | Some p \<Rightarrow> fold (\<lambda>k out. case map_of (md_Headers p) k of
                 Some v \<Rightarrow> AList.update k v out | None \<Rightarrow> out) (eo_InheritHeaders opts) [])
      in fold (\<lambda>(k, v) out. AList.update k v out) (eo_Headers opts) inherited)"

definition resolve_id :: "'u id_source \<Rightarrow> event \<Rightarrow> 'u emit_options \<Rightarrow> 'u world \<Rightarrow> string \<times> 'u world" where
  "resolve_id NewID evt opts w =
     (let id0 = (if eo_ID opts = [] then (case ev_Id evt of None \<Rightarrow> [] | Some i \<Rightarrow> i) else eo_ID opts) in
      case (if id0 = [] then (case eo_IDGenerator opts of None \<Rightarrow> (id0, w) | Some f \<Rightarrow> f w) else (id0, w)) of
        (id1, w1) \<Rightarrow> if id1 = [] then NewID w1 else (id1, w1))"

definition resolve_correlation :: "metadata option \<Rightarrow> 'u emit_options \<Rightarrow> string \<Rightarrow> string" where
  "resolve_correlation parent opts ident =
     (if eo_CorrelationID opts \<noteq> [] then eo_CorrelationID opts
      else (case parent of None \<Rightarrow> ident
        | Some p \<Rightarrow> if md_CorrelationID p \<noteq> [] then md_CorrelationID p
                    else if md_ID p \<noteq> [] then md_ID p else ident))"

definition ResolveOutbound :: "'u id_source \<Rightarrow> ctx \<Rightarrow> event \<Rightarrow> 'u emit_options \<Rightarrow> 'u world \<Rightarrow> metadata \<times> 'u world" where
  "ResolveOutbound NewID c evt opts w =
     (let parent = MetadataFromContext c in
      case resolve_id NewID evt opts w of (ident, w1) \<Rightarrow>
        (\<lparr>md_ID = ident, md_CorrelationID = resolve_correlation parent opts ident,
          md_CausationID = (case parent of None \<Rightarrow> [] | Some p \<Rightarrow> md_ID p),
          md_Name = ev_Name evt,
          md_Version = (case ev_Version evt of Some v \<Rightarrow> if v > 0 then v else 1 | None \<Rightarrow> 1),
          md_Timestamp = w_now w1, md_Headers = resolveHeaders parent opts\<rparr>, w1))"

section \<open>Lemmas\<close>

lemma ApplyEmitOptions_snoc: "ApplyEmitOptions evt (opts @ [opt]) = opt (ApplyEmitOptions evt opts)"
  by (simp add: ApplyEmitOptions_def)

text \<open>The last value of a header wins.\<close>

lemma WithHeader_lookup:
  "map_of (eo_Headers (WithHeader k v o')) k' =
     (if k \<noteq> [] \<and> k' = k then Some v else map_of (eo_Headers o') k')"
  by (simp add: WithHeader_def update_conv')

lemma fold_update_lookup:
  "map_of (fold (\<lambda>(k, v) out. AList.update k v out) kvs out) k =
     (case map_of (rev kvs) k of Some v \<Rightarrow> Some v | None \<Rightarrow> map_of out k)"
  by (induction kvs arbitrary: out) (auto simp: update_conv' split: option.splits)

lemma fold_inherit_lookup:
  "map_of (fold (\<lambda>k out. case h k of Some v \<Rightarrow> AList.update k v out | None \<Rightarrow> out) ks out) k =
     (if k \<in> set ks \<and> h k \<noteq> None then h k else map_of out k)"
proof (induction ks arbitrary: out)
  case (Cons a ks)
  show ?case by (cases "h a") (auto simp: Cons.IH update_conv')
qed simp

lemma distinct_map_of_rev:
  assumes "distinct (map fst kvs)"
  shows "map_of (rev kvs) = map_of kvs"
proof
  fix k
  have "distinct (map fst (rev kvs))" using assms by (simp flip: rev_map)
  then have "map_of (rev kvs) k = Some v \<longleftrightarrow> map_of kvs k = Some v" for v
    using assms by simp
  then show "map_of (rev kvs) k = map_of kvs k" by (metis not_Some_eq)
qed

text \<open>
  A header of the outgoing event: the explicit one, else the parent's when its key is on
  the allowlist, else none.
\<close>

lemma resolveHeaders_lookup:
  assumes "distinct (map fst (eo_Headers opts))"
  shows "map_of (resolveHeaders parent opts) k =
    (case map_of (eo_Headers opts) k of Some v \<Rightarrow> Some v
     | None \<Rightarrow> (case parent of None \<Rightarrow> None
         | Some p \<Rightarrow> if k \<in> set (eo_InheritHeaders opts) then map_of (md_Headers p) k else None))"
  by (auto simp: resolveHeaders_def Let_def fold_update_lookup fold_inherit_lookup
      distinct_map_of_rev[OF assms] split: option.splits)

lemma resolve_id_nonempty:
  assumes "resolve_id NewID evt opts w = (ident, w')" and "\<And>w. fst (NewID w) \<noteq> []"
  shows "ident \<noteq> []"
  using assms(1) assms(2)[of w] assms(2)
  by (auto simp: resolve_id_def Let_def split: prod.splits option.splits if_splits) (metis fst_conv)+

section \<open>Properties\<close>

text \<open>
  Events that cause one another: each event of the list is emitted by a handler of the one
  before, under a context that carries its Metadata.
\<close>

fun causal_chain :: "'u id_source \<Rightarrow> ctx \<Rightarrow> (event \<times> 'u emit_options) list \<Rightarrow> 'u world \<Rightarrow> metadata list" where
  "causal_chain NewID c [] w = []"
| "causal_chain NewID c ((evt, opts) # es) w =
     (case ResolveOutbound NewID c evt opts w of (md, w1) \<Rightarrow> md # causal_chain NewID (WithMetadata c md) es w1)"

lemma ResolveOutbound_ids:
  assumes "ResolveOutbound NewID c evt opts w = (md, w')" and "\<And>w. fst (NewID w) \<noteq> []"
    and "eo_CorrelationID opts = []"
  shows "md_ID md \<noteq> []"
    and "md_CausationID md = (case MetadataFromContext c of None \<Rightarrow> [] | Some p \<Rightarrow> md_ID p)"
    and "MetadataFromContext c = None \<Longrightarrow> md_CorrelationID md = md_ID md"
    and "MetadataFromContext c = Some p \<Longrightarrow> md_CorrelationID p \<noteq> [] \<Longrightarrow> md_CorrelationID md = md_CorrelationID p"
  using assms(1, 3) by (auto simp: ResolveOutbound_def resolve_correlation_def Let_def split: prod.splits
      dest: resolve_id_nonempty[OF _ assms(2)])

lemma causal_chain_child:
  assumes "MetadataFromContext c = Some p" and "md_CorrelationID p = corr" and "corr \<noteq> []"
    and "\<And>w. fst (NewID w) \<noteq> []" and "\<forall>(evt, opts) \<in> set es. eo_CorrelationID opts = []"
    and "i < length (causal_chain NewID c es w)"
  shows "md_CorrelationID (causal_chain NewID c es w ! i) = corr
    \<and> md_CausationID (causal_chain NewID c es w ! i) = md_ID ((p # causal_chain NewID c es w) ! i)"
  using assms
proof (induction es arbitrary: c p w i)
  case (Cons e es)
  obtain evt opts where e: "e = (evt, opts)" by force
  obtain md w1 where r: "ResolveOutbound NewID c evt opts w = (md, w1)" by force
  have o: "eo_CorrelationID opts = []" using Cons.prems(5) e by simp
  note ids = ResolveOutbound_ids[OF r Cons.prems(4) o]
  have corr: "md_CorrelationID md = corr" using ids(4)[OF Cons.prems(1)] Cons.prems(2,3) by simp
  show ?case
  proof (cases i)
    case 0
    then show ?thesis using corr ids(2) Cons.prems(1) by (simp add: e r)
  next
    case (Suc j)
    with Cons.prems(6) have j: "j < length (causal_chain NewID (WithMetadata c md) es w1)" by (simp add: e r)
    have "MetadataFromContext (WithMetadata c md) = Some md" by (simp add: MetadataFromContext_def WithMetadata_def)
    from Cons.IH[OF this corr Cons.prems(3,4) _ j] Cons.prems(5) show ?thesis by (simp add: e r Suc)
  qed
qed simp

text \<open>
  C37. One correlation id per causal chain. Starting from a context without Metadata, when
  no emit sets a correlation id, every event of a chain of any length carries the id of the
  first one as its correlation id, and the id of the event that caused it as its causation
  id; the first has none. Ids are never empty.
\<close>

theorem causal_chain_correlated:
  assumes "MetadataFromContext c = None" and "\<And>w. fst (NewID w) \<noteq> []"
    and "\<forall>(evt, opts) \<in> set es. eo_CorrelationID opts = []"
    and "i < length (causal_chain NewID c es w)"
  shows "md_CorrelationID (causal_chain NewID c es w ! i) = md_ID (causal_chain NewID c es w ! 0)
    \<and> md_CausationID (causal_chain NewID c es w ! i) = (if i = 0 then [] else md_ID (causal_chain NewID c es w ! (i - 1)))
    \<and> md_ID (causal_chain NewID c es w ! 0) \<noteq> []"
proof (cases es)
  case (Cons e es')
  obtain evt opts where e: "e = (evt, opts)" by force
  obtain md w1 where r: "ResolveOutbound NewID c evt opts w = (md, w1)" by force
  have o: "eo_CorrelationID opts = []" using assms(3) Cons e by simp
  note ids = ResolveOutbound_ids[OF r assms(2) o]
  have md: "MetadataFromContext (WithMetadata c md) = Some md" by (simp add: MetadataFromContext_def WithMetadata_def)
  show ?thesis
  proof (cases i)
    case 0
    then show ?thesis using ids assms(1) by (simp add: Cons e r)
  next
    case (Suc j)
    then have j: "j < length (causal_chain NewID (WithMetadata c md) es' w1)" using assms(4) by (simp add: Cons e r)
    from causal_chain_child[OF md ids(3)[OF assms(1)] ids(1) assms(2) _ j] assms(3) ids(1) show ?thesis
      by (simp add: Cons e r Suc)
  qed
qed (use assms(4) in simp)

text \<open>A sample: three events named a, b, c that are given ids by a counter.\<close>

definition count_id :: "nat id_source" where
  "count_id w = (''i'' @ Itoa (int (w_user w)), w\<lparr>w_user := Suc (w_user w)\<rparr>)"

definition plain_event :: "string \<Rightarrow> event" where
  "plain_event n = \<lparr>ev_Name = n, ev_Id = None, ev_Version = None, ev_IdempotencyKey = None,
     ev_RateLimitKey = None, ev_OnErr = False, ev_Payload = []\<rparr>"

definition zero_world :: "'u \<Rightarrow> 'u world" where
  "zero_world u = \<lparr>w_now = 1, w_trace = [], w_scopes = (\<lambda>_. \<lparr>fs_breaker = BreakerUnknown, fs_reported = False,
     fs_pending = None, fs_flushed = False, fs_settles = False\<rparr>), w_next = 0, w_fired = [], w_user = u\<rparr>"

abbreviation sample_emits :: "(event \<times> nat emit_options) list" where
  "sample_emits \<equiv> map (\<lambda>n. (plain_event n, ApplyEmitOptions (plain_event n) [])) [''a'', ''b'', ''c'']"

theorem causal_chain_correlated_witness:
  "md_CorrelationID (causal_chain count_id Background sample_emits (zero_world 0) ! 2) =
     md_ID (causal_chain count_id Background sample_emits (zero_world 0) ! 0)
   \<and> md_CausationID (causal_chain count_id Background sample_emits (zero_world 0) ! 2) =
     md_ID (causal_chain count_id Background sample_emits (zero_world 0) ! 1)"
  using causal_chain_correlated[of Background count_id sample_emits 2 "zero_world 0"]
  by (simp add: Background_def MetadataFromContext_def count_id_def ApplyEmitOptions_def split: prod.splits)

text \<open>
  Which headers leave with an event. A header set by the emit options wins; else a
  header of the parent event is inherited exactly when its key is on the allowlist of the
  bus; nothing else is added. Of two WithHeader options with one key the last wins, and
  an empty key sets nothing.
\<close>

lemma outbound_headers:
  "map_of (md_Headers (fst (ResolveOutbound NewID c evt (ApplyEmitOptions evt (map (\<lambda>(k, v). WithHeader k v) kvs)
      \<lparr>eo_InheritHeaders := allow\<rparr>) w))) k =
    (case map_of (rev (filter (\<lambda>(k, _). k \<noteq> []) kvs)) k of Some v \<Rightarrow> Some v
     | None \<Rightarrow> (case MetadataFromContext c of None \<Rightarrow> None
         | Some p \<Rightarrow> if k \<in> set allow then map_of (md_Headers p) k else None))"
proof -
  define opts where "opts = (ApplyEmitOptions evt (map (\<lambda>(k, v). WithHeader k v) kvs) :: 'a emit_options)"
  have d: "distinct (map fst (eo_Headers opts))" unfolding opts_def
    by (induction kvs rule: rev_induct)
      (simp add: ApplyEmitOptions_def, clarsimp simp: ApplyEmitOptions_snoc WithHeader_def distinct_update)
  have h: "map_of (eo_Headers opts) k = map_of (rev (filter (\<lambda>(k, _). k \<noteq> []) kvs)) k" unfolding opts_def
    by (induction kvs rule: rev_induct)
      (simp add: ApplyEmitOptions_def, clarsimp simp: ApplyEmitOptions_snoc WithHeader_lookup)
  have "md_Headers (fst (ResolveOutbound NewID c evt (opts\<lparr>eo_InheritHeaders := allow\<rparr>) w)) =
      resolveHeaders (MetadataFromContext c) (opts\<lparr>eo_InheritHeaders := allow\<rparr>)"
    by (simp add: ResolveOutbound_def Let_def split: prod.splits)
  with h d show ?thesis by (simp add: resolveHeaders_lookup opts_def split: option.splits)
qed

end
