(* ===== verification/Local_Bus.thy ===== *)
theory Local_Bus
  imports Samples Lifecycle Metadata
begin

text \<open>
  The in-process bus (local-bus.go): subscription, the execution of one handler through
  the invoker chain and Settle, EmitSync, and the reports of tasks that never ran. The
  handler contexts of Lifecycle.HandlerContext are here too. Asynchronous dispatch, slots
  and queue are in the theory \<^verbatim>\<open>Local_Dispatch\<close>.
\<close>

section \<open>The bus\<close>

record 'u named_handle =
  nh_Name :: string
  nh_Fn :: "ctx \<Rightarrow> event \<Rightarrow> ('u, error option) comp"

text \<open>
  A bus: its observer (None for NopObserver), publisher and invoker chain, the handler
  timeout, the cancellation source of the bus context, the identity of its Lifecycle,
  and where its Lifecycle and its handler table live in the user state.
\<close>

record 'u local_bus =
  lb_observer :: "nat option"
  lb_dlq :: "'u publisher option"
  lb_invoker :: "'u invoker"
  lb_handlerTimeout :: duration
  lb_source :: nat
  lb_marker :: nat
  lb_idGen :: "'u id_source option"
  lb_inherit :: "string list"
  lb_getLife :: "'u \<Rightarrow> lifecycle"
  lb_putLife :: "lifecycle \<Rightarrow> 'u \<Rightarrow> 'u"
  lb_getHandlers :: "'u \<Rightarrow> string \<Rightarrow> 'u named_handle list"
  lb_putHandlers :: "(string \<Rightarrow> 'u named_handle list) \<Rightarrow> 'u \<Rightarrow> 'u"

definition passthroughInvoker :: "'u invoker" where
  "passthroughInvoker c evt h fn = fn c"

interpretation passthrough: quiet_invoker passthroughInvoker
  by unfold_locales (simp add: passthroughInvoker_def quiet_handler_def)

definition life_of :: "'u local_bus \<Rightarrow> 'u world \<Rightarrow> lifecycle" where
  "life_of B w = lb_getLife B (w_user w)"

definition set_life :: "'u local_bus \<Rightarrow> lifecycle \<Rightarrow> 'u world \<Rightarrow> 'u world" where
  "set_life B l w = w\<lparr>w_user := lb_putLife B l (w_user w)\<rparr>"

definition LocalBus_Subscribe :: "'u local_bus \<Rightarrow> string \<Rightarrow> (ctx \<Rightarrow> event \<Rightarrow> ('u, error option) comp) \<Rightarrow>
    subscribe_option list \<Rightarrow> 'u world \<Rightarrow> error option \<times> 'u world" where
  "LocalBus_Subscribe B subject handler opts w =
     (if Closing (life_of B w) then (Some (Sentinel ErrBusClosed), w)
      else (let cfg = ApplyOptions opts;
                handlerName = (if so_HandlerName cfg = [] then subject else so_HandlerName cfg);
                hs = lb_getHandlers B (w_user w)
            in (None, w\<lparr>w_user := lb_putHandlers B
                 (hs(subject := hs subject @ [\<lparr>nh_Name = handlerName, nh_Fn = handler\<rparr>])) (w_user w)\<rparr>)))"

definition snapshot :: "'u local_bus \<Rightarrow> string \<Rightarrow> 'u world \<Rightarrow> 'u named_handle list" where
  "snapshot B subject w = lb_getHandlers B (w_user w) subject"

definition WithObserver :: "ctx \<Rightarrow> nat option \<Rightarrow> ctx" where
  "WithObserver c o' = c\<lparr>cx_observer := o'\<rparr>"

section \<open>Handler contexts\<close>

text \<open>
  HandlerContext of a Lifecycle, given the cancellation source of its bus context and its
  identity: a new source of its own, joined with the bus context and, unless detached, with
  the parent's sources. The returned stop function cancels it.
\<close>

definition lifecycle_context :: "nat \<Rightarrow> nat \<Rightarrow> ctx \<Rightarrow> bool \<Rightarrow> 'u world \<Rightarrow> (ctx \<times> nat) \<times> 'u world" where
  "lifecycle_context source marker parent detach w =
     ((parent\<lparr>cx_sources := w_next w # source # (if detach then [] else cx_sources parent),
              cx_lifecycle := Some marker\<rparr>, w_next w),
      w\<lparr>w_next := Suc (w_next w)\<rparr>)"

definition HandlerContext :: "'u local_bus \<Rightarrow> ctx \<Rightarrow> bool \<Rightarrow> 'u world \<Rightarrow> (ctx \<times> nat) \<times> 'u world" where
  "HandlerContext B = lifecycle_context (lb_source B) (lb_marker B)"

definition stop :: "nat \<Rightarrow> 'u world \<Rightarrow> 'u world" where
  "stop i = fire i (Sentinel Canceled) (Sentinel Canceled)"

definition Nested :: "'u local_bus \<Rightarrow> ctx \<Rightarrow> bool" where
  "Nested B c \<longleftrightarrow> cx_lifecycle c = Some (lb_marker B)"

text \<open>\<^verbatim>\<open>context.WithTimeoutCause\<close>: a timer source; it fires with DeadlineExceeded.\<close>

definition with_timeout :: "ctx \<Rightarrow> 'u world \<Rightarrow> (ctx \<times> nat) \<times> 'u world" where
  "with_timeout c w = ((c\<lparr>cx_sources := w_next w # cx_sources c\<rparr>, w_next w), w\<lparr>w_next := Suc (w_next w)\<rparr>)"

definition local_delivery :: "string \<Rightarrow> delivery" where
  "local_delivery subject = zero_delivery\<lparr>d_Count := 1, d_Max := 1, d_Subject := subject\<rparr>"

lemma Final_local_delivery [simp]: "Final (local_delivery subject)"
  by (simp add: Final_def local_delivery_def)

section \<open>execute\<close>

text \<open>What execute does with the error of the chain before it settles it.\<close>

definition wrap_timeout :: "ctx \<Rightarrow> error \<Rightarrow> 'u world \<Rightarrow> error" where
  "wrap_timeout hctx err w =
     (if (errors_Is err DeadlineExceeded \<or> errors_Is err Canceled) \<and> cause_is hctx w ErrHandlerTimeout
      then wrap2 (Sentinel ErrHandlerTimeout) err else err)"

text \<open>
  The contexts of one execution: the subscription context, joined with the bus, the
  handler context with its timeout on top, and the sources to stop at the end.
\<close>

definition execute_base :: "'u local_bus \<Rightarrow> ctx \<Rightarrow> bool \<Rightarrow> 'u world \<Rightarrow> (ctx \<times> ctx \<times> nat list) \<times> 'u world" where
  "execute_base B c async w0 =
     (case HandlerContext B c async w0 of ((subCtx, own), w1) \<Rightarrow>
        if async \<and> lb_handlerTimeout B > 0
        then (case with_timeout subCtx w1 of ((hc, t), w2) \<Rightarrow> ((subCtx, hc, [t, own]), w2))
        else ((subCtx, subCtx, [own]), w1))"

definition execute_ctx :: "'u local_bus \<Rightarrow> ctx \<Rightarrow> string \<Rightarrow> 'u named_handle \<Rightarrow> bool \<Rightarrow> 'u world \<Rightarrow>
    (ctx \<times> ctx \<times> nat list) \<times> 'u world" where
  "execute_ctx B c subject h async w0 =
     (case execute_base B c async w0 of ((subCtx, hc, stops), w2) \<Rightarrow>
        (let hc1 = WithObserver (WithExecution (WithDelivery hc (local_delivery subject))
                     \<lparr>x_Handler = nh_Name h, x_StartedAt = w_now w2\<rparr>) (lb_observer B)
         in case WithFailureScope hc1 w2 of ((hctx, _), w3) \<Rightarrow> ((hctx, subCtx, stops), w3)))"

text \<open>Settle a failed chain on a context detached from the timeout and the caller.\<close>

definition settle_failure :: "'u env \<Rightarrow> 'u local_bus \<Rightarrow> ctx \<Rightarrow> ctx \<Rightarrow> event \<Rightarrow> 'u named_handle \<Rightarrow> error \<Rightarrow>
    ('u, error option) comp" where
  "settle_failure E B hctx subCtx e h err0 w =
     (let err = the (WrapInterrupted subCtx (Some (wrap_timeout hctx err0 w)) w) in
      case HandlerContext B hctx True w of ((sctx, sown), w1) \<Rightarrow>
        (case Settle E sctx \<lparr>in_SubscriptionCtx = Some subCtx, in_Evt = Some e, in_Handler = nh_Name h,
                in_Err = Some err, in_Publisher = lb_dlq B\<rparr> w1 of
           (Panics v st, w2) \<Rightarrow> (Panics v st, stop sown w2)
         | (Ret s, w2) \<Rightarrow> (Ret (case s_Err s of Some x \<Rightarrow> Some x | None \<Rightarrow> Some err), stop sown w2)))"

definition execute :: "'u env \<Rightarrow> 'u local_bus \<Rightarrow> ctx \<Rightarrow> string \<Rightarrow> event \<Rightarrow> 'u named_handle \<Rightarrow> bool \<Rightarrow>
    ('u, error option) comp" where
  "execute E B c subject e h async w0 =
     (case execute_ctx B c subject h async w0 of ((hctx, subCtx, stops), w) \<Rightarrow>
       (case InvokeHandler hctx (Some (lb_invoker B)) e (nh_Name h) (\<lambda>c. nh_Fn h c e) w of
          (None, w1) \<Rightarrow> (Ret None, fold stop stops w1)
        | (Some err, w1) \<Rightarrow>
            (case settle_failure E B hctx subCtx e h err w1 of
               (r, w2) \<Rightarrow> (r, fold stop stops w2))))"

section \<open>Reports outside an execution\<close>

definition reportCtx :: "'u local_bus \<Rightarrow> ctx \<Rightarrow> string \<Rightarrow> 'u world \<Rightarrow> ctx \<times> 'u world" where
  "reportCtx B c subject w =
     (case WithFailureScope (WithObserver (WithDelivery c (local_delivery subject)) (lb_observer B)) w of
        ((c1, _), w1) \<Rightarrow> (c1, w1))"

definition unsettled_input :: "event \<Rightarrow> string \<Rightarrow> 'u settle_input" where
  "unsettled_input e handler = \<lparr>in_SubscriptionCtx = None, in_Evt = Some e, in_Handler = handler,
     in_Err = None, in_Publisher = None\<rparr>"

definition reject :: "'u env \<Rightarrow> 'u local_bus \<Rightarrow> ctx \<Rightarrow> string \<Rightarrow> event \<Rightarrow> error \<Rightarrow> 'u world \<Rightarrow> 'u world" where
  "reject E B c subject e err w =
     (case reportCtx B c subject w of (c1, w1) \<Rightarrow>
        reportUnsettled E c1 (unsettled_input e []) OutcomeRejected err w1)"

definition dropQueueFull :: "'u env \<Rightarrow> 'u local_bus \<Rightarrow> ctx \<Rightarrow> string \<Rightarrow> event \<Rightarrow> string \<Rightarrow> 'u world \<Rightarrow> 'u world" where
  "dropQueueFull E B c subject e handler w =
     (case reportCtx B c subject w of (c1, w1) \<Rightarrow>
        reportUnsettled E c1 (unsettled_input e handler) OutcomeDropped (Sentinel ErrQueueFull) w1)"

text \<open>The bus context.\<close>

definition bus_ctx :: "'u local_bus \<Rightarrow> ctx" where
  "bus_ctx B = Background\<lparr>cx_sources := [lb_source B]\<rparr>"

definition LocalBus_interrupted :: "'u env \<Rightarrow> 'u local_bus \<Rightarrow> ctx \<Rightarrow> string \<Rightarrow> event \<Rightarrow> string \<Rightarrow>
    ('u, unit) comp" where
  "LocalBus_interrupted E B c subject e handler w =
     (if ctx_Err (bus_ctx B) w = None then (Ret (), reject E B c subject e (Sentinel ErrBusClosed) w)
      else (case reportCtx B c subject w of (c1, w1) \<Rightarrow>
        (case Settle E c1 \<lparr>in_SubscriptionCtx = Some (bus_ctx B), in_Evt = Some e, in_Handler = handler,
                in_Err = WrapInterrupted (bus_ctx B) (Some (Sentinel Canceled)) w1,
                in_Publisher = lb_dlq B\<rparr> w1 of
           (Ret _, w2) \<Rightarrow> (Ret (), w2)
         | (Panics v st, w2) \<Rightarrow> (Panics v st, w2))))"

definition reportPanic :: "'u local_bus \<Rightarrow> ctx \<Rightarrow> string \<Rightarrow> string \<Rightarrow> string \<Rightarrow> string \<Rightarrow> 'u world \<Rightarrow> 'u world" where
  "reportPanic B c subject handler v st =
     emit (c\<lparr>cx_observer := lb_observer B\<rparr>) (InternalError
       \<lparr>ie_Component = ComponentTransport, ie_Op = OpPanic, ie_Handler = handler, ie_Subject = subject,
        ie_Err = Some (recoveredPanic v st)\<rparr>)"

definition guardReport :: "'u local_bus \<Rightarrow> ctx \<Rightarrow> string \<Rightarrow> string \<Rightarrow> ('u, unit) comp \<Rightarrow> 'u world \<Rightarrow> 'u world" where
  "guardReport B c subject handler report w =
     (case report w of (Ret _, w1) \<Rightarrow> w1 | (Panics v st, w1) \<Rightarrow> reportPanic B c subject handler v st w1)"

text \<open>runTask without its slot and release, which the dispatch machine accounts for.\<close>

definition runTask :: "'u env \<Rightarrow> 'u local_bus \<Rightarrow> ctx \<Rightarrow> string \<Rightarrow> event \<Rightarrow> 'u named_handle \<Rightarrow> 'u world \<Rightarrow> 'u world" where
  "runTask E B c subject e h w =
     (case execute E B c subject e h True w of
        (Ret _, w1) \<Rightarrow> w1
      | (Panics v st, w1) \<Rightarrow> reportPanic B c subject (nh_Name h) v st w1)"

section \<open>EmitSync\<close>

definition handled :: "error option \<Rightarrow> bool" where
  "handled rerr \<longleftrightarrow> (case rerr of None \<Rightarrow> True
     | Some err \<Rightarrow> errors_Is err ErrDeadLettered \<or> errors_Is err ErrDuplicate)"

fun emit_sync_loop :: "'u env \<Rightarrow> 'u local_bus \<Rightarrow> ctx \<Rightarrow> string \<Rightarrow> event \<Rightarrow> 'u named_handle list \<Rightarrow>
    error list \<Rightarrow> ('u, error list) comp" where
  "emit_sync_loop E B c subject e [] errs w = (Ret errs, w)"
| "emit_sync_loop E B c subject e (h # hs) errs w =
     (case ctx_Err c w of
        Some cerr \<Rightarrow> (Ret (errs @ [cerr]), w)
      | None \<Rightarrow>
          (case execute E B c subject e h False w of
             (Panics v st, w1) \<Rightarrow> (Panics v st, w1)
           | (Ret rerr, w1) \<Rightarrow>
               if handled rerr then emit_sync_loop E B c subject e hs errs w1
               else emit_sync_loop E B c subject e hs (errs @ [HandlerError (nh_Name h) rerr]) w1))"

text \<open>EmitSync returns the event with an error; a panic of Settle leaves after the release.\<close>

definition EmitSync :: "'u env \<Rightarrow> 'u id_source \<Rightarrow> 'u local_bus \<Rightarrow> ctx \<Rightarrow> event \<Rightarrow> 'u emit_option list \<Rightarrow>
    ('u, event \<times> error option) comp" where
  "EmitSync E NewID B ctx0 e opts w0 =
     (let cfg = (ApplyEmitOptions e opts)\<lparr>eo_IDGenerator := lb_idGen B, eo_InheritHeaders := lb_inherit B\<rparr> in
      case ResolveOutbound NewID ctx0 e cfg w0 of (md, w1) \<Rightarrow>
        (let c = WithObserver (WithMetadata ctx0 md) (lb_observer B);
             hList = snapshot B (eo_Subject cfg) w1
         in if hList = [] then (Ret (e, None), w1)
            else (case Admit (Nested B c) (life_of B w1) of
                Inl s \<Rightarrow> (Ret (e, Some (Sentinel s)), w1)
              | Inr l \<Rightarrow>
                  (case emit_sync_loop E B c (eo_Subject cfg) e hList [] (set_life B l w1) of
                     (Panics v st, w2) \<Rightarrow> (Panics v st, set_life B (release (life_of B w2)) w2)
                   | (Ret errs, w2) \<Rightarrow>
                       (Ret (e, errors_Join errs), set_life B (release (life_of B w2)) w2)))))"

section \<open>The report of an execution\<close>

lemma quiet_step_stop [simp]: "quiet_step sid w (stop i w)"
  by (simp add: stop_def)

lemma report_of_stop [simp]: "report_of sid (stop i w) = report_of sid w"
  by (rule report_of_quiet) simp

lemma report_of_stops [simp]: "report_of sid (fold stop is w) = report_of sid w"
  by (induction "is" arbitrary: w) simp_all

lemma execute_ctx_props:
  assumes ok: "world_ok w0" and run: "execute_ctx B c subject h async w0 = ((hctx, subCtx, stops), w)"
  obtains sid where "cx_scope hctx = Some sid" "sid < w_next w" "w_next w0 \<le> sid"
    "report_of sid w = clean_report" "cx_observer hctx = lb_observer B"
    "delivery_of hctx = local_delivery subject"
proof -
  obtain sc hc st w2 where base: "execute_base B c async w0 = ((sc, hc, st), w2)" by (metis prod.collapse)
  have tr: "w_trace w2 = w_trace w0" "w_next w0 \<le> w_next w2"
    using base by (auto simp: execute_base_def HandlerContext_def lifecycle_context_def with_timeout_def split: if_splits)
  obtain sid where wf: "WithFailureScope (WithObserver (WithExecution (WithDelivery hc (local_delivery subject))
      \<lparr>x_Handler = nh_Name h, x_StartedAt = w_now w2\<rparr>) (lb_observer B)) w2 = ((hctx, sid), w)"
    using run by (auto simp: execute_ctx_def base Let_def split: prod.splits)
  have "cx_observer hctx = lb_observer B" "delivery_of hctx = local_delivery subject"
    using wf by (auto simp: WithFailureScope_def alloc_scope_def WithObserver_def delivery_of_def
        DeliveryFromContext_def WithExecution_def WithDelivery_def)
  with fresh_clean[OF ok tr wf] show thesis by (intro that[of sid]) auto
qed

lemma HandlerContext_props:
  assumes "HandlerContext B p detach w = ((c, own), w')"
  shows "cx_scope c = cx_scope p" "cx_observer c = cx_observer p" "delivery_of c = delivery_of p"
    "quiet_step sid w w'"
  using assms by (auto simp: HandlerContext_def lifecycle_context_def quiet_step_def delivery_of_def DeliveryFromContext_def)

definition bus_observed :: "'u local_bus \<Rightarrow> nat" where
  "bus_observed B = (if lb_observer B = None then 0 else 1)"

definition quiet_bus :: "'u env \<Rightarrow> 'u local_bus \<Rightarrow> bool" where
  "quiet_bus E B \<longleftrightarrow> quiet_runtime E \<and> quiet_invoker (lb_invoker B)
     \<and> quiet_dlq (lb_dlq B)"

definition quiet_named :: "event \<Rightarrow> 'u named_handle \<Rightarrow> bool" where
  "quiet_named e h \<longleftrightarrow> (\<forall>sid. quiet_handler sid (\<lambda>c. nh_Fn h c e))"

lemma execute_report:
  assumes ok: "world_ok w0" and B: "quiet_bus E B" and h: "quiet_named e h"
    and run: "execute E B c subject e h async w0 = (r, w')"
  obtains sid where "w_next w0 \<le> sid" "rp_dones (report_of sid w') = bus_observed B"
    "r = Ret None \<Longrightarrow> rp_failures (report_of sid w') = 0"
    "\<And>err. r = Ret (Some err) \<Longrightarrow>
       rp_failures (report_of sid w') = bus_observed B \<or> errors_Is err ErrDuplicate \<and> rp_failures (report_of sid w') = 0"
proof -
  obtain hctx subCtx stops w where cx: "execute_ctx B c subject h async w0 = ((hctx, subCtx, stops), w)"
    by (metis prod.collapse)
  obtain sid where sid: "cx_scope hctx = Some sid" "sid < w_next w" "w_next w0 \<le> sid"
    "report_of sid w = clean_report" "cx_observer hctx = lb_observer B"
    "delivery_of hctx = local_delivery subject"
    by (rule execute_ctx_props[OF ok cx])
  have obs: "observed hctx = bus_observed B" by (simp add: observed_def bus_observed_def sid(5))
  obtain err w1 where ih: "InvokeHandler hctx (Some (lb_invoker B)) e (nh_Name h) (\<lambda>c. nh_Fn h c e) w = (err, w1)"
    by fastforce
  have iv: "quiet_chain (Some (lb_invoker B))" using B by (simp add: quiet_bus_def)
  have fn: "quiet_handler sid (\<lambda>c. nh_Fn h c e)" using h by (simp add: quiet_named_def)
  have E: "quiet_env sid E" using B by (simp add: quiet_bus_def quiet_runtime_def)
  note del = delivery_report[OF sid(1, 2, 4) iv fn ih]
  show thesis
  proof (cases err)
    case None
    then have w': "report_of sid w' = report_of sid w1" and r: "r = Ret None"
      using run cx ih by (auto simp: execute_def)
    have settle: "Settle E hctx (unsettled_input e []) w1 = (Ret (zero_settlement\<lparr>s_Disposition := DispositionAck\<rparr>), w1)"
      by (simp add: Settle_def unsettled_input_def)
    have "rp_dones (report_of sid w1) = bus_observed B" "rp_failures (report_of sid w1) = 0"
      using del[OF quiet_step_refl[of sid w1] sid(1) refl E _ _ settle] None
      by (simp_all add: unsettled_input_def obs settle_reported_def)
    then show thesis using sid(3) r by (intro that[of sid]) (simp_all add: w')
  next
    case (Some err0)
    then obtain w2 where sf: "settle_failure E B hctx subCtx e h err0 w1 = (r, w2)" and
      w': "report_of sid w' = report_of sid w2"
      using run cx ih by (auto simp: execute_def split: prod.splits)
    define err1 where "err1 = the (WrapInterrupted subCtx (Some (wrap_timeout hctx err0 w1)) w1)"
    obtain sctx sown w3 where hc: "HandlerContext B hctx True w1 = ((sctx, sown), w3)" by (metis prod.collapse)
    note hp = HandlerContext_props[OF hc]
    let ?inp = "\<lparr>in_SubscriptionCtx = Some subCtx, in_Evt = Some e, in_Handler = nh_Name h,
      in_Err = Some err1, in_Publisher = lb_dlq B\<rparr>"
    obtain rs w4 where st: "Settle E sctx ?inp w3 = (rs, w4)" by fastforce
    have r: "case rs of Panics v s \<Rightarrow> r = Panics v s
        | Ret s \<Rightarrow> r = Ret (case s_Err s of Some x \<Rightarrow> Some x | None \<Rightarrow> Some err1)"
      and w24: "report_of sid w2 = report_of sid w4"
      using sf hc st by (auto simp: settle_failure_def Let_def err1_def split: result.splits option.splits)
    have pub: "quiet_dlq (in_Publisher ?inp)" using B by (simp add: quiet_bus_def)
    have fin: "Final (delivery_of sctx)" by (simp add: hp(3) sid(6))
    have dn: "rp_dones (report_of sid w') = bus_observed B"
      and fl: "rp_failures (report_of sid w') = (if settle_reported rs then bus_observed B else 0)"
      using del[OF hp(4) _ hp(2) E pub _ st] sid(1) hp(1) Some by (simp_all add: w' w24 obs)
    have dup: "errors_Is err ErrDuplicate" if "r = Ret (Some err)" "\<not> settle_reported rs" for err
    proof -
      from that r obtain s where s: "rs = Ret s" "s_Outcome s = OutcomeNone"
        by (cases rs) (auto simp: settle_reported_def)
      from settle_final_reports[OF st[unfolded s(1)] _ fin] s(2) have d1: "errors_Is err1 ErrDuplicate" by auto
      obtain w5 where b: "settle_body E sctx ?inp err1 w3 = (Ret s, w5)"
        using Settle_Ret[OF st[unfolded s(1)]] by auto
      have "s_Err s = None"
        using b s(2) fin d1 by (auto simp: settle_body_def settle_terminal_def Let_def Dispose_cases
            split: if_splits Disposition.splits option.splits prod.splits result.splits)
      with r s that(1) d1 show ?thesis by simp
    qed
    show thesis
    proof (rule that[of sid])
      show "w_next w0 \<le> sid" by (rule sid(3))
      show "rp_dones (report_of sid w') = bus_observed B" by (rule dn)
      show "r = Ret None \<Longrightarrow> rp_failures (report_of sid w') = 0"
        using r by (auto split: result.splits option.splits)
      show "rp_failures (report_of sid w') = bus_observed B
          \<or> errors_Is err ErrDuplicate \<and> rp_failures (report_of sid w') = 0" if "r = Ret (Some err)" for err
        using fl dup[OF that] by auto
    qed
  qed
qed

section \<open>Properties\<close>

text \<open>
  A handler run of the local bus ends in exactly one report. Whatever the invoker chain,
  the handler, the publisher and OnErr do (panics included), the observer of the bus gets one
  HandlerDone for the execution, on the FailureScope made for it; a success gets no Failure,
  and an error gets exactly one Failure unless it is a duplicate. The local bus never
  redelivers, so this is the end of the message.
\<close>

lemma local_execution_reported:
  assumes "world_ok w0" and "quiet_bus E B" and "quiet_named e h" and "lb_observer B = Some ob"
    and "execute E B c subject e h async w0 = (r, w')"
  shows "\<exists>sid \<ge> w_next w0. count_if (done_on sid) (w_trace w') = 1
    \<and> (r = Ret None \<longrightarrow> count_if (failure_on sid) (w_trace w') = 0)
    \<and> (\<forall>err. r = Ret (Some err) \<longrightarrow> count_if (failure_on sid) (w_trace w') = 1
          \<or> errors_Is err ErrDuplicate \<and> count_if (failure_on sid) (w_trace w') = 0)"
proof (rule execute_report[OF assms(1-3,5)])
  fix sid
  assume "w_next w0 \<le> sid" "rp_dones (report_of sid w') = bus_observed B"
    "r = Ret None \<Longrightarrow> rp_failures (report_of sid w') = 0"
    "\<And>err. r = Ret (Some err) \<Longrightarrow>
       rp_failures (report_of sid w') = bus_observed B \<or> errors_Is err ErrDuplicate \<and> rp_failures (report_of sid w') = 0"
  with assms(4) show ?thesis by (intro exI[of _ sid]) (simp add: report_of_def bus_observed_def)
qed

definition sample_bus :: "lifecycle local_bus" where
  "sample_bus = \<lparr>lb_observer = Some 7, lb_dlq = None, lb_invoker = passthroughInvoker, lb_handlerTimeout = 0,
     lb_source = 0, lb_marker = 0, lb_idGen = None, lb_inherit = [], lb_getLife = (\<lambda>u. u),
     lb_putLife = (\<lambda>l _. l), lb_getHandlers = (\<lambda>_ _. []), lb_putHandlers = (\<lambda>_ u. u)\<rparr>"

definition sample_named :: "'u handler \<Rightarrow> 'u named_handle" where
  "sample_named fn = \<lparr>nh_Name = ''h'', nh_Fn = (\<lambda>c _. fn c)\<rparr>"

lemma quiet_sample_bus [simp]: "quiet_bus timer_env sample_bus"
  by (simp add: quiet_bus_def sample_bus_def passthrough.quiet_invoker_axioms timers.quiet_runtime_axioms)

lemma quiet_sample_named [simp]: "(\<And>sid. quiet_handler sid fn) \<Longrightarrow> quiet_named e (sample_named fn)"
  by (simp add: quiet_named_def sample_named_def)

end
