(* ===== verification/Local_Dispatch.thy ===== *)
theory Local_Dispatch
  imports Local_Bus
begin

text \<open>
  Asynchronous dispatch of the local bus (local-bus.go: Emit, dispatchAsync, runTask) as a
  machine of tasks that share the execution slots and the queue. A task is one handler of one
  emit, between Track and release. Every channel operation is a step of its own, so the
  machine has the interleavings of any number of emitters and handlers.
\<close>

section \<open>Definitions\<close>

datatype OverflowPolicy = OverflowBlock | OverflowUnbounded | OverflowDrop

record dispatch_config =
  dc_MaxConcurrent :: nat
  dc_QueueSize :: nat
  dc_Overflow :: OverflowPolicy

definition DefaultMaxConcurrent :: int where "DefaultMaxConcurrent = 16"
definition DefaultQueueSize :: int where "DefaultQueueSize = 1024"

text \<open>The capacities of the two channels NewLocalBus makes.\<close>

definition NewLocalBus_dispatch :: "int \<Rightarrow> int \<Rightarrow> OverflowPolicy \<Rightarrow> dispatch_config" where
  "NewLocalBus_dispatch maxConcurrent queueSize overflow =
     \<lparr>dc_MaxConcurrent = nat (if maxConcurrent \<le> 0 then DefaultMaxConcurrent else maxConcurrent),
      dc_QueueSize = nat (if queueSize \<le> 0 then DefaultQueueSize else queueSize),
      dc_Overflow = overflow\<rparr>"

text \<open>
  Where a task is: tracked, before the first select (with what Nested answers); past it
  without a slot; waiting for queue room; parked, with or without a queue token; holding a
  slot while it gives its token back; running, with a slot or inline.
\<close>

datatype phase = Tracked bool | NoSlot | Waiting | Parked bool | Slotted bool | Running bool

text \<open>The first select of dispatchAsync and the inline run of a nested emit.\<close>

definition select_slot :: "dispatch_config \<Rightarrow> bool \<Rightarrow> nat \<Rightarrow> phase \<times> nat" where
  "select_slot cfg nested exec =
     (if exec < dc_MaxConcurrent cfg then (Running True, Suc exec)
      else if nested then (Running False, exec) else (NoSlot, exec))"

text \<open>The overflow switch; no phase is the report of a full queue.\<close>

definition overflow_switch :: "dispatch_config \<Rightarrow> nat \<Rightarrow> phase option \<times> nat" where
  "overflow_switch cfg pending = (case dc_Overflow cfg of
     OverflowDrop \<Rightarrow> if pending < dc_QueueSize cfg then (Some (Parked True), Suc pending) else (None, pending)
   | OverflowBlock \<Rightarrow> if pending < dc_QueueSize cfg then (Some (Parked True), Suc pending) else (Some Waiting, pending)
   | OverflowUnbounded \<Rightarrow> (Some (Parked False), pending))"

text \<open>
  A parked task that got its slot returns its token and looks at the bus context: it runs, or
  gives the slot back and is handed back as interrupted (no phase).
\<close>

definition leave_queue :: "bool \<Rightarrow> bool \<Rightarrow> nat \<Rightarrow> nat \<Rightarrow> phase option \<times> nat \<times> nat" where
  "leave_queue cancelled parked exec pending =
     (let pending' = (if parked then pending - 1 else pending) in
      if cancelled then (None, exec - 1, pending') else (Some (Running True), exec, pending'))"

section \<open>The machine\<close>

record dispatch =
  ds_life :: lifecycle
  ds_emits :: nat
  ds_tasks :: "phase multiset"
  ds_exec :: nat
  ds_pending :: nat
  ds_tracked :: nat
  ds_ran :: nat
  ds_dropped :: nat
  ds_interrupted :: nat

definition dispatch_init :: dispatch where
  "dispatch_init = \<lparr>ds_life = zero_lifecycle, ds_emits = 0, ds_tasks = {#}, ds_exec = 0, ds_pending = 0,
     ds_tracked = 0, ds_ran = 0, ds_dropped = 0, ds_interrupted = 0\<rparr>"

text \<open>A task leaves the bus: it is released.\<close>

definition leave :: "phase multiset \<Rightarrow> dispatch \<Rightarrow> dispatch" where
  "leave M s = s\<lparr>ds_tasks := M, ds_life := release (ds_life s)\<rparr>"

text \<open>The steps of the tasks themselves.\<close>

inductive task_step :: "dispatch_config \<Rightarrow> dispatch \<Rightarrow> dispatch \<Rightarrow> bool" for cfg where
  slot: "ds_tasks s = add_mset (Tracked n) M \<Longrightarrow> select_slot cfg n (ds_exec s) = (p, e) \<Longrightarrow>
    task_step cfg s (s\<lparr>ds_tasks := add_mset p M, ds_exec := e\<rparr>)"
| overflow: "ds_tasks s = add_mset NoSlot M \<Longrightarrow> overflow_switch cfg (ds_pending s) = (Some p, q) \<Longrightarrow>
    task_step cfg s (s\<lparr>ds_tasks := add_mset p M, ds_pending := q\<rparr>)"
| full: "ds_tasks s = add_mset NoSlot M \<Longrightarrow> overflow_switch cfg (ds_pending s) = (None, q) \<Longrightarrow>
    task_step cfg s ((leave M s)\<lparr>ds_pending := q, ds_dropped := Suc (ds_dropped s)\<rparr>)"
| room: "ds_tasks s = add_mset Waiting M \<Longrightarrow> ds_pending s < dc_QueueSize cfg \<Longrightarrow>
    task_step cfg s (s\<lparr>ds_tasks := add_mset (Parked True) M, ds_pending := Suc (ds_pending s)\<rparr>)"
| waiting_interrupted: "ds_tasks s = add_mset Waiting M \<Longrightarrow> l_cancelled (ds_life s) \<Longrightarrow>
    task_step cfg s ((leave M s)\<lparr>ds_interrupted := Suc (ds_interrupted s)\<rparr>)"
| acquire: "ds_tasks s = add_mset (Parked b) M \<Longrightarrow> ds_exec s < dc_MaxConcurrent cfg \<Longrightarrow>
    task_step cfg s (s\<lparr>ds_tasks := add_mset (Slotted b) M, ds_exec := Suc (ds_exec s)\<rparr>)"
| parked_interrupted: "ds_tasks s = add_mset (Parked b) M \<Longrightarrow> l_cancelled (ds_life s) \<Longrightarrow>
    task_step cfg s ((leave M s)\<lparr>ds_pending := (if b then ds_pending s - 1 else ds_pending s),
      ds_interrupted := Suc (ds_interrupted s)\<rparr>)"
| start: "ds_tasks s = add_mset (Slotted b) M \<Longrightarrow>
    leave_queue (l_cancelled (ds_life s)) b (ds_exec s) (ds_pending s) = (Some p, e, q) \<Longrightarrow>
    task_step cfg s (s\<lparr>ds_tasks := add_mset p M, ds_exec := e, ds_pending := q\<rparr>)"
| slotted_interrupted: "ds_tasks s = add_mset (Slotted b) M \<Longrightarrow>
    leave_queue (l_cancelled (ds_life s)) b (ds_exec s) (ds_pending s) = (None, e, q) \<Longrightarrow>
    task_step cfg s ((leave M s)\<lparr>ds_exec := e, ds_pending := q, ds_interrupted := Suc (ds_interrupted s)\<rparr>)"
| finish: "ds_tasks s = add_mset (Running b) M \<Longrightarrow>
    task_step cfg s ((leave M s)\<lparr>ds_exec := (if b then ds_exec s - 1 else ds_exec s), ds_ran := Suc (ds_ran s)\<rparr>)"

text \<open>
  The steps of the emitters: an admitted emit and its end, a handler of an admitted emit that is
  tracked, and an emitter that gives up waiting. Local_Shutdown composes both with the shutdown.
\<close>

inductive emit_step :: "dispatch \<Rightarrow> dispatch \<Rightarrow> bool" where
  emit: "Admit n (ds_life s) = Inr l \<Longrightarrow> emit_step s (s\<lparr>ds_life := l, ds_emits := Suc (ds_emits s)\<rparr>)"
| emit_end: "0 < ds_emits s \<Longrightarrow> emit_step s (s\<lparr>ds_life := release (ds_life s), ds_emits := ds_emits s - 1\<rparr>)"
| track: "0 < ds_emits s \<Longrightarrow> Track (ds_life s) = Some l \<Longrightarrow>
    emit_step s (s\<lparr>ds_life := l, ds_tasks := add_mset (Tracked n) (ds_tasks s), ds_tracked := Suc (ds_tracked s)\<rparr>)"
| give_up: "ds_tasks s = add_mset Waiting M \<Longrightarrow> emit_step s ((leave M s)\<lparr>ds_dropped := Suc (ds_dropped s)\<rparr>)"

section \<open>The invariant\<close>

fun has_slot :: "phase \<Rightarrow> bool" where
  "has_slot (Running b) = b" | "has_slot (Slotted b) = True" | "has_slot _ = False"

fun has_token :: "phase \<Rightarrow> bool" where
  "has_token (Parked b) = b" | "has_token (Slotted b) = b" | "has_token _ = False"

definition channels_ok :: "dispatch_config \<Rightarrow> dispatch \<Rightarrow> bool" where
  "channels_ok cfg s \<longleftrightarrow> ds_exec s = size (filter_mset has_slot (ds_tasks s)) \<and> ds_exec s \<le> dc_MaxConcurrent cfg
     \<and> ds_pending s = size (filter_mset has_token (ds_tasks s)) \<and> ds_pending s \<le> dc_QueueSize cfg"

definition tasks_ok :: "dispatch \<Rightarrow> bool" where
  "tasks_ok s \<longleftrightarrow> l_inflight (ds_life s) = int (ds_emits s + size (ds_tasks s))
     \<and> ds_tracked s = size (ds_tasks s) + ds_ran s + ds_dropped s + ds_interrupted s"

lemmas dispatch_op_defs = select_slot_def overflow_switch_def leave_queue_def leave_def Let_def

lemma inflight_release [simp]: "l_inflight (release l) = l_inflight l - 1"
  by (simp add: release_def Let_def)

lemma channels_task: "task_step cfg s s' \<Longrightarrow> channels_ok cfg s \<Longrightarrow> channels_ok cfg s'"
  by (induction rule: task_step.induct)
    (auto simp: channels_ok_def dispatch_op_defs split: if_splits OverflowPolicy.splits)

lemma tasks_task: "task_step cfg s s' \<Longrightarrow> tasks_ok s \<Longrightarrow> tasks_ok s'"
  by (induction rule: task_step.induct) (auto simp: tasks_ok_def leave_def)

lemma channels_emit: "emit_step s s' \<Longrightarrow> channels_ok cfg s \<Longrightarrow> channels_ok cfg s'"
  by (induction rule: emit_step.induct) (auto simp: channels_ok_def leave_def)

lemma tasks_emit: "emit_step s s' \<Longrightarrow> tasks_ok s \<Longrightarrow> tasks_ok s'"
  by (induction rule: emit_step.induct) (auto simp: tasks_ok_def leave_def Admit_def Track_def split: if_splits)

text \<open>What the Lifecycle does besides counting is not the concern of the channels and tasks.\<close>

lemma dispatch_ok_life [simp]:
  "channels_ok cfg (s\<lparr>ds_life := l\<rparr>) \<longleftrightarrow> channels_ok cfg s"
  "l_inflight l = l_inflight (ds_life s) \<Longrightarrow> tasks_ok (s\<lparr>ds_life := l\<rparr>) \<longleftrightarrow> tasks_ok s"
  by (simp_all add: channels_ok_def tasks_ok_def)

section \<open>Progress\<close>

fun phase_rank :: "phase \<Rightarrow> nat" where
  "phase_rank (Tracked _) = 6" | "phase_rank NoSlot = 5" | "phase_rank Waiting = 4"
| "phase_rank (Parked _) = 3" | "phase_rank (Slotted _) = 2" | "phase_rank (Running _) = 1"

definition work_left :: "dispatch \<Rightarrow> nat" where
  "work_left s = (\<Sum>p \<in># ds_tasks s. phase_rank p)"

lemma task_step_work: "task_step cfg s s' \<Longrightarrow> work_left s' < work_left s"
  by (induction rule: task_step.induct)
    (auto simp: work_left_def dispatch_op_defs split: if_splits OverflowPolicy.splits)

lemma filter_size_pos: "0 < size (filter_mset P M) \<Longrightarrow> \<exists>x. x \<in># M \<and> P x"
proof -
  assume "0 < size (filter_mset P M)"
  then have "filter_mset P M \<noteq> {#}" by (simp only: nonempty_has_size)
  then obtain x where "x \<in># filter_mset P M" by (rule multiset_nonemptyE)
  then show ?thesis by auto
qed

text \<open>A task that holds a slot can always move; the others move, or wait for one that does.\<close>

lemma holder_moves: "p \<in># ds_tasks s \<Longrightarrow> has_slot p \<Longrightarrow> \<exists>s'. task_step cfg s s'"
proof (cases p)
  case (Slotted b)
  assume "p \<in># ds_tasks s"
  with Slotted obtain M where M: "ds_tasks s = add_mset (Slotted b) M" by (metis insert_DiffM)
  show ?thesis
    by (cases "leave_queue (l_cancelled (ds_life s)) b (ds_exec s) (ds_pending s)")
      (metis M option.exhaust task_step.start task_step.slotted_interrupted)
next
  case (Running b)
  assume "p \<in># ds_tasks s"
  with Running show ?thesis by (metis insert_DiffM task_step.finish)
qed simp_all

lemma slot_moves:
  assumes "channels_ok cfg s" and "0 < dc_MaxConcurrent cfg" and "Parked b \<in># ds_tasks s"
  shows "\<exists>s'. task_step cfg s s'"
proof (cases "ds_exec s < dc_MaxConcurrent cfg")
  case True
  with assms(3) show ?thesis by (metis insert_DiffM task_step.acquire)
next
  case False
  with assms(1, 2) have "0 < size (filter_mset has_slot (ds_tasks s))" by (simp add: channels_ok_def)
  then obtain p where "p \<in># ds_tasks s" "has_slot p" by (metis filter_size_pos)
  then show ?thesis by (rule holder_moves)
qed

lemma waiting_moves:
  assumes "channels_ok cfg s" and "0 < dc_MaxConcurrent cfg" and "0 < dc_QueueSize cfg" and "Waiting \<in># ds_tasks s"
  shows "\<exists>s'. task_step cfg s s'"
proof (cases "ds_pending s < dc_QueueSize cfg")
  case True
  with assms(4) show ?thesis by (metis insert_DiffM task_step.room)
next
  case False
  with assms(1, 3) have "0 < size (filter_mset has_token (ds_tasks s))" by (simp add: channels_ok_def)
  then obtain p where p: "p \<in># ds_tasks s" "has_token p" by (metis filter_size_pos)
  then show ?thesis
    by (cases p) (auto intro: slot_moves[OF assms(1, 2)] holder_moves)
qed

lemma task_progress:
  assumes "channels_ok cfg s" and "0 < dc_MaxConcurrent cfg" and "0 < dc_QueueSize cfg" and "ds_tasks s \<noteq> {#}"
  shows "\<exists>s'. task_step cfg s s'"
proof -
  obtain p where p: "p \<in># ds_tasks s" using assms(4) by (metis multiset_nonemptyE)
  then obtain M where M: "ds_tasks s = add_mset p M" by (metis insert_DiffM)
  show ?thesis
  proof (cases p)
    case (Tracked n)
    with M show ?thesis by (metis surj_pair task_step.slot)
  next
    case NoSlot
    then show ?thesis
      using task_step.overflow[of s M cfg] task_step.full[of s M cfg] M
      by (cases "overflow_switch cfg (ds_pending s)") (metis option.exhaust)
  qed (use p in \<open>auto intro: waiting_moves[OF assms(1-3)] slot_moves[OF assms(1,2)]
        holder_moves\<close>, metis M task_step.finish)
qed

lemma drain:
  assumes "channels_ok cfg s" and "0 < dc_MaxConcurrent cfg" and "0 < dc_QueueSize cfg"
  shows "\<exists>s'. (task_step cfg)\<^sup>*\<^sup>* s s' \<and> ds_tasks s' = {#}"
  using assms
proof (induction "work_left s" arbitrary: s rule: less_induct)
  case less
  show ?case
  proof (cases "ds_tasks s = {#}")
    case False
    with less.prems obtain s1 where s1: "task_step cfg s s1" using task_progress by blast
    with less.hyps[OF task_step_work[OF s1]] channels_task[OF s1] less.prems show ?thesis
      by (meson converse_rtranclp_into_rtranclp)
  qed auto
qed

section \<open>Properties\<close>

lemma NewLocalBus_pos [simp]:
  "0 < dc_MaxConcurrent (NewLocalBus_dispatch m q ov)" "0 < dc_QueueSize (NewLocalBus_dispatch m q ov)"
  by (simp_all add: NewLocalBus_dispatch_def DefaultMaxConcurrent_def DefaultQueueSize_def)

lemma task_steps_bounded: "(task_step cfg ^^ n) s s' \<Longrightarrow> n + work_left s' \<le> work_left s"
proof (induction n arbitrary: s')
  case (Suc n)
  then obtain t where "(task_step cfg ^^ n) s t" "task_step cfg t s'" by auto
  with Suc.IH[of t] task_step_work[of cfg t s'] show ?case by simp
qed simp

end
