(* ===== verification/Log_Observer.thy ===== *)
theory Log_Observer
  imports Dead_Letter "HOL-Library.AList"
begin

text \<open>
  The log observer (slog_observer.go), the default observer of every bus: the record each
  signal is logged as, and the deduplication of records in windows. The critical sections of
  record, flushKey and Flush are functions on the table of entries; a step relation
  interleaves them with the window timers and the clock. The properties show that no signal is
  lost, that the table is bounded, and how often one series is logged.
\<close>

section \<open>Records\<close>

datatype log_level = LevelDebug | LevelInfo | LevelWarn | LevelError

datatype attr_value = VString string | VInt int | VBool bool | VDuration duration | VUint64 "64 word"

type_synonym attr = "string \<times> attr_value"

record soKey =
  k_signal :: string
  k_handler :: string
  k_outcome :: string
  k_reason :: string

definition soOpt :: "attr list \<Rightarrow> string \<Rightarrow> string \<Rightarrow> attr list" where
  "soOpt attrs key v = (if v = [] then attrs else attrs @ [(key, VString v)])"

fun breaker_text :: "BreakerState \<Rightarrow> string" where
  "breaker_text BreakerUnknown = []"
| "breaker_text BreakerClosed = ''closed''"
| "breaker_text BreakerOpen = ''open''"
| "breaker_text BreakerHalfOpen = ''half_open''"

fun breaker_reason_text :: "BreakerReason \<Rightarrow> string" where
  "breaker_reason_text BreakerReasonFailureThreshold = ''failure_threshold''"
| "breaker_reason_text BreakerReasonOpenTimeoutElapsed = ''open_timeout_elapsed''"
| "breaker_reason_text BreakerReasonProbeSucceeded = ''probe_succeeded''"
| "breaker_reason_text BreakerReasonProbeFailed = ''probe_failed''"

fun invoker_text :: "FailingInvoker \<Rightarrow> string" where
  "invoker_text InvokerRetry = ''retry''"
| "invoker_text InvokerCircuitBreaker = ''circuit_breaker''"
| "invoker_text InvokerDLQ = ''dlq''"
| "invoker_text InvokerTransport = ''transport''"

fun component_text :: "Component \<Rightarrow> string" where
  "component_text ComponentTransport = ''transport''"
| "component_text ComponentCircuitBreaker = ''circuit_breaker''"
| "component_text ComponentEvent = ''event''"

fun op_text :: "Op \<Rightarrow> string" where
  "op_text OpConsume = ''consume''" | "op_text OpAck = ''ack''" | "op_text OpNak = ''nak''"
| "op_text OpTerm = ''term''" | "op_text OpReply = ''reply''" | "op_text OpEncodeReply = ''encode_reply''"
| "op_text OpPanic = ''panic''" | "op_text OpUnsubscribe = ''unsubscribe''" | "op_text OpDrain = ''drain''"

text \<open>A signal is not logged, logged as it is, or logged as a record of a deduplicated series.\<close>

datatype slog_call = NoLog | Direct log_level string "attr list" | Dedup soKey log_level string "attr list"

definition err_attr :: "error option \<Rightarrow> attr list" where
  "err_attr e = (case e of None \<Rightarrow> [] | Some err \<Rightarrow> [(''err'', VString (Error_text err))])"

definition stack_attr :: "error option \<Rightarrow> attr list" where
  "stack_attr e = (if panic_stack e \<noteq> [] then [(''stack'', VString (panic_stack e))] else [])"

definition so_Failure :: "failure_context \<Rightarrow> slog_call" where
  "so_Failure f =
     (let level = (if (case fc_Cause f of None \<Rightarrow> False | Some e \<Rightarrow> errors_Is e ErrDeadLettered) \<or> fc_Outcome f = OutcomeRejected
                   then LevelWarn else LevelError);
          a1 = [(''outcome'', VString (outcome_text (fc_Outcome f))), (''reason'', VString (fc_Reason f)),
                (''handler'', VString (fc_Handler f))];
          a2 = a1 @ (case fc_Event f of None \<Rightarrow> [] | Some e \<Rightarrow> [(''event'', VString (ev_Name e))]);
          a3 = soOpt a2 ''event_id'' (case fc_Metadata f of None \<Rightarrow> [] | Some md \<Rightarrow> md_ID md);
          a4 = soOpt a3 ''correlation_id'' (case fc_Metadata f of None \<Rightarrow> [] | Some md \<Rightarrow> md_CorrelationID md);
          a5 = a4 @ [(''attempts'', VInt (fc_Attempts f)), (''delivery_count'', VInt (d_Count (fc_Delivery f))),
                (''max_deliver'', VInt (d_Max (fc_Delivery f))), (''subject'', VString (d_Subject (fc_Delivery f))),
                (''invoker'', VString (invoker_text (fc_Invoker f)))];
          a6 = soOpt a5 ''breaker'' (breaker_text (fc_Breaker f));
          a7 = a6 @ [(''history_len'', VInt (int (length (fc_History f))))]
      in Dedup \<lparr>k_signal = ''failure'', k_handler = fc_Handler f, k_outcome = outcome_text (fc_Outcome f), k_reason = fc_Reason f\<rparr>
           level ''eventbus: message failed'' (a7 @ err_attr (fc_Cause f) @ stack_attr (fc_Cause f)))"

definition so_DeadLettered :: "dead_letter_info \<Rightarrow> slog_call" where
  "so_DeadLettered i = Dedup \<lparr>k_signal = ''dead_lettered'', k_handler = dl_Handler i, k_outcome = [], k_reason = dl_Reason i\<rparr>
     LevelInfo ''eventbus: message dead-lettered''
     [(''handler'', VString (dl_Handler i)), (''event'', VString (dl_Event i)), (''reason'', VString (dl_Reason i)),
      (''subject'', VString (dl_Subject i)), (''attempts'', VInt (dl_Attempts i)),
      (''delivery_count'', VInt (d_Count (dl_Delivery i))), (''size'', VInt (int (dl_Size i)))]"

definition so_DecodeFailed :: "decode_failure \<Rightarrow> slog_call" where
  "so_DecodeFailed f = Dedup \<lparr>k_signal = ''decode_failed'', k_handler = df_Handler f, k_outcome = [], k_reason = df_Reason f\<rparr>
     LevelWarn ''eventbus: decode failed''
     ([(''handler'', VString (df_Handler f)), (''subject'', VString (df_Subject f)), (''reason'', VString (df_Reason f)),
       (''delivery_count'', VInt (d_Count (df_Delivery f))), (''final'', VBool (df_Final f))] @ err_attr (df_Err f))"

definition so_DLQPublishFailed :: "dlq_publish_failure \<Rightarrow> slog_call" where
  "so_DLQPublishFailed f = Dedup \<lparr>k_signal = ''dlq_publish_failed'', k_handler = pf_Handler f, k_outcome = [], k_reason = pf_Reason f\<rparr>
     LevelError ''eventbus: dead-letter publish failed''
     ([(''handler'', VString (pf_Handler f)), (''event'', VString (pf_Event f)), (''reason'', VString (pf_Reason f)),
       (''subject'', VString (pf_Subject f)), (''attempts'', VInt (pf_Attempts f)), (''final'', VBool (pf_Final f))]
      @ err_attr (pf_Err f))"

definition so_StoreError :: "store_error_info \<Rightarrow> slog_call" where
  "so_StoreError e = Dedup \<lparr>k_signal = ''store_error'', k_handler = se_Handler e, k_outcome = [], k_reason = se_Store e @ '':'' @ se_Op e\<rparr>
     LevelError ''eventbus: store error''
     ([(''handler'', VString (se_Handler e)), (''event'', VString (se_Event e)), (''store'', VString (se_Store e)),
       (''op'', VString (se_Op e))] @ err_attr (se_Err e))"

definition so_IdempotencyStale :: "idempotency_stale_info \<Rightarrow> slog_call" where
  "so_IdempotencyStale s = Dedup \<lparr>k_signal = ''idempotency_stale'', k_handler = is_Handler s, k_outcome = [], k_reason = []\<rparr>
     LevelWarn ''eventbus: stale idempotency lock''
     [(''handler'', VString (is_Handler s)), (''event'', VString (is_Event s)), (''age'', VDuration (is_Age s))]"

definition so_InternalError :: "internal_error_info \<Rightarrow> slog_call" where
  "so_InternalError e = Dedup \<lparr>k_signal = ''internal_error'', k_handler = ie_Handler e, k_outcome = [],
       k_reason = component_text (ie_Component e) @ '':'' @ op_text (ie_Op e)\<rparr>
     LevelError ''eventbus: internal error''
     ([(''component'', VString (component_text (ie_Component e))), (''op'', VString (op_text (ie_Op e))),
       (''handler'', VString (ie_Handler e)), (''subject'', VString (ie_Subject e))]
      @ err_attr (ie_Err e) @ stack_attr (ie_Err e))"

definition so_BreakerTransition :: "breaker_transition \<Rightarrow> slog_call" where
  "so_BreakerTransition t = Direct (if bt_To t = BreakerOpen then LevelWarn else LevelInfo) ''eventbus: circuit breaker transition''
     [(''handler'', VString (bt_Handler t)), (''from'', VString (breaker_text (bt_From t))), (''to'', VString (breaker_text (bt_To t))),
      (''reason'', VString (breaker_reason_text (bt_Reason t))), (''failures'', VInt (bt_Failures t)), (''seq'', VUint64 (bt_Seq t))]"

definition so_RetryAttempt :: "retry_attempt_info \<Rightarrow> slog_call" where
  "so_RetryAttempt i = Direct LevelDebug ''eventbus: retry scheduled''
     ([(''handler'', VString (ra_Handler i)), (''event'', VString (ra_Event i)), (''attempt'', VInt (ra_Attempt i)),
       (''class'', VString (class_text (ra_Class i))), (''delay'', VDuration (ra_Delay i))] @ err_attr (ra_Err i))"

fun slog_signal :: "signal \<Rightarrow> slog_call" where
  "slog_signal (Failure f) = so_Failure f"
| "slog_signal (DeadLettered i) = so_DeadLettered i"
| "slog_signal (DecodeFailed f) = so_DecodeFailed f"
| "slog_signal (DLQPublishFailed f) = so_DLQPublishFailed f"
| "slog_signal (StoreError e) = so_StoreError e"
| "slog_signal (IdempotencyStale s) = so_IdempotencyStale s"
| "slog_signal (InternalError e) = so_InternalError e"
| "slog_signal (BreakerTransition t) = so_BreakerTransition t"
| "slog_signal (RetryAttempt i) = so_RetryAttempt i"
| "slog_signal (HandlerDone r) = NoLog"

section \<open>The deduplication table\<close>

text \<open>
  An entry has an identity, since flushKey compares pointers. The map of entries is an
  association list with distinct keys.
\<close>

record soEntry =
  en_id :: nat
  en_first :: time
  en_suppressed :: int
  en_level :: log_level

record slog_table =
  so_entries :: "(soKey \<times> soEntry) list"
  so_next :: nat

definition DefaultLogEvery :: duration where "DefaultLogEvery = 10 * Second"
definition soMaxKeys :: nat where "soMaxKeys = 1024"

definition WithLogEvery :: "duration \<Rightarrow> duration \<Rightarrow> duration" where
  "WithLogEvery d every = (if d < 0 then 0 else d)"

text \<open>The window of a new observer: the options that are not nil, in order, over the default.\<close>

definition NewSlogObserver :: "(duration \<Rightarrow> duration) option list \<Rightarrow> duration" where
  "NewSlogObserver opts = foldl (\<lambda>every opt. case opt of None \<Rightarrow> every | Some f \<Rightarrow> f every) DefaultLogEvery opts"

definition expired :: "duration \<Rightarrow> time \<Rightarrow> soEntry \<Rightarrow> bool" where
  "expired every now e \<longleftrightarrow> en_suppressed e = 0 \<and> now - en_first e \<ge> every"

text \<open>
  The verdict of the critical section of record: log now, tracked by an entry or not, or
  suppress, with the timer to start (key, entry, delay) when it is the first repeat.
\<close>

datatype verdict = LogNow bool | Suppress "(soKey \<times> nat \<times> duration) option"

definition so_record :: "duration \<Rightarrow> soKey \<Rightarrow> log_level \<Rightarrow> time \<Rightarrow> slog_table \<Rightarrow> verdict \<times> slog_table" where
  "so_record every k level now o' =
     (if every \<le> 0 then (LogNow False, o')
      else (case map_of (so_entries o') k of
          Some e \<Rightarrow>
            if expired every now e
            then (LogNow True, o'\<lparr>so_entries := AList.update k (e\<lparr>en_first := now, en_level := level\<rparr>) (so_entries o')\<rparr>)
            else (let e1 = e\<lparr>en_suppressed := en_suppressed e + 1\<rparr> in
              (Suppress (if en_suppressed e1 = 1 then Some (k, en_id e, every - (now - en_first e)) else None),
               o'\<lparr>so_entries := AList.update k e1 (so_entries o')\<rparr>))
        | None \<Rightarrow>
            (let es = (if soMaxKeys \<le> length (so_entries o')
                       then filter (\<lambda>(_, e). \<not> expired every now e) (so_entries o') else so_entries o')
             in if soMaxKeys \<le> length es then (LogNow False, o'\<lparr>so_entries := es\<rparr>)
                else (LogNow True, o'\<lparr>so_entries := AList.update k \<lparr>en_id = so_next o', en_first = now, en_suppressed = 0,
                        en_level = level\<rparr> es, so_next := Suc (so_next o')\<rparr>))))"

text \<open>The body of a window timer: the entry whose summary is logged, if it is still tracked.\<close>

definition flushKey :: "soKey \<Rightarrow> nat \<Rightarrow> slog_table \<Rightarrow> soEntry option \<times> slog_table" where
  "flushKey k i o' = (case map_of (so_entries o') k of
     Some e \<Rightarrow> if en_id e = i then (Some e, o'\<lparr>so_entries := AList.delete k (so_entries o')\<rparr>) else (None, o')
   | None \<Rightarrow> (None, o'))"

text \<open>Flush: the pending entries, whose summaries are logged, and the empty table.\<close>

definition so_Flush :: "slog_table \<Rightarrow> (soKey \<times> soEntry) list \<times> slog_table" where
  "so_Flush o' = (filter (\<lambda>(_, e). en_suppressed e > 0) (so_entries o'), o'\<lparr>so_entries := []\<rparr>)"

definition so_summary :: "duration \<Rightarrow> soKey \<Rightarrow> soEntry \<Rightarrow> slog_call" where
  "so_summary every k e = Direct (en_level e) ''eventbus: repeated log records suppressed''
     [(''signal'', VString (k_signal k)), (''handler'', VString (k_handler k)), (''outcome'', VString (k_outcome k)),
      (''reason'', VString (k_reason k)), (''suppressed'', VInt (en_suppressed e)), (''window'', VDuration every)]"

section \<open>Interleavings\<close>

text \<open>
  The clock, the table, the timers that run (key, entry, due time) and, newest first, the
  series of the records that came in, the lines logged (with whether an entry tracks them) and
  the suppressed counts of the summaries logged. A timer fires at or after its due time;
  Flush stops timers, but one that fired already still runs. record reads the clock before it
  takes the lock, so the time it compares may be older than the time of its critical section.
  In a calm run nobody calls Flush and no record is delayed between the two.
\<close>

record log_run =
  lg_now :: time
  lg_table :: slog_table
  lg_timers :: "(soKey \<times> nat \<times> time) list"
  lg_seen :: "soKey list"
  lg_lines :: "(soKey \<times> bool \<times> time) list"
  lg_sums :: "(soKey \<times> int) list"

inductive log_step :: "duration \<Rightarrow> bool \<Rightarrow> log_run \<Rightarrow> log_run \<Rightarrow> bool" for every calm where
  tick: "0 \<le> d \<Longrightarrow> log_step every calm s (s\<lparr>lg_now := lg_now s + d\<rparr>)"
| logged: "slog_signal sig = Dedup k level msg attrs \<Longrightarrow> so_record every k level now (lg_table s) = (LogNow t, o') \<Longrightarrow>
    now \<le> lg_now s \<Longrightarrow> (calm \<Longrightarrow> now = lg_now s) \<Longrightarrow>
    log_step every calm s (s\<lparr>lg_table := o', lg_seen := k # lg_seen s, lg_lines := (k, t, now) # lg_lines s\<rparr>)"
| suppressed: "slog_signal sig = Dedup k level msg attrs \<Longrightarrow> so_record every k level now (lg_table s) = (Suppress tm, o') \<Longrightarrow>
    now \<le> lg_now s \<Longrightarrow> (calm \<Longrightarrow> now = lg_now s) \<Longrightarrow>
    log_step every calm s (s\<lparr>lg_table := o', lg_seen := k # lg_seen s,
      lg_timers := (case tm of None \<Rightarrow> lg_timers s | Some (k', i, d) \<Rightarrow> (k', i, lg_now s + d) # lg_timers s)\<rparr>)"
| timer: "(k, i, due) \<in> set (lg_timers s) \<Longrightarrow> due \<le> lg_now s \<Longrightarrow> flushKey k i (lg_table s) = (eo, o') \<Longrightarrow>
    log_step every calm s (s\<lparr>lg_table := o', lg_timers := remove1 (k, i, due) (lg_timers s),
      lg_sums := (case eo of None \<Rightarrow> lg_sums s | Some e \<Rightarrow> (k, en_suppressed e) # lg_sums s)\<rparr>)"
| flush: "\<not> calm \<Longrightarrow> so_Flush (lg_table s) = (pending, o') \<Longrightarrow> set ts \<subseteq> set (lg_timers s) \<Longrightarrow>
    log_step every calm s (s\<lparr>lg_table := o', lg_timers := ts,
      lg_sums := map (\<lambda>(k, e). (k, en_suppressed e)) pending @ lg_sums s\<rparr>)"

definition log_init :: log_run where
  "log_init = \<lparr>lg_now = 0, lg_table = \<lparr>so_entries = [], so_next = 0\<rparr>, lg_timers = [], lg_seen = [], lg_lines = [], lg_sums = []\<rparr>"

inductive log_reach :: "duration \<Rightarrow> bool \<Rightarrow> log_run \<Rightarrow> bool" for every calm where
  init: "log_reach every calm log_init"
| step: "log_reach every calm s \<Longrightarrow> log_step every calm s s' \<Longrightarrow> log_reach every calm s'"

section \<open>Lemmas on the table\<close>

lemma lookup_kept:
  assumes "distinct (map fst xs)"
  shows "map_of (filter P xs) k = Some e \<longleftrightarrow> map_of xs k = Some e \<and> P (k, e)"
proof -
  have "distinct (map fst (filter P xs))" using assms by (simp add: distinct_map_filter)
  with assms show ?thesis by (simp add: map_of_eq_Some_iff)
qed

lemma length_update: "length (AList.update k v xs) = (if map_of xs k = None then Suc (length xs) else length xs)"
  by (metis length_append_singleton length_map map_of_eq_None_iff update_keys set_map)

text \<open>The suppressed count of a series that no summary reported yet.\<close>

definition pending_of :: "slog_table \<Rightarrow> soKey \<Rightarrow> int" where
  "pending_of o' k = (case map_of (so_entries o') k of None \<Rightarrow> 0 | Some e \<Rightarrow> en_suppressed e)"

definition table_ok :: "slog_table \<Rightarrow> bool" where
  "table_ok o' \<longleftrightarrow> distinct (map fst (so_entries o')) \<and> length (so_entries o') \<le> soMaxKeys
     \<and> (\<forall>k e. map_of (so_entries o') k = Some e \<longrightarrow> 0 \<le> en_suppressed e \<and> en_id e < so_next o')"

lemma so_record_cases:
  assumes "so_record every k level now o' = (v, o2)"
  obtains (off) "every \<le> 0" "v = LogNow False" "o2 = o'"
    | (again) e where "0 < every" "map_of (so_entries o') k = Some e" "expired every now e" "v = LogNow True"
        "o2 = o'\<lparr>so_entries := AList.update k (e\<lparr>en_first := now, en_level := level\<rparr>) (so_entries o')\<rparr>"
    | (repeat) e where "0 < every" "map_of (so_entries o') k = Some e" "\<not> expired every now e"
        "v = Suppress (if en_suppressed e = 0 then Some (k, en_id e, every - (now - en_first e)) else None)"
        "o2 = o'\<lparr>so_entries := AList.update k (e\<lparr>en_suppressed := en_suppressed e + 1\<rparr>) (so_entries o')\<rparr>"
    | (full) es where "0 < every" "map_of (so_entries o') k = None" "es = filter (\<lambda>(_, e). \<not> expired every now e) (so_entries o')"
        "v = LogNow False" "o2 = o'\<lparr>so_entries := es\<rparr>"
    | (fresh) es where "0 < every" "map_of (so_entries o') k = None"
        "es = so_entries o' \<or> es = filter (\<lambda>(_, e). \<not> expired every now e) (so_entries o')" "length es < soMaxKeys"
        "v = LogNow True" "o2 = o'\<lparr>so_entries := AList.update k \<lparr>en_id = so_next o', en_first = now, en_suppressed = 0,
            en_level = level\<rparr> es, so_next := Suc (so_next o')\<rparr>"
proof (cases "every \<le> 0")
  case True
  with assms show thesis by (intro off) (auto simp: so_record_def)
next
  case False
  then have pos: "0 < every" by simp
  define es where "es = (if soMaxKeys \<le> length (so_entries o')
    then filter (\<lambda>(_, e). \<not> expired every now e) (so_entries o') else so_entries o')"
  show thesis
  proof (cases "map_of (so_entries o') k")
    case (Some e)
    with assms pos again[OF pos Some] repeat[OF pos Some] show thesis
      by (cases "expired every now e") (auto simp: so_record_def Let_def)
  next
    case None
    note run = assms[unfolded so_record_def Let_def None option.case es_def[symmetric]]
    show thesis
    proof (cases "soMaxKeys \<le> length es")
      case True
      then have "es = filter (\<lambda>(_, e). \<not> expired every now e) (so_entries o')" by (auto simp: es_def split: if_splits)
      with run pos True show thesis by (intro full[OF pos None]) auto
    next
      case False
      have "es = so_entries o' \<or> es = filter (\<lambda>(_, e). \<not> expired every now e) (so_entries o')" by (simp add: es_def)
      with run pos False show thesis by (intro fresh[OF pos None]) auto
    qed
  qed
qed

lemma cleaned:
  assumes "table_ok o'" and "es = so_entries o' \<or> es = filter (\<lambda>(_, e). \<not> expired every now e) (so_entries o')"
  shows "distinct (map fst es)" "length es \<le> length (so_entries o')"
    "map_of es k = Some e \<Longrightarrow> map_of (so_entries o') k = Some e"
    "map_of (so_entries o') k = Some e \<Longrightarrow> map_of es k = Some e \<or> expired every now e \<and> map_of es k = None"
proof -
  have d: "distinct (map fst (so_entries o'))" using assms(1) by (simp add: table_ok_def)
  show "distinct (map fst es)" using assms(2) d by (auto simp: distinct_map_filter)
  show "length es \<le> length (so_entries o')" using assms(2) by auto
  show "map_of es k = Some e \<Longrightarrow> map_of (so_entries o') k = Some e"
    using assms(2) by (auto simp: lookup_kept[OF d])
  show "map_of (so_entries o') k = Some e \<Longrightarrow> map_of es k = Some e \<or> expired every now e \<and> map_of es k = None"
  proof -
    assume e: "map_of (so_entries o') k = Some e"
    have "expired every now e" if "map_of es k = None"
    proof (rule ccontr)
      assume "\<not> expired every now e"
      with e have "map_of es k = Some e" using assms(2) by (auto simp: lookup_kept[OF d])
      with that show False by simp
    qed
    then show ?thesis using assms(2) e by (cases "map_of es k") (auto simp: lookup_kept[OF d])
  qed
qed

lemma so_record_table:
  assumes ok: "table_ok o'" and run: "so_record every k level now o' = (v, o2)"
  shows "table_ok o2"
  using run
proof (cases rule: so_record_cases)
  case (again e)
  then show ?thesis using ok by (auto simp: table_ok_def update_conv' distinct_update length_update split: if_splits)
next
  case (repeat e)
  then show ?thesis using ok by (auto simp: table_ok_def update_conv' distinct_update length_update split: if_splits)
next
  case (full es)
  note c = cleaned[OF ok disjI2[OF full(3)]]
  have "length es \<le> soMaxKeys" using le_trans[OF c(2)] ok by (simp add: table_ok_def)
  with c(1, 3) ok full(5) show ?thesis by (fastforce simp: table_ok_def)
next
  case (fresh es)
  note c = cleaned[OF ok fresh(3)]
  have "map_of es k = None" using c(3)[of k] fresh(2) by (cases "map_of es k") auto
  moreover have "en_id e < Suc (so_next o')" "0 \<le> en_suppressed e" if "map_of es k' = Some e" for k' e
    using c(3)[OF that] ok by (auto simp: table_ok_def less_Suc_eq)
  ultimately show ?thesis using fresh c(1)
    by (auto simp: table_ok_def update_conv' distinct_update length_update split: if_splits)
qed (use ok in simp)

lemma so_record_pending:
  assumes ok: "table_ok o'" and run: "so_record every k level now o' = (v, o2)"
  shows "pending_of o2 k' = pending_of o' k' + (case v of LogNow _ \<Rightarrow> 0 | Suppress _ \<Rightarrow> if k' = k then 1 else 0)"
  using run
proof (cases rule: so_record_cases)
  case (again e)
  then show ?thesis by (auto simp: pending_of_def update_conv')
next
  case (repeat e)
  then show ?thesis by (auto simp: pending_of_def update_conv')
next
  case (full es)
  show ?thesis
  proof (cases "map_of (so_entries o') k'")
    case None
    then have "map_of es k' = None" using cleaned(3)[OF ok disjI2[OF full(3)], of k'] by (cases "map_of es k'") auto
    with None full show ?thesis by (simp add: pending_of_def)
  next
    case (Some e)
    from cleaned(4)[OF ok disjI2[OF full(3)] this] Some full show ?thesis by (auto simp: pending_of_def expired_def)
  qed
next
  case (fresh es)
  note c = cleaned[OF ok fresh(3)]
  show ?thesis
  proof (cases "map_of (so_entries o') k'")
    case None
    then have "map_of es k' = None" using c(3)[of k'] by (cases "map_of es k'") auto
    with None fresh show ?thesis by (auto simp: pending_of_def update_conv')
  next
    case (Some e)
    then have "k' \<noteq> k" using fresh(2) by auto
    with c(4)[OF Some] Some fresh show ?thesis by (auto simp: pending_of_def update_conv' expired_def)
  qed
qed simp

section \<open>The invariant\<close>

definition lines_of :: "soKey \<Rightarrow> (soKey \<times> bool \<times> time) list \<Rightarrow> int" where
  "lines_of k ls = int (length (filter (\<lambda>(k', _). k' = k) ls))"

definition sums_of :: "soKey \<Rightarrow> (soKey \<times> int) list \<Rightarrow> int" where
  "sums_of k ss = sum_list (map snd (filter (\<lambda>(k', _). k' = k) ss))"

lemma tally_simps [simp]:
  "lines_of k ((k', x) # ls) = lines_of k ls + (if k' = k then 1 else 0)"
  "sums_of k ((k', n) # ss) = sums_of k ss + (if k' = k then n else 0)"
  "sums_of k (ss @ ts) = sums_of k ss + sums_of k ts" "lines_of k [] = 0" "sums_of k [] = 0"
  by (simp_all add: lines_of_def sums_of_def)

text \<open>Every record of a series was logged, is in a summary, or is counted by its entry.\<close>

definition accounted :: "log_run \<Rightarrow> bool" where
  "accounted s \<longleftrightarrow> (\<forall>k. int (count_list (lg_seen s) k) =
     lines_of k (lg_lines s) + sums_of k (lg_sums s) + pending_of (lg_table s) k)"

text \<open>The timer of an entry with suppressed records runs and is not due before the end of its window.\<close>

definition timers_ok :: "duration \<Rightarrow> slog_table \<Rightarrow> (soKey \<times> nat \<times> time) list \<Rightarrow> bool" where
  "timers_ok every o' timers \<longleftrightarrow>
     (\<forall>k i due. (k, i, due) \<in> set timers \<longrightarrow> i < so_next o' \<and>
        (\<forall>e. map_of (so_entries o') k = Some e \<and> en_id e = i \<longrightarrow> en_first e + every \<le> due \<and> 0 < en_suppressed e))
   \<and> (\<forall>k e. map_of (so_entries o') k = Some e \<and> 0 < en_suppressed e \<longrightarrow> (\<exists>due. (k, en_id e, due) \<in> set timers))"

definition log_inv :: "duration \<Rightarrow> log_run \<Rightarrow> bool" where
  "log_inv every s \<longleftrightarrow> table_ok (lg_table s) \<and> accounted s \<and> timers_ok every (lg_table s) (lg_timers s)"

lemma flush_sums:
  "distinct (map fst es) \<Longrightarrow> (\<forall>k e. map_of es k = Some e \<longrightarrow> 0 \<le> en_suppressed e) \<Longrightarrow>
     sums_of k (map (\<lambda>(k, e). (k, en_suppressed e)) (filter (\<lambda>(_, e). 0 < en_suppressed e) es))
     = (case map_of es k of None \<Rightarrow> 0 | Some e \<Rightarrow> en_suppressed e)"
proof (induction es)
  case (Cons x es)
  obtain k' e where x: "x = (k', e)" by force
  have "0 \<le> en_suppressed e" using Cons.prems(2)[rule_format, of k' e] x by simp
  moreover have none: "map_of es k' = None" using Cons.prems(1) x by (simp add: map_of_eq_None_iff)
  moreover have "\<forall>k e. map_of es k = Some e \<longrightarrow> 0 \<le> en_suppressed e"
    using Cons.prems(2) none unfolding x by (metis map_of_Cons_code(2) option.distinct(1))
  ultimately show ?case using Cons x by auto
qed simp

definition start_timer :: "time \<Rightarrow> (soKey \<times> nat \<times> duration) option \<Rightarrow> (soKey \<times> nat \<times> time) list \<Rightarrow> (soKey \<times> nat \<times> time) list" where
  "start_timer now tm timers = (case tm of None \<Rightarrow> timers | Some (k, i, d) \<Rightarrow> (k, i, now + d) # timers)"

lemma timers_record:
  assumes t: "table_ok o'" "timers_ok every o' timers" and run: "so_record every k level now o' = (v, o2)" and "now \<le> later"
  shows "timers_ok every o2 (case v of LogNow _ \<Rightarrow> timers | Suppress tm \<Rightarrow> start_timer later tm timers)"
  using run
proof (cases rule: so_record_cases)
  case off
  then show ?thesis using t(2) by simp
next
  case (again e)
  have "(k, en_id e, due) \<notin> set timers" for due
    using t(2) again(2, 3) unfolding timers_ok_def expired_def by (metis less_irrefl)
  then show ?thesis using t(2) again by (auto simp: timers_ok_def update_conv' expired_def)
next
  case (repeat e)
  have "en_id e < so_next o'" "0 \<le> en_suppressed e" using t(1) repeat(2) by (auto simp: table_ok_def)
  with repeat t(2) assms(4) show ?thesis
    by (cases "en_suppressed e = 0") (auto simp: timers_ok_def update_conv' start_timer_def)
next
  case (full es)
  note c = cleaned(3)[OF t(1) disjI2[OF full(3)]]
  show ?thesis using t(2) full c by (auto simp: timers_ok_def)
next
  case (fresh es)
  note c = cleaned(3)[OF t(1) fresh(3)]
  show ?thesis using t(2) fresh c by (fastforce simp: timers_ok_def update_conv' split: if_splits)
qed

lemma timers_remove:
  assumes "timers_ok every o' ts" and "\<forall>e. map_of (so_entries o') k = Some e \<longrightarrow> en_id e \<noteq> i"
  shows "timers_ok every o' (remove1 (k, i, due) ts)"
proof -
  have "\<exists>d. (k', en_id e, d) \<in> set (remove1 (k, i, due) ts)"
    if e: "map_of (so_entries o') k' = Some e" "0 < en_suppressed e" for k' e
  proof -
    obtain d where "(k', en_id e, d) \<in> set ts" using assms(1) e unfolding timers_ok_def by blast
    moreover have "(k', en_id e, d) \<noteq> (k, i, due)" using assms(2) e(1) by auto
    ultimately have "(k', en_id e, d) \<in> set (remove1 (k, i, due) ts)" by (simp add: in_set_remove1)
    then show ?thesis ..
  qed
  with assms(1) show ?thesis unfolding timers_ok_def by (metis notin_set_remove1)
qed

lemma log_inv_step:
  assumes "log_step every calm s s'" and "log_inv every s"
  shows "log_inv every s'"
  using assms
proof (induction rule: log_step.induct)
  case (tick d s)
  then show ?case by (simp add: log_inv_def accounted_def timers_ok_def)
next
  case (logged sig k level msg attrs now s t o')
  then have ok: "table_ok (lg_table s)" "timers_ok every (lg_table s) (lg_timers s)" by (auto simp: log_inv_def)
  from timers_record[OF this logged(2, 3)] so_record_table[OF ok(1) logged(2)] so_record_pending[OF ok(1) logged(2)] logged(5)
  show ?case by (auto simp: log_inv_def accounted_def)
next
  case (suppressed sig k level msg attrs now s tm o')
  then have ok: "table_ok (lg_table s)" "timers_ok every (lg_table s) (lg_timers s)" by (auto simp: log_inv_def)
  from timers_record[OF this suppressed(2, 3)] so_record_table[OF ok(1) suppressed(2)] so_record_pending[OF ok(1) suppressed(2)] suppressed(5)
  show ?case by (auto simp: log_inv_def accounted_def start_timer_def split: option.splits)
next
  case (timer k i due s eo o')
  show ?case
  proof (cases eo)
    case None
    then have "o' = lg_table s" "\<forall>e. map_of (so_entries (lg_table s)) k = Some e \<longrightarrow> en_id e \<noteq> i"
      using timer(3) by (auto simp: flushKey_def split: option.splits if_splits)
    with timer(4) None timers_remove[of every "lg_table s" "lg_timers s" k i due] show ?thesis
      by (simp add: log_inv_def accounted_def)
  next
    case (Some e)
    then have e: "map_of (so_entries (lg_table s)) k = Some e" "en_id e = i"
      "o' = (lg_table s)\<lparr>so_entries := AList.delete k (so_entries (lg_table s))\<rparr>"
      using timer(3) by (auto simp: flushKey_def split: option.splits if_splits)
    have "table_ok o'" using timer(4) e(3) length_delete_le[of k "so_entries (lg_table s)"]
      by (auto simp: log_inv_def table_ok_def delete_conv' distinct_delete split: if_splits)
    moreover have "accounted (s\<lparr>lg_table := o', lg_timers := remove1 (k, i, due) (lg_timers s), lg_sums := (k, en_suppressed e) # lg_sums s\<rparr>)"
      using timer(4) e by (auto simp: log_inv_def accounted_def pending_of_def delete_conv')
    moreover have "timers_ok every o' (lg_timers s)"
      using timer(4) e by (auto simp: log_inv_def timers_ok_def delete_conv' split: if_splits)
    then have "timers_ok every o' (remove1 (k, i, due) (lg_timers s))"
      by (rule timers_remove) (simp add: e(3) delete_conv')
    ultimately show ?thesis using Some by (simp add: log_inv_def)
  qed
next
  case (flush s pending o' ts)
  then have ok: "table_ok (lg_table s)" "accounted s" "timers_ok every (lg_table s) (lg_timers s)" by (auto simp: log_inv_def)
  have o': "o' = (lg_table s)\<lparr>so_entries := []\<rparr>" "pending = filter (\<lambda>(_, e). 0 < en_suppressed e) (so_entries (lg_table s))"
    using flush(2) by (auto simp: so_Flush_def)
  have "sums_of k (map (\<lambda>(k, e). (k, en_suppressed e)) pending) = pending_of (lg_table s) k" for k
    using ok(1) flush_sums[of "so_entries (lg_table s)" k] by (simp add: o'(2) table_ok_def pending_of_def)
  with ok flush(3) show ?case by (auto simp: log_inv_def accounted_def table_ok_def timers_ok_def o'(1) pending_of_def)
qed

lemma log_inv_init: "log_inv every log_init"
  by (simp add: log_inv_def log_init_def table_ok_def accounted_def timers_ok_def pending_of_def)

lemma log_inv_reach: "log_reach every calm s \<Longrightarrow> log_inv every s"
  by (induction rule: log_reach.induct) (rule log_inv_init, rule log_inv_step)

section \<open>How often a series is logged\<close>

text \<open>The time of the newest tracked line of a series, and that tracked lines of a series keep the window.\<close>

fun last_line :: "soKey \<Rightarrow> (soKey \<times> bool \<times> time) list \<Rightarrow> time option" where
  "last_line k [] = None"
| "last_line k ((k', tracked, t) # ls) = (if k' = k \<and> tracked then Some t else last_line k ls)"

fun spaced :: "duration \<Rightarrow> (soKey \<times> bool \<times> time) list \<Rightarrow> bool" where
  "spaced every [] = True"
| "spaced every ((k, tracked, t) # ls) \<longleftrightarrow> spaced every ls \<and>
     (tracked \<longrightarrow> (case last_line k ls of None \<Rightarrow> True | Some t' \<Rightarrow> t' + every \<le> t))"

definition entry_time :: "duration \<Rightarrow> time \<Rightarrow> soEntry option \<Rightarrow> time option \<Rightarrow> bool" where
  "entry_time every now eo lo \<longleftrightarrow> (case eo of Some e \<Rightarrow> lo = Some (en_first e)
     | None \<Rightarrow> (case lo of None \<Rightarrow> True | Some t \<Rightarrow> t + every \<le> now))"

definition rate_inv :: "duration \<Rightarrow> log_run \<Rightarrow> bool" where
  "rate_inv every s \<longleftrightarrow> spaced every (lg_lines s)
     \<and> (\<forall>k. entry_time every (lg_now s) (map_of (so_entries (lg_table s)) k) (last_line k (lg_lines s)))"

lemma entry_time_simps [simp]:
  "entry_time every now (Some e) lo \<longleftrightarrow> lo = Some (en_first e)" "entry_time every now None None"
  "entry_time every now None (Some t) \<longleftrightarrow> t + every \<le> now"
  by (simp_all add: entry_time_def)

lemma entry_time_expired: "entry_time every now (Some e) lo \<Longrightarrow> expired every now e \<Longrightarrow> entry_time every now None lo"
  by (simp add: expired_def)

lemma entry_time_tick: "entry_time every now eo lo \<Longrightarrow> 0 \<le> d \<Longrightarrow> entry_time every (now + d) eo lo"
  by (auto simp: entry_time_def split: option.splits)

lemma cleaned_time:
  assumes "table_ok o'" and "es = so_entries o' \<or> es = filter (\<lambda>(_, e). \<not> expired every now e) (so_entries o')"
    and "entry_time every now (map_of (so_entries o') k) lo"
  shows "entry_time every now (map_of es k) lo"
proof (cases "map_of (so_entries o') k")
  case None
  then have "map_of es k = None" using cleaned(3)[OF assms(1, 2), of k] by (cases "map_of es k") auto
  with assms(3) None show ?thesis by simp
next
  case (Some e)
  from cleaned(4)[OF assms(1, 2) this] show ?thesis
  proof
    assume "map_of es k = Some e"
    with assms(3) Some show ?thesis by simp
  next
    assume *: "expired every now e \<and> map_of es k = None"
    have "entry_time every now (Some e) lo" using assms(3) Some by simp
    from entry_time_expired[OF this] * show ?thesis by simp
  qed
qed

lemma rate_record:
  assumes ok: "table_ok (lg_table s)" and inv: "rate_inv every s"
    and run: "so_record every k level (lg_now s) (lg_table s) = (v, o2)"
  shows "spaced every (case v of LogNow t \<Rightarrow> (k, t, lg_now s) # lg_lines s | Suppress _ \<Rightarrow> lg_lines s)
    \<and> (\<forall>k'. entry_time every (lg_now s) (map_of (so_entries o2) k')
          (last_line k' (case v of LogNow t \<Rightarrow> (k, t, lg_now s) # lg_lines s | Suppress _ \<Rightarrow> lg_lines s)))"
proof -
  have sp: "spaced every (lg_lines s)" and et: "entry_time every (lg_now s) (map_of (so_entries (lg_table s)) k') (last_line k' (lg_lines s))" for k'
    using inv by (auto simp: rate_inv_def)
  from run show ?thesis
  proof (cases rule: so_record_cases)
    case off
    then show ?thesis using sp et by simp
  next
    case (again e)
    then have "last_line k (lg_lines s) = Some (en_first e)" using et[of k] by simp
    with again sp et show ?thesis by (auto simp: update_conv' expired_def)
  next
    case (repeat e)
    then have "last_line k (lg_lines s) = Some (en_first e)" using et[of k] by simp
    with repeat sp et show ?thesis by (auto simp: update_conv')
  next
    case (full es)
    with sp cleaned_time[OF ok disjI2[OF full(3)] et] show ?thesis by simp
  next
    case (fresh es)
    have "entry_time every (lg_now s) None (last_line k (lg_lines s))" using et[of k] fresh(2) by simp
    with fresh sp cleaned_time[OF ok fresh(3) et] show ?thesis
      by (auto simp: update_conv' entry_time_def split: option.splits)
  qed
qed

lemma rate_inv_step:
  assumes "log_step every True s s'" and "log_inv every s" and "rate_inv every s"
  shows "rate_inv every s'"
  using assms
proof (induction rule: log_step.induct)
  case (tick d s)
  then show ?case by (auto simp: rate_inv_def intro: entry_time_tick)
next
  case (logged sig k level msg attrs now s t o')
  then have "table_ok (lg_table s)" by (simp add: log_inv_def)
  moreover have now: "now = lg_now s" using logged(4) by simp
  ultimately show ?case using rate_record[OF _ logged(6) logged(2)[unfolded now]] by (simp add: rate_inv_def)
next
  case (suppressed sig k level msg attrs now s tm o')
  then have "table_ok (lg_table s)" by (simp add: log_inv_def)
  moreover have now: "now = lg_now s" using suppressed(4) by simp
  ultimately show ?case using rate_record[OF _ suppressed(6) suppressed(2)[unfolded now]] by (simp add: rate_inv_def)
next
  case (timer k i due s eo o')
  show ?case
  proof (cases eo)
    case None
    then have "o' = lg_table s" using timer(3) by (auto simp: flushKey_def split: option.splits if_splits)
    with timer(5) None show ?thesis by (simp add: rate_inv_def)
  next
    case (Some e)
    then have e: "map_of (so_entries (lg_table s)) k = Some e" "en_id e = i"
      "o' = (lg_table s)\<lparr>so_entries := AList.delete k (so_entries (lg_table s))\<rparr>"
      using timer(3) by (auto simp: flushKey_def split: option.splits if_splits)
    have due: "en_first e + every \<le> due" using timer(1, 4) e unfolding log_inv_def timers_ok_def by blast
    have "last_line k (lg_lines s) = Some (en_first e)" using timer(5) e(1) unfolding rate_inv_def by (metis entry_time_simps(1))
    with timer(2, 5) Some e(3) due show ?thesis by (simp add: rate_inv_def delete_conv')
  qed
qed simp

lemma rate_inv_reach: "log_reach every True s \<Longrightarrow> rate_inv every s"
proof (induction rule: log_reach.induct)
  case init
  show ?case by (simp add: rate_inv_def log_init_def)
next
  case (step s s')
  then show ?case by (auto intro: rate_inv_step log_inv_reach)
qed

section \<open>Properties\<close>

text \<open>
  C31. Deduplication loses nothing. In every interleaving of signals, window timers and Flush
  calls, each record of a series was logged, is part of the count of a summary that was logged,
  or is still counted by the entry of the series; an entry that counts suppressed records has
  its timer running, due at the end of its window or later, so the summary comes without another
  signal; a Flush reports every pending count; and the table never holds more than 1024 series.
\<close>

theorem log_accounting:
  assumes "log_reach every calm s"
  shows "accounted s \<and> length (so_entries (lg_table s)) \<le> 1024
    \<and> (\<forall>k e. map_of (so_entries (lg_table s)) k = Some e \<and> 0 < en_suppressed e \<longrightarrow>
         (\<exists>due. (k, en_id e, due) \<in> set (lg_timers s) \<and> en_first e + every \<le> due))
    \<and> sums_of k (map (\<lambda>(k, e). (k, en_suppressed e)) (fst (so_Flush (lg_table s)))) = pending_of (lg_table s) k
    \<and> pending_of (snd (so_Flush (lg_table s))) k = 0"
proof -
  have inv: "log_inv every s" using assms by (rule log_inv_reach)
  then have "sums_of k (map (\<lambda>(k, e). (k, en_suppressed e)) (fst (so_Flush (lg_table s)))) = pending_of (lg_table s) k"
    using flush_sums[of "so_entries (lg_table s)" k] by (simp add: so_Flush_def log_inv_def table_ok_def pending_of_def)
  moreover have "\<exists>due. (k, en_id e, due) \<in> set (lg_timers s) \<and> en_first e + every \<le> due"
    if "map_of (so_entries (lg_table s)) k = Some e" "0 < en_suppressed e" for k e
    using inv that unfolding log_inv_def timers_ok_def by blast
  ultimately show ?thesis using inv by (simp add: log_inv_def table_ok_def soMaxKeys_def so_Flush_def pending_of_def)
qed

definition stale_signal :: signal where
  "stale_signal = IdempotencyStale \<lparr>is_Handler = ''h'', is_Event = ''e'', is_Age = 1\<rparr>"

definition stale_key :: soKey where
  "stale_key = \<lparr>k_signal = ''idempotency_stale'', k_handler = ''h'', k_outcome = [], k_reason = []\<rparr>"

text \<open>Two equal signals at the start: the first is logged, the second suppressed.\<close>

definition storm_first :: log_run where
  "storm_first = log_init\<lparr>lg_table := \<lparr>so_entries = [(stale_key, \<lparr>en_id = 0, en_first = 0, en_suppressed = 0, en_level = LevelWarn\<rparr>)],
     so_next = 1\<rparr>, lg_seen := [stale_key], lg_lines := [(stale_key, True, 0)]\<rparr>"

definition storm_second :: log_run where
  "storm_second = storm_first\<lparr>lg_table := \<lparr>so_entries = [(stale_key, \<lparr>en_id = 0, en_first = 0, en_suppressed = 1, en_level = LevelWarn\<rparr>)],
     so_next = 1\<rparr>, lg_seen := [stale_key, stale_key], lg_timers := [(stale_key, 0, 10)]\<rparr>"

lemma storm_call: "slog_signal stale_signal = Dedup stale_key LevelWarn ''eventbus: stale idempotency lock''
    [(''handler'', VString ''h''), (''event'', VString ''e''), (''age'', VDuration 1)]"
  by (simp add: stale_signal_def so_IdempotencyStale_def stale_key_def)

lemma storm_first_reach: "log_reach 10 calm storm_first"
proof -
  have "log_step 10 calm log_init storm_first"
    using log_step.logged[OF storm_call, of 10 0 log_init True "lg_table storm_first" calm]
    by (simp add: storm_first_def log_init_def so_record_def soMaxKeys_def Let_def)
  then show ?thesis by (blast intro: log_reach.intros)
qed

lemma storm_reach: "log_reach 10 calm storm_second"
proof -
  have "log_step 10 calm storm_first storm_second"
    using log_step.suppressed[OF storm_call, of 10 0 storm_first "Some (stale_key, 0, 10)" "lg_table storm_second" calm]
    by (simp add: storm_second_def storm_first_def log_init_def so_record_def expired_def)
  then show ?thesis using storm_first_reach by (blast intro: log_reach.intros)
qed

theorem log_accounting_witness:
  "accounted storm_second \<and> (stale_key, 0, 10) \<in> set (lg_timers storm_second)"
  using log_accounting[OF storm_reach[of False]] by (simp add: storm_second_def)

text \<open>
  One line per window. As long as nobody calls Flush and no record is delayed between its
  clock reading and the lock, the lines an entry of the table tracks keep the window: two lines of the same series (signal, handler, outcome and reason) are at
  least the window apart, however many signals come in and however the timers are scheduled.
\<close>

lemma log_rate:
  assumes "log_reach every True s" and "lg_lines s = ls @ (k, True, t) # ms" and "last_line k ms = Some t'"
  shows "t' + every \<le> t"
proof -
  have "spaced every (ls @ (k, True, t) # ms)" using rate_inv_reach[OF assms(1)] assms(2) by (simp add: rate_inv_def)
  then have "spaced every ((k, True, t) # ms)" by (induction ls) auto
  with assms(3) show ?thesis by simp
qed

end
