(* ===== verification/Local_Shutdown.thy ===== *)
theory Local_Shutdown
  imports Local_Dispatch Log_Observer
begin

text \<open>
  The local bus as a whole (local-bus.go): NewLocalBus, the start of Emit and of dispatchAsync,
  and Shutdown, composed with the dispatch machine. Callers of Shutdown and Close wait for the
  emits and tasks of the machine through the Lifecycle they share, interrupt them when their
  context expires, and flush the default log observer. The properties show what a Shutdown that
  returned nil promises, and that every Shutdown can return.
\<close>

section \<open>Construction\<close>

record 'u local_options =
  op_Invoker :: "'u invoker option"
  op_Observer :: "nat option"
  op_MaxConcurrent :: int
  op_QueueSize :: int
  op_Overflow :: OverflowPolicy
  op_ShutdownTimeout :: duration
  op_HandlerTimeout :: duration
  op_IDGenerator :: "'u id_source option"
  op_InheritHeaders :: "string list"
  op_DLQPublisher :: "'u publisher option"

text \<open>
  What NewLocalBus decides: the observer (\<open>log\<close> is the default log observer it makes when there is
  none), the invoker chain, the capacities, and how long Close waits. The other fields are those
  of the zero bus \<open>B\<close>: its Lifecycle, its handler table and where they live.
\<close>

definition NewLocalBus :: "nat \<Rightarrow> 'u local_bus \<Rightarrow> 'u local_options \<Rightarrow> 'u local_bus \<times> dispatch_config \<times> duration \<times> nat option" where
  "NewLocalBus log B opts =
     (let defaultLog = (case op_Observer opts of None \<Rightarrow> Some log | Some _ \<Rightarrow> None);
          obs = (case op_Observer opts of None \<Rightarrow> log | Some o' \<Rightarrow> o')
      in (B\<lparr>lb_observer := Some obs, lb_dlq := op_DLQPublisher opts,
            lb_invoker := (case op_Invoker opts of None \<Rightarrow> passthroughInvoker | Some i \<Rightarrow> i),
            lb_handlerTimeout := op_HandlerTimeout opts, lb_idGen := op_IDGenerator opts, lb_inherit := op_InheritHeaders opts\<rparr>,
          NewLocalBus_dispatch (op_MaxConcurrent opts) (op_QueueSize opts) (op_Overflow opts),
          (if op_ShutdownTimeout opts \<le> 0 then DefaultShutdownTimeout else op_ShutdownTimeout opts),
          defaultLog))"

section \<open>The start of an emit\<close>

text \<open>
  Emit up to its loop: nothing to do without handlers, a report when the bus is closed, or the
  handlers to dispatch with the context they share.
\<close>

definition LocalBus_Emit :: "'u env \<Rightarrow> 'u id_source \<Rightarrow> 'u local_bus \<Rightarrow> ctx \<Rightarrow> event \<Rightarrow> 'u emit_option list \<Rightarrow> 'u world \<Rightarrow>
    (ctx \<times> string \<times> 'u named_handle list) option \<times> 'u world" where
  "LocalBus_Emit E NewID B ctx0 e opts w0 =
     (let cfg = (ApplyEmitOptions e opts)\<lparr>eo_IDGenerator := lb_idGen B, eo_InheritHeaders := lb_inherit B\<rparr> in
      case ResolveOutbound NewID ctx0 e cfg w0 of (md, w1) \<Rightarrow>
        (let c = WithObserver (WithMetadata ctx0 md) (lb_observer B);
             subject = eo_Subject cfg;
             hList = snapshot B subject w1
         in if hList = [] then (None, w1)
            else (case Admit (Nested B c) (life_of B w1) of
                Inl s \<Rightarrow> (None, guardReport B c subject [] (\<lambda>w. (Ret (), reject E B c subject e (Sentinel s) w)) w1)
              | Inr l \<Rightarrow> (Some (c, subject, hList), set_life B l w1))))"

text \<open>dispatchAsync up to its first select: the task is tracked, or reported as interrupted.\<close>

definition dispatchAsync_track :: "'u env \<Rightarrow> 'u local_bus \<Rightarrow> ctx \<Rightarrow> string \<Rightarrow> event \<Rightarrow> 'u named_handle \<Rightarrow> 'u world \<Rightarrow> bool \<times> 'u world" where
  "dispatchAsync_track E B c subject e h w =
     (case Track (life_of B w) of
        None \<Rightarrow> (False, guardReport B c subject (nh_Name h) (LocalBus_interrupted E B c subject e (nh_Name h)) w)
      | Some l \<Rightarrow> (True, set_life B l w))"

section \<open>Reports of tasks that never ran\<close>

text \<open>The context of such a report has a fresh scope of its own.\<close>

lemma reportCtx_fresh:
  assumes "world_ok w0" and "reportCtx B c subject w0 = (c1, w1)"
  obtains sid where "cx_scope c1 = Some sid" "sid < w_next w1" "w_next w0 \<le> sid" "report_of sid w1 = clean_report"
    "cx_observer c1 = lb_observer B" "delivery_of c1 = local_delivery subject"
proof -
  obtain sid where wf: "WithFailureScope (WithObserver (WithDelivery c (local_delivery subject)) (lb_observer B)) w0 = ((c1, sid), w1)"
    using assms(2) by (auto simp: reportCtx_def split: prod.splits)
  have "cx_observer c1 = lb_observer B" "delivery_of c1 = local_delivery subject"
    using wf by (auto simp: WithFailureScope_def alloc_scope_def WithObserver_def delivery_of_def DeliveryFromContext_def WithDelivery_def)
  with fresh_clean[OF assms(1) refl order_refl wf] show thesis by (intro that[of sid]) auto
qed

text \<open>One Failure and no HandlerDone on a scope that did not exist before.\<close>

definition one_failure :: "'u world \<Rightarrow> 'u world \<Rightarrow> bool" where
  "one_failure w0 w \<longleftrightarrow> (\<exists>sid \<ge> w_next w0. count_if (failure_on sid) (w_trace w) = 1 \<and> count_if (done_on sid) (w_trace w) = 0)"

lemma one_failureI:
  assumes "w_next w0 \<le> sid" and "report_of sid w = spec_report 1 clean_report"
  shows "one_failure w0 w"
  using assms by (auto simp: one_failure_def report_of_def spec_report_def clean_report_def)

lemma unsettled_reported:
  assumes "world_ok w0" and "quiet_bus E B" and "lb_observer B = Some ob" and "reportCtx B c subject w0 = (c1, w1)"
  shows "one_failure w0 (reportUnsettled E c1 inp oc err w1)"
proof (rule reportCtx_fresh[OF assms(1, 4)])
  fix sid assume sid: "cx_scope c1 = Some sid" "sid < w_next w1" "w_next w0 \<le> sid" "report_of sid w1 = clean_report" "cx_observer c1 = lb_observer B"
  have "quiet_env sid E" using assms(2) by (simp add: quiet_bus_def quiet_runtime.quiet_runtime)
  from reportTerminal_spec(1)[OF sid(1, 2) this] sid(4, 5) assms(3)
  have "report_of sid (reportUnsettled E c1 inp oc err w1) = spec_report 1 clean_report"
    by (simp add: reportUnsettled_def observed_def)
  with sid(3) show ?thesis by (rule one_failureI)
qed

lemma interrupted_reported:
  assumes "world_ok w0" and "quiet_bus E B" and "lb_observer B = Some ob" and run: "LocalBus_interrupted E B c subject e h w0 = (Ret u, w')"
  shows "one_failure w0 w'"
proof (cases "ctx_Err (bus_ctx B) w0 = None")
  case True
  with run have "w' = reject E B c subject e (Sentinel ErrBusClosed) w0" by (simp add: LocalBus_interrupted_def)
  then show ?thesis by (cases "reportCtx B c subject w0") (simp add: reject_def unsettled_reported[OF assms(1-3)])
next
  case False
  obtain c1 w1 where rc: "reportCtx B c subject w0 = (c1, w1)" by fastforce
  let ?inp = "\<lparr>in_SubscriptionCtx = Some (bus_ctx B), in_Evt = Some e, in_Handler = h,
    in_Err = WrapInterrupted (bus_ctx B) (Some (Sentinel Canceled)) w1, in_Publisher = lb_dlq B\<rparr>"
  obtain s where st: "Settle E c1 ?inp w1 = (Ret s, w')"
    using run False rc by (auto simp: LocalBus_interrupted_def split: result.splits prod.splits)
  obtain err where err: "in_Err ?inp = Some err" "\<not> errors_Is err ErrDuplicate"
    by (cases "cause_is (bus_ctx B) w1 ErrShutdownInterrupted") (auto simp: WrapInterrupted_def)
  show ?thesis
  proof (rule reportCtx_fresh[OF assms(1) rc])
    fix sid assume sid: "cx_scope c1 = Some sid" "sid < w_next w1" "w_next w0 \<le> sid" "report_of sid w1 = clean_report"
      "cx_observer c1 = lb_observer B" "delivery_of c1 = local_delivery subject"
    have E: "quiet_env sid E" and p: "quiet_dlq (in_Publisher ?inp)" using assms(2) by (simp_all add: quiet_bus_def quiet_runtime.quiet_runtime)
    have "s_Outcome s \<noteq> OutcomeNone" using settle_final_reports[OF st err(1) _ err(2)] sid(6) by simp
    with Settle_spec[OF sid(1, 2) E p st] err(1) sid(4, 5) assms(3)
    have "report_of sid w' = spec_flush 1 (spec_report 1 clean_report)" by (simp add: settle_reported_def observed_def)
    also have "\<dots> = spec_report 1 clean_report" by (simp add: spec_flush_def spec_report_def clean_report_def)
    finally show ?thesis using sid(3) by (intro one_failureI)
  qed
qed

section \<open>Shutdown\<close>

text \<open>
  A caller of Shutdown waits with the idle channel it last blocked on, flushes the default log
  observer, or returned; the flag says that its result is nil and not the error of its context.
  Close is a Shutdown whose context expires after the timeout of the bus.
\<close>

datatype stage = Waiting_idle "nat option" | Flushing bool | Returned bool

record shutdown_call =
  sc_stage :: stage
  sc_expired :: bool

record local_run =
  lr_bus :: dispatch
  lr_calls :: "shutdown_call list"
  lr_log :: "slog_table option"
  lr_summaries :: "(soKey \<times> soEntry) list"

definition run_life :: "local_run \<Rightarrow> lifecycle" where
  "run_life st = ds_life (lr_bus st)"

definition with_life :: "lifecycle \<Rightarrow> local_run \<Rightarrow> local_run" where
  "with_life l st = st\<lparr>lr_bus := (lr_bus st)\<lparr>ds_life := l\<rparr>\<rparr>"

definition goto_stage :: "nat \<Rightarrow> stage \<Rightarrow> local_run \<Rightarrow> local_run" where
  "goto_stage i s st = st\<lparr>lr_calls := (lr_calls st)[i := (lr_calls st ! i)\<lparr>sc_stage := s\<rparr>]\<rparr>"

definition at_stage :: "local_run \<Rightarrow> nat \<Rightarrow> stage \<Rightarrow> bool" where
  "at_stage st i s \<longleftrightarrow> i < length (lr_calls st) \<and> sc_stage (lr_calls st ! i) = s"

definition flush_log :: "local_run \<Rightarrow> local_run" where
  "flush_log st = (case lr_log st of None \<Rightarrow> st
     | Some t \<Rightarrow> (case so_Flush t of (pending, t') \<Rightarrow> st\<lparr>lr_log := Some t', lr_summaries := pending @ lr_summaries st\<rparr>))"

text \<open>The steps of one caller.\<close>

inductive caller_step :: "nat \<Rightarrow> local_run \<Rightarrow> local_run \<Rightarrow> bool" for i where
  idle: "at_stage st i (Waiting_idle w) \<Longrightarrow> (\<And>ch. w = Some ch \<Longrightarrow> woken (run_life st) ch) \<Longrightarrow> Wait_pass (run_life st) = (None, l') \<Longrightarrow>
    caller_step i st (goto_stage i (Flushing True) (with_life l' st))"
| blocks: "at_stage st i (Waiting_idle w) \<Longrightarrow> (\<And>ch. w = Some ch \<Longrightarrow> woken (run_life st) ch) \<Longrightarrow> Wait_pass (run_life st) = (Some ch', l') \<Longrightarrow>
    caller_step i st (goto_stage i (Waiting_idle (Some ch')) (with_life l' st))"
| expired: "at_stage st i (Waiting_idle (Some ch)) \<Longrightarrow> sc_expired (lr_calls st ! i) \<Longrightarrow>
    caller_step i st (goto_stage i (Flushing False) (with_life (Interrupt (run_life st)) st))"
| flush: "at_stage st i (Flushing ok) \<Longrightarrow> caller_step i st (goto_stage i (Returned ok) (flush_log st))"

text \<open>All steps: those of the callers, of tasks and of emitters, a new call, an expiring context and a signal.\<close>

inductive local_step :: "dispatch_config \<Rightarrow> local_run \<Rightarrow> local_run \<Rightarrow> bool" for cfg where
  caller: "caller_step i st st' \<Longrightarrow> local_step cfg st st'"
| task: "task_step cfg (lr_bus st) d \<Longrightarrow> local_step cfg st (st\<lparr>lr_bus := d\<rparr>)"
| emitter: "emit_step (lr_bus st) d \<Longrightarrow> local_step cfg st (st\<lparr>lr_bus := d\<rparr>)"
| call: "local_step cfg st (with_life (BeginShutdown (run_life st)) st
    \<lparr>lr_calls := lr_calls st @ [\<lparr>sc_stage = Waiting_idle None, sc_expired = False\<rparr>]\<rparr>)"
| expires: "i < length (lr_calls st) \<Longrightarrow>
    local_step cfg st (st\<lparr>lr_calls := (lr_calls st)[i := (lr_calls st ! i)\<lparr>sc_expired := True\<rparr>]\<rparr>)"
| signalled: "lr_log st = Some t \<Longrightarrow> so_record every k level now t = (v, t') \<Longrightarrow> local_step cfg st (st\<lparr>lr_log := Some t'\<rparr>)"

definition local_init :: "slog_table option \<Rightarrow> local_run" where
  "local_init lg = \<lparr>lr_bus = dispatch_init, lr_calls = [], lr_log = lg, lr_summaries = []\<rparr>"

inductive local_reach :: "dispatch_config \<Rightarrow> local_run \<Rightarrow> bool" for cfg where
  init: "local_reach cfg (local_init lg)"
| step: "local_reach cfg st \<Longrightarrow> local_step cfg st st' \<Longrightarrow> local_reach cfg st'"

section \<open>The invariant\<close>

lemma run_simps [simp]:
  "run_life (with_life l st) = l" "run_life (goto_stage i s st) = run_life st" "run_life (st\<lparr>lr_bus := d\<rparr>) = ds_life d"
  "run_life (st\<lparr>lr_calls := cs\<rparr>) = run_life st" "run_life (flush_log st) = run_life st"
  "lr_bus (goto_stage i s st) = lr_bus st" "lr_bus (with_life l st) = (lr_bus st)\<lparr>ds_life := l\<rparr>" "lr_bus (flush_log st) = lr_bus st"
  "lr_calls (with_life l st) = lr_calls st" "lr_calls (flush_log st) = lr_calls st"
  "length (lr_calls (goto_stage i s st)) = length (lr_calls st)"
  by (auto simp: run_life_def with_life_def goto_stage_def flush_log_def split: option.splits prod.splits)

lemma at_stage_goto:
  "i < length (lr_calls st) \<Longrightarrow> at_stage (goto_stage i s st) j s' \<longleftrightarrow> (if j = i then s' = s else at_stage st j s')"
  by (auto simp: at_stage_def goto_stage_def nth_list_update)

lemma at_stage_bound [dest]: "at_stage st i s \<Longrightarrow> i < length (lr_calls st)"
  by (simp add: at_stage_def)

definition life_ok :: "lifecycle \<Rightarrow> bool" where
  "life_ok l \<longleftrightarrow> (l_forced l \<longrightarrow> l_closed l) \<and> l_cancelled l = l_forced l \<and> (l_done l \<longrightarrow> l_closed l \<and> l_inflight l = 0)
     \<and> (\<forall>ch. l_idle l = Some ch \<longrightarrow> ch < l_chans l)"

text \<open>A caller that waits is woken, or waits for units in flight.\<close>

fun stage_ok :: "lifecycle \<Rightarrow> stage \<Rightarrow> bool" where
  "stage_ok l (Waiting_idle None) \<longleftrightarrow> l_closed l"
| "stage_ok l (Waiting_idle (Some ch)) \<longleftrightarrow> l_closed l \<and> ch < l_chans l \<and> (woken l ch \<or> 0 < l_inflight l)"
| "stage_ok l (Flushing ok) \<longleftrightarrow> (if ok then l_done l else l_forced l)"
| "stage_ok l (Returned ok) \<longleftrightarrow> (if ok then l_done l else l_forced l)"

definition calls_ok :: "local_run \<Rightarrow> bool" where
  "calls_ok st \<longleftrightarrow> (\<forall>i s. at_stage st i s \<longrightarrow> stage_ok (run_life st) s)"

definition local_inv :: "dispatch_config \<Rightarrow> local_run \<Rightarrow> bool" where
  "local_inv cfg st \<longleftrightarrow> channels_ok cfg (lr_bus st) \<and> tasks_ok (lr_bus st) \<and> life_ok (run_life st) \<and> calls_ok st
     \<and> (0 < ds_interrupted (lr_bus st) \<longrightarrow> l_cancelled (run_life st))"

text \<open>How a step may change the Lifecycle under the callers.\<close>

definition life_grows :: "lifecycle \<Rightarrow> lifecycle \<Rightarrow> bool" where
  "life_grows l l' \<longleftrightarrow> (l_closed l \<longrightarrow> l_closed l') \<and> (l_forced l \<longrightarrow> l_forced l') \<and> (l_done l \<longrightarrow> l_done l') \<and> l_chans l \<le> l_chans l'
     \<and> (\<forall>ch. ch < l_chans l \<and> l_closed l \<and> (woken l ch \<or> 0 < l_inflight l) \<longrightarrow> woken l' ch \<or> 0 < l_inflight l')"

lemma stage_ok_grows: "stage_ok l s \<Longrightarrow> life_grows l l' \<Longrightarrow> stage_ok l' s"
  by (induction l s rule: stage_ok.induct) (auto simp: life_grows_def split: if_splits)

lemma life_grows_refl [simp]: "life_grows l l"
  by (simp add: life_grows_def)

lemma life_grows_ops:
  "life_grows l (Interrupt l)" "life_grows l (BeginShutdown l)" "life_grows l (release l)"
  "life_ok l \<Longrightarrow> Wait_pass l = (r, l') \<Longrightarrow> life_grows l l'" "0 \<le> l_inflight l \<Longrightarrow> Track l = Some l' \<Longrightarrow> life_grows l l'"
  "0 \<le> l_inflight l \<Longrightarrow> Admit n l = Inr l' \<Longrightarrow> life_grows l l'"
  by (auto simp: life_grows_def life_ok_def woken_def Interrupt_def BeginShutdown_def release_def Let_def Wait_pass_def Track_def Admit_def
      split: if_splits option.splits)

lemma life_ok_ops:
  "life_ok l \<Longrightarrow> life_ok (Interrupt l)" "life_ok l \<Longrightarrow> life_ok (BeginShutdown l)" "life_ok l \<Longrightarrow> 0 < l_inflight l \<Longrightarrow> life_ok (release l)"
  "life_ok l \<Longrightarrow> l_closed l \<Longrightarrow> Wait_pass l = (r, l') \<Longrightarrow> life_ok l'" "life_ok l \<Longrightarrow> Track l = Some l' \<Longrightarrow> life_ok l'"
  "life_ok l \<Longrightarrow> Admit n l = Inr l' \<Longrightarrow> life_ok l'"
  by (auto simp: life_ok_def Interrupt_def BeginShutdown_def release_def Let_def Wait_pass_def Track_def Admit_def split: if_splits option.splits)

lemma cancelled_simps [simp]:
  "l_cancelled (release l) = l_cancelled l" "l_cancelled (BeginShutdown l) = l_cancelled l" "l_cancelled (Interrupt l)"
  by (simp_all add: release_def BeginShutdown_def Interrupt_def Let_def)

lemma cancel_kept:
  "Wait_pass l = (r, l') \<Longrightarrow> l_cancelled l' = l_cancelled l" "Track l = Some l' \<Longrightarrow> l_cancelled l' = l_cancelled l"
  "Admit n l = Inr l' \<Longrightarrow> l_cancelled l' = l_cancelled l"
  by (auto simp: Wait_pass_def Track_def Admit_def split: if_splits option.splits)

lemma inflight_pass: "Wait_pass l = (r, l') \<Longrightarrow> l_inflight l' = l_inflight l"
  by (auto simp: Wait_pass_def split: if_splits option.splits)

text \<open>What the steps of the dispatch machine do to the Lifecycle and to the interrupted tasks.\<close>

lemma task_life:
  "task_step cfg s s' \<Longrightarrow> ds_life s' = ds_life s \<or> ds_life s' = release (ds_life s) \<and> ds_tasks s \<noteq> {#}"
  by (induction rule: task_step.induct) (auto simp: leave_def)

lemma emit_life:
  "emit_step s s' \<Longrightarrow> (ds_life s' = release (ds_life s) \<and> (0 < ds_emits s \<or> ds_tasks s \<noteq> {#}))
     \<or> Track (ds_life s) = Some (ds_life s') \<or> (\<exists>n. Admit n (ds_life s) = Inr (ds_life s'))"
  by (induction rule: emit_step.induct) (auto simp: leave_def)

lemma task_interrupted: "task_step cfg s s' \<Longrightarrow> ds_interrupted s' = ds_interrupted s \<or> l_cancelled (ds_life s)"
  by (induction rule: task_step.induct) (auto simp: leave_def leave_queue_def Let_def split: if_splits)

lemma emit_interrupted: "emit_step s s' \<Longrightarrow> ds_interrupted s' = ds_interrupted s"
  by (induction rule: emit_step.induct) (auto simp: leave_def)

lemma busy_inflight:
  "tasks_ok s \<Longrightarrow> 0 < ds_emits s \<Longrightarrow> 0 < l_inflight (ds_life s)" "tasks_ok s \<Longrightarrow> ds_tasks s \<noteq> {#} \<Longrightarrow> 0 < l_inflight (ds_life s)"
  by (auto simp: tasks_ok_def nonempty_has_size)

lemmas life_ok_release = life_ok_ops(3)[OF _ busy_inflight(1)] life_ok_ops(3)[OF _ busy_inflight(2)]

lemma inflight_nonneg: "tasks_ok s \<Longrightarrow> 0 \<le> l_inflight (ds_life s)"
  by (simp add: tasks_ok_def)

text \<open>A step of the bus keeps the invariant.\<close>

lemma inv_bus:
  assumes inv: "local_inv cfg st" and ok: "channels_ok cfg d" "tasks_ok d"
    and life: "life_ok (ds_life d)" "life_grows (run_life st) (ds_life d)"
    and int: "ds_interrupted d = ds_interrupted (lr_bus st) \<or> l_cancelled (run_life st)" and can: "l_cancelled (ds_life d) = l_cancelled (run_life st)"
  shows "local_inv cfg (st\<lparr>lr_bus := d\<rparr>)"
proof -
  have "calls_ok (st\<lparr>lr_bus := d\<rparr>)"
    using inv life(2) by (auto simp: local_inv_def calls_ok_def at_stage_def intro: stage_ok_grows)
  with assms show ?thesis by (auto simp: local_inv_def)
qed

lemma inv_task:
  assumes inv: "local_inv cfg st" and st: "task_step cfg (lr_bus st) d"
  shows "local_inv cfg (st\<lparr>lr_bus := d\<rparr>)"
proof -
  note i = inv[unfolded local_inv_def run_life_def]
  from task_life[OF st] i have "life_ok (ds_life d) \<and> life_grows (run_life st) (ds_life d) \<and> l_cancelled (ds_life d) = l_cancelled (run_life st)"
    by (auto simp: run_life_def life_grows_ops cancel_kept intro: life_ok_ops life_ok_release)
  with i task_interrupted[OF st] channels_task[OF st] tasks_task[OF st] show ?thesis
    by (intro inv_bus[OF inv]) (auto simp: run_life_def)
qed

lemma inv_emit:
  assumes inv: "local_inv cfg st" and st: "emit_step (lr_bus st) d"
  shows "local_inv cfg (st\<lparr>lr_bus := d\<rparr>)"
proof -
  note i = inv[unfolded local_inv_def run_life_def]
  then have "0 \<le> l_inflight (ds_life (lr_bus st))" by (blast intro: inflight_nonneg)
  with emit_life[OF st] i have "life_ok (ds_life d) \<and> life_grows (run_life st) (ds_life d) \<and> l_cancelled (ds_life d) = l_cancelled (run_life st)"
    by (auto simp: run_life_def life_grows_ops cancel_kept intro: life_ok_ops life_ok_release)
  with i emit_interrupted[OF st] channels_emit[OF st] tasks_emit[OF st] show ?thesis
    by (intro inv_bus[OF inv]) (auto simp: run_life_def)
qed

text \<open>A step of a caller that moves to a stage the Lifecycle supports.\<close>

lemma inv_caller:
  assumes inv: "local_inv cfg st" and at: "at_stage st i s0" and life: "life_ok l" "life_grows (run_life st) l"
    and same: "l_inflight l = l_inflight (run_life st)" and can: "l_cancelled (run_life st) \<longrightarrow> l_cancelled l" and ok: "stage_ok l s"
  shows "local_inv cfg (goto_stage i s (with_life l st))"
proof -
  have "i < length (lr_calls (with_life l st))" using at by auto
  note goto = at_stage_goto[OF this]
  have "stage_ok l x" if "at_stage st j x" for j x
    using inv that life(2) by (auto simp: local_inv_def calls_ok_def intro: stage_ok_grows)
  moreover have "at_stage (with_life l st) j x = at_stage st j x" for j x by (simp add: at_stage_def)
  ultimately have "calls_ok (goto_stage i s (with_life l st))" using ok by (simp add: calls_ok_def goto)
  with inv life(1) same can show ?thesis by (auto simp: local_inv_def run_life_def)
qed

lemma with_life_same [simp]: "with_life (run_life st) st = st"
  by (simp add: with_life_def run_life_def)

lemma inv_flush_log: "local_inv cfg (flush_log st) \<longleftrightarrow> local_inv cfg st"
  by (simp add: local_inv_def calls_ok_def at_stage_def)

lemma waiting_facts:
  assumes "local_inv cfg st" and "at_stage st i (Waiting_idle w)"
  shows "life_ok (run_life st)" "l_closed (run_life st)" "0 \<le> l_inflight (run_life st)"
proof -
  have "stage_ok (run_life st) (Waiting_idle w)" using assms by (simp add: local_inv_def calls_ok_def)
  then show "l_closed (run_life st)" by (cases w) simp_all
  show "life_ok (run_life st)" using assms(1) by (simp add: local_inv_def)
  show "0 \<le> l_inflight (run_life st)" using assms(1) inflight_nonneg by (simp add: local_inv_def run_life_def)
qed

lemma pass_stage:
  assumes "life_ok l" and "l_closed l" and "0 \<le> l_inflight l" and "Wait_pass l = (r, l')"
  shows "stage_ok l' (case r of None \<Rightarrow> Flushing True | Some ch \<Rightarrow> Waiting_idle (Some ch))"
  using assms by (cases r) (auto simp: Wait_pass_def life_ok_def split: if_splits option.splits)

lemma local_inv_pass:
  assumes inv: "local_inv cfg st" and at: "at_stage st i (Waiting_idle w)" and pass: "Wait_pass (run_life st) = (r, l')"
  shows "local_inv cfg (goto_stage i (case r of None \<Rightarrow> Flushing True | Some ch \<Rightarrow> Waiting_idle (Some ch)) (with_life l' st))"
proof -
  note w = waiting_facts[OF inv at]
  show ?thesis
    by (rule inv_caller[OF inv at life_ok_ops(4)[OF w(1,2) pass] life_grows_ops(4)[OF w(1) pass] inflight_pass[OF pass] _ pass_stage[OF w pass]])
      (simp add: cancel_kept(1)[OF pass])
qed

lemma inv_caller_step: "caller_step i st st' \<Longrightarrow> local_inv cfg st \<Longrightarrow> local_inv cfg st'"
proof (induction rule: caller_step.induct)
  case (idle st w l')
  with local_inv_pass[of cfg st i w None l'] show ?case by simp
next
  case (blocks st w ch' l')
  with local_inv_pass[of cfg st i w "Some ch'" l'] show ?case by simp
next
  case (expired st ch)
  let ?l = "Interrupt (run_life st)"
  show ?case
  proof (rule inv_caller[OF expired(3, 1)])
    show "life_ok ?l" using expired(3) by (intro life_ok_ops(1)) (simp add: local_inv_def)
    show "life_grows (run_life st) ?l" by (rule life_grows_ops)
  qed (simp_all add: Interrupt_def)
next
  case (flush st ok)
  have "stage_ok (run_life st) (Flushing ok)" using flush unfolding local_inv_def calls_ok_def by blast
  moreover have "local_inv cfg (flush_log st)" "at_stage (flush_log st) i (Flushing ok)"
    using flush by (simp_all add: inv_flush_log at_stage_def)
  ultimately have "local_inv cfg (goto_stage i (Returned ok) (with_life (run_life (flush_log st)) (flush_log st)))"
    by (intro inv_caller[of cfg "flush_log st" i "Flushing ok"]) (simp_all add: local_inv_def)
  then show ?case by (simp only: with_life_same)
qed

lemma inv_local_step: "local_step cfg st st' \<Longrightarrow> local_inv cfg st \<Longrightarrow> local_inv cfg st'"
proof (induction rule: local_step.induct)
  case (caller i st st')
  then show ?case by (simp add: inv_caller_step)
next
  case (task st d)
  then show ?case by (simp add: inv_task)
next
  case (emitter st d)
  then show ?case by (simp add: inv_emit)
next
  case (call st)
  let ?st = "with_life (BeginShutdown (run_life st)) st\<lparr>lr_calls := lr_calls st @ [\<lparr>sc_stage = Waiting_idle None, sc_expired = False\<rparr>]\<rparr>"
  have "stage_ok (BeginShutdown (run_life st)) x" if "at_stage ?st j x" for j x
  proof (cases "j < length (lr_calls st)")
    case True
    with that have "at_stage st j x" by (simp add: at_stage_def nth_append)
    with call show ?thesis by (auto simp: local_inv_def calls_ok_def intro: stage_ok_grows life_grows_ops)
  next
    case False
    with that have "x = Waiting_idle None" by (auto simp: at_stage_def nth_append less_Suc_eq)
    then show ?thesis by (simp add: BeginShutdown_def)
  qed
  then have "calls_ok ?st" by (simp add: calls_ok_def)
  with call show ?case by (auto simp: local_inv_def run_life_def with_life_def BeginShutdown_def life_ok_def)
next
  case (expires i st)
  have "at_stage (st\<lparr>lr_calls := (lr_calls st)[i := (lr_calls st ! i)\<lparr>sc_expired := True\<rparr>]\<rparr>) j x = at_stage st j x" for j x
    by (cases "j = i") (auto simp: at_stage_def)
  with expires show ?case by (simp add: local_inv_def calls_ok_def)
next
  case (signalled st t every k level now v t')
  then show ?case by (simp add: local_inv_def calls_ok_def at_stage_def run_life_def)
qed

lemma local_inv_init: "local_inv cfg (local_init lg)"
  by (simp add: local_inv_def calls_ok_def at_stage_def local_init_def run_life_def channels_ok_def tasks_ok_def dispatch_init_def
      zero_lifecycle_def life_ok_def)

lemma local_inv_reach: "local_reach cfg st \<Longrightarrow> local_inv cfg st"
  by (induction rule: local_reach.induct) (auto intro: local_inv_init inv_local_step)

section \<open>After the end\<close>

text \<open>Once the bus is done it stays done: nothing is admitted, tracked or left to release.\<close>

definition bus_over :: "dispatch \<Rightarrow> bool" where
  "bus_over d \<longleftrightarrow> l_done (ds_life d) \<and> ds_emits d = 0 \<and> ds_tasks d = {#}"

lemma done_over: "local_inv cfg st \<Longrightarrow> l_done (run_life st) \<Longrightarrow> bus_over (lr_bus st)"
  using busy_inflight[of "lr_bus st"] by (auto simp: bus_over_def local_inv_def run_life_def life_ok_def)

lemma over_task: "bus_over d \<Longrightarrow> \<not> task_step cfg d d'"
  by (auto simp: bus_over_def elim!: task_step.cases)

lemma over_emit: "bus_over d \<Longrightarrow> \<not> emit_step d d'"
  by (auto simp: bus_over_def Admit_def elim!: emit_step.cases)

text \<open>What no step of a caller touches.\<close>

definition counts :: "dispatch \<Rightarrow> nat \<times> nat \<times> nat \<times> nat" where
  "counts d = (ds_tracked d, ds_ran d, ds_dropped d, ds_interrupted d)"

lemma with_life_parts [simp]: "counts (d\<lparr>ds_life := l\<rparr>) = counts d" "bus_over (d\<lparr>ds_life := l\<rparr>) \<longleftrightarrow> l_done l \<and> ds_emits d = 0 \<and> ds_tasks d = {#}"
  by (simp_all add: counts_def bus_over_def)

lemma over_step: "local_step cfg st st' \<Longrightarrow> bus_over (lr_bus st) \<Longrightarrow> bus_over (lr_bus st') \<and> counts (lr_bus st') = counts (lr_bus st)"
proof (induction rule: local_step.induct)
  case (caller i st st')
  then show ?case
  proof (induction rule: caller_step.induct)
    case (expired st ch)
    then show ?case by (simp add: bus_over_def run_life_def Interrupt_def)
  qed (auto simp: bus_over_def run_life_def Wait_pass_def split: if_splits option.splits)
next
  case (call st)
  then show ?case by (simp add: bus_over_def run_life_def BeginShutdown_def)
qed (auto simp: over_task over_emit)

lemma over_steps: "(local_step cfg)\<^sup>*\<^sup>* st st' \<Longrightarrow> bus_over (lr_bus st) \<Longrightarrow> bus_over (lr_bus st') \<and> counts (lr_bus st') = counts (lr_bus st)"
  by (induction rule: rtranclp_induct) (auto dest: over_step)

section \<open>Every Shutdown can return\<close>

lemma returns_flush: "at_stage st i (Flushing ok) \<Longrightarrow> \<exists>st'. (caller_step i)\<^sup>*\<^sup>* st st' \<and> at_stage st' i (Returned ok)"
  using caller_step.flush[of st i ok]
  by (intro exI[of _ "goto_stage i (Returned ok) (flush_log st)"] conjI) (auto simp: at_stage_goto)

text \<open>When its context expired, a caller returns by its own steps, whatever the handlers do.\<close>

lemma returns_waiting:
  assumes "at_stage st i (Waiting_idle (Some ch))" and "sc_expired (lr_calls st ! i)"
  shows "\<exists>st' ok. (caller_step i)\<^sup>*\<^sup>* st st' \<and> at_stage st' i (Returned ok)"
proof -
  let ?st = "goto_stage i (Flushing False) (with_life (Interrupt (run_life st)) st)"
  have "i < length (lr_calls (with_life (Interrupt (run_life st)) st))" using assms(1) by auto
  then have "at_stage ?st i (Flushing False)" by (simp add: at_stage_goto)
  from returns_flush[OF this] caller_step.expired[OF assms] show ?thesis by (meson converse_rtranclp_into_rtranclp)
qed

lemma expired_goto: "sc_expired (lr_calls (goto_stage i s st) ! i) = sc_expired (lr_calls st ! i)" if "i < length (lr_calls st)"
  using that by (simp add: goto_stage_def)

lemma returns_expired:
  assumes "i < length (lr_calls st)" and "sc_expired (lr_calls st ! i)"
  shows "\<exists>st' ok. (caller_step i)\<^sup>*\<^sup>* st st' \<and> at_stage st' i (Returned ok)"
proof -
  obtain s where s: "at_stage st i s" using assms(1) by (simp add: at_stage_def)
  show ?thesis
  proof (cases s)
    case (Waiting_idle w)
    show ?thesis
    proof (cases w)
      case (Some ch)
      with s Waiting_idle assms(2) show ?thesis by (intro returns_waiting) auto
    next
      case None
      obtain r l' where pass: "Wait_pass (run_life st) = (r, l')" by fastforce
      have i: "i < length (lr_calls (with_life l' st))" using assms(1) by simp
      show ?thesis
      proof (cases r)
        case None
        with caller_step.idle[of st i w l'] s Waiting_idle \<open>w = None\<close> pass
        have "caller_step i st (goto_stage i (Flushing True) (with_life l' st))" by simp
        with returns_flush[of "goto_stage i (Flushing True) (with_life l' st)" i True] i show ?thesis
          by (meson at_stage_goto converse_rtranclp_into_rtranclp)
      next
        case (Some ch)
        with caller_step.blocks[of st i w ch l'] s Waiting_idle \<open>w = None\<close> pass
        have "caller_step i st (goto_stage i (Waiting_idle (Some ch)) (with_life l' st))" by simp
        moreover have "sc_expired (lr_calls (goto_stage i (Waiting_idle (Some ch)) (with_life l' st)) ! i)"
          using assms i by (simp add: expired_goto)
        ultimately show ?thesis
          using returns_waiting[of "goto_stage i (Waiting_idle (Some ch)) (with_life l' st)" i ch] i
          by (meson at_stage_goto converse_rtranclp_into_rtranclp)
      qed
    qed
  qed (use s returns_flush in blast, use s in blast)
qed

text \<open>Otherwise the tasks and emits drain, which wakes the caller.\<close>

lemma lift_tasks: "(task_step cfg)\<^sup>*\<^sup>* d d' \<Longrightarrow> (local_step cfg)\<^sup>*\<^sup>* (st\<lparr>lr_bus := d\<rparr>) (st\<lparr>lr_bus := d'\<rparr>)"
proof (induction rule: rtranclp_induct)
  case (step d1 d2)
  from local_step.task[of cfg "st\<lparr>lr_bus := d1\<rparr>" d2] step show ?case by (simp add: rtranclp.rtrancl_into_rtrancl)
qed simp

lemma end_emits: "\<exists>d'. emit_step\<^sup>*\<^sup>* d d' \<and> ds_emits d' = 0 \<and> ds_tasks d' = ds_tasks d"
proof (induction "ds_emits d" arbitrary: d)
  case (Suc n)
  let ?d = "d\<lparr>ds_life := release (ds_life d), ds_emits := ds_emits d - 1\<rparr>"
  have "emit_step d ?d" using Suc(2) by (intro emit_step.emit_end) simp
  moreover have "n = ds_emits ?d" using Suc(2) by simp
  from Suc(1)[OF this] obtain d' where "emit_step\<^sup>*\<^sup>* ?d d'" "ds_emits d' = 0" "ds_tasks d' = ds_tasks d" by auto
  ultimately show ?case by (blast intro: converse_rtranclp_into_rtranclp)
qed auto

lemma lift_emits: "emit_step\<^sup>*\<^sup>* d d' \<Longrightarrow> (local_step cfg)\<^sup>*\<^sup>* (st\<lparr>lr_bus := d\<rparr>) (st\<lparr>lr_bus := d'\<rparr>)"
proof (induction rule: rtranclp_induct)
  case (step d1 d2)
  from local_step.emitter[of "st\<lparr>lr_bus := d1\<rparr>" d2 cfg] step show ?case by (simp add: rtranclp.rtrancl_into_rtrancl)
qed simp

lemma local_steps_inv: "(local_step cfg)\<^sup>*\<^sup>* st st' \<Longrightarrow> local_inv cfg st \<Longrightarrow> local_inv cfg st'"
  by (induction rule: rtranclp_induct) (auto intro: inv_local_step)

lemma idle_reachable:
  assumes inv: "local_inv cfg st" and cfg: "0 < dc_MaxConcurrent cfg" "0 < dc_QueueSize cfg"
  shows "\<exists>d. (local_step cfg)\<^sup>*\<^sup>* st (st\<lparr>lr_bus := d\<rparr>) \<and> l_inflight (ds_life d) = 0"
proof -
  have "channels_ok cfg (lr_bus st)" using inv by (simp add: local_inv_def)
  from drain[OF this cfg] obtain d1 where d1: "(task_step cfg)\<^sup>*\<^sup>* (lr_bus st) d1" "ds_tasks d1 = {#}" by blast
  obtain d2 where d2: "emit_step\<^sup>*\<^sup>* d1 d2" "ds_emits d2 = 0" "ds_tasks d2 = {#}" using end_emits[of d1] d1(2) by auto
  have path: "(local_step cfg)\<^sup>*\<^sup>* st (st\<lparr>lr_bus := d2\<rparr>)"
    using rtranclp_trans[OF lift_tasks[OF d1(1), of st] lift_emits[OF d2(1), of cfg st]] by simp
  have "tasks_ok d2" using local_steps_inv[OF path inv] by (simp add: local_inv_def)
  with d2 path show ?thesis by (auto simp: tasks_ok_def)
qed

lemma callers_lift: "(caller_step i)\<^sup>*\<^sup>* st st' \<Longrightarrow> (local_step cfg)\<^sup>*\<^sup>* st st'"
  by (induction rule: rtranclp_induct) (auto intro: rtranclp.rtrancl_into_rtrancl local_step.caller)

lemma returns_drained:
  assumes inv: "local_inv cfg st" and cfg: "0 < dc_MaxConcurrent cfg" "0 < dc_QueueSize cfg" and i: "at_stage st i (Waiting_idle w)"
  shows "\<exists>st'. (local_step cfg)\<^sup>*\<^sup>* st st' \<and> at_stage st' i (Returned True)"
proof -
  obtain d where d: "(local_step cfg)\<^sup>*\<^sup>* st (st\<lparr>lr_bus := d\<rparr>)" "l_inflight (ds_life d) = 0" using idle_reachable[OF inv cfg] by blast
  let ?st = "st\<lparr>lr_bus := d\<rparr>"
  have at: "at_stage ?st i (Waiting_idle w)" using i by (simp add: at_stage_def)
  have "stage_ok (run_life ?st) (Waiting_idle w)"
    using local_steps_inv[OF d(1) inv] at unfolding local_inv_def calls_ok_def by blast
  then have woken: "woken (run_life ?st) ch" if "w = Some ch" for ch using that d(2) by auto
  have "Wait_pass (run_life ?st) = (None, (ds_life d)\<lparr>l_done := True\<rparr>)" using d(2) by (simp add: Wait_pass_def)
  from caller_step.idle[OF at woken this]
  have st: "caller_step i ?st (goto_stage i (Flushing True) (with_life ((ds_life d)\<lparr>l_done := True\<rparr>) ?st))" by blast
  have "i < length (lr_calls (with_life ((ds_life d)\<lparr>l_done := True\<rparr>) ?st))" using at by auto
  then have "at_stage (goto_stage i (Flushing True) (with_life ((ds_life d)\<lparr>l_done := True\<rparr>) ?st)) i (Flushing True)"
    by (simp add: at_stage_goto)
  from returns_flush[OF this] st obtain st' where "(caller_step i)\<^sup>*\<^sup>* ?st st'" "at_stage st' i (Returned True)"
    by (meson converse_rtranclp_into_rtranclp)
  with d(1) show ?thesis by (meson callers_lift rtranclp_trans)
qed

section \<open>Properties\<close>



text \<open>
  C16. A Shutdown of the local bus that returned nil left nothing behind. In every interleaving of
  emits, tasks, expiring contexts and calls of Shutdown and Close: the tasks that hold a slot are
  at most MaxConcurrent and those with a queue token at most QueueSize, and every tracked task is
  unfinished or ended exactly once, as run, dropped or interrupted. Once some Shutdown returned
  nil no emit runs and no task is unfinished, this stays so for good and nothing is counted any
  more, and unless a context expired every task that was tracked ran or was dropped: none was
  interrupted. A Shutdown that returned the error of its context has interrupted the bus.
\<close>

theorem local_shutdown_drained:
  assumes "local_reach cfg st"
  shows "size (filter_mset has_slot (ds_tasks (lr_bus st))) \<le> dc_MaxConcurrent cfg
    \<and> size (filter_mset has_token (ds_tasks (lr_bus st))) \<le> dc_QueueSize cfg
    \<and> ds_tracked (lr_bus st) = size (ds_tasks (lr_bus st)) + ds_ran (lr_bus st) + ds_dropped (lr_bus st) + ds_interrupted (lr_bus st)
    \<and> (at_stage st i (Returned True) \<and> (local_step cfg)\<^sup>*\<^sup>* st st' \<longrightarrow> ds_emits (lr_bus st') = 0 \<and> ds_tasks (lr_bus st') = {#}
        \<and> counts (lr_bus st') = counts (lr_bus st) \<and> (\<not> l_cancelled (run_life st) \<longrightarrow> ds_tracked (lr_bus st) = ds_ran (lr_bus st) + ds_dropped (lr_bus st)))
    \<and> (at_stage st i (Returned False) \<longrightarrow> l_cancelled (run_life st) \<and> Track (run_life st) = None \<and> Admit True (run_life st) = Inl ErrBusClosed)"
proof -
  note inv = local_inv_reach[OF assms]
  have stage: "stage_ok (run_life st) s" if "at_stage st i s" for s using inv that unfolding local_inv_def calls_ok_def by blast
  have over: "bus_over (lr_bus st)" if "at_stage st i (Returned True)" using stage[OF that] done_over[OF inv] by simp
  have "ds_emits (lr_bus st') = 0 \<and> ds_tasks (lr_bus st') = {#} \<and> counts (lr_bus st') = counts (lr_bus st)
      \<and> (\<not> l_cancelled (run_life st) \<longrightarrow> ds_tracked (lr_bus st) = ds_ran (lr_bus st) + ds_dropped (lr_bus st))"
    if "at_stage st i (Returned True)" "(local_step cfg)\<^sup>*\<^sup>* st st'"
    using over_steps[OF that(2) over[OF that(1)]] over[OF that(1)] inv by (auto simp: bus_over_def local_inv_def tasks_ok_def)
  moreover have "l_cancelled (run_life st) \<and> Track (run_life st) = None \<and> Admit True (run_life st) = Inl ErrBusClosed"
    if "at_stage st i (Returned False)"
    using stage[OF that] inv by (simp add: local_inv_def life_ok_def Track_def Admit_def)
  ultimately show ?thesis using inv by (auto simp: local_inv_def channels_ok_def tasks_ok_def)
qed

text \<open>
  C17. Dispatch has no deadlock and every Shutdown of the local bus can return. On a bus made by
  NewLocalBus, whatever the options, in every reachable state: when a task is unfinished some
  task can take a step of its own, with no help of an emitter, provided running handlers return,
  and the number of such steps is bounded by the work that is left; a Shutdown that waits returns
  nil once the emits and tasks ended, which they can from every state; and a Shutdown whose
  context expired returns by its own steps alone, even when handlers never do.
\<close>

theorem local_shutdown_returns:
  assumes "cfg = NewLocalBus_dispatch m q ov" and "local_reach cfg st" and "i < length (lr_calls st)"
  shows "(ds_tasks (lr_bus st) \<noteq> {#} \<longrightarrow> (\<exists>d. task_step cfg (lr_bus st) d))
    \<and> (\<forall>n d. (task_step cfg ^^ n) (lr_bus st) d \<longrightarrow> n \<le> work_left (lr_bus st))
    \<and> (\<forall>w. at_stage st i (Waiting_idle w) \<longrightarrow> (\<exists>st'. (local_step cfg)\<^sup>*\<^sup>* st st' \<and> at_stage st' i (Returned True)))
    \<and> (sc_expired (lr_calls st ! i) \<longrightarrow> (\<exists>st' ok. (caller_step i)\<^sup>*\<^sup>* st st' \<and> at_stage st' i (Returned ok)))"
proof (intro conjI allI impI)
  note inv = local_inv_reach[OF assms(2)]
  then have ch: "channels_ok cfg (lr_bus st)" by (simp add: local_inv_def)
  show "\<exists>d. task_step cfg (lr_bus st) d" if "ds_tasks (lr_bus st) \<noteq> {#}" using task_progress[OF ch] that by (simp add: assms(1))
  show "n \<le> work_left (lr_bus st)" if "(task_step cfg ^^ n) (lr_bus st) d" for n d using task_steps_bounded[OF that] by simp
  show "\<exists>st'. (local_step cfg)\<^sup>*\<^sup>* st st' \<and> at_stage st' i (Returned True)" if "at_stage st i (Waiting_idle w)" for w
    using returns_drained[OF inv _ _ that] by (simp add: assms(1))
  show "\<exists>st' ok. (caller_step i)\<^sup>*\<^sup>* st st' \<and> at_stage st' i (Returned ok)" if "sc_expired (lr_calls st ! i)"
    by (rule returns_expired[OF assms(3) that])
qed

text \<open>A run for the witnesses: a Shutdown of an idle bus returns nil; another one has just begun.\<close>

definition begun_run :: local_run where
  "begun_run = \<lparr>lr_bus = dispatch_init\<lparr>ds_life := zero_lifecycle\<lparr>l_closed := True\<rparr>\<rparr>,
     lr_calls = [\<lparr>sc_stage = Waiting_idle None, sc_expired = False\<rparr>], lr_log = None, lr_summaries = []\<rparr>"

definition returned_run :: local_run where
  "returned_run = begun_run\<lparr>lr_bus := dispatch_init\<lparr>ds_life := zero_lifecycle\<lparr>l_closed := True, l_done := True\<rparr>\<rparr>,
     lr_calls := [\<lparr>sc_stage = Returned True, sc_expired = False\<rparr>]\<rparr>"

lemma reach_begun: "local_reach cfg begun_run"
  using local_reach.step[OF local_reach.init[of cfg None] local_step.call]
  by (simp add: begun_run_def local_init_def with_life_def run_life_def BeginShutdown_def dispatch_init_def)

lemma reach_returned: "local_reach cfg returned_run"
proof -
  let ?f = "goto_stage 0 (Flushing True) (with_life (zero_lifecycle\<lparr>l_closed := True, l_done := True\<rparr>) begun_run)"
  have a: "caller_step 0 begun_run ?f"
    by (rule caller_step.idle[where w = None]) (simp_all add: at_stage_def begun_run_def run_life_def Wait_pass_def zero_lifecycle_def)
  have "caller_step 0 ?f (goto_stage 0 (Returned True) (flush_log ?f))"
    by (rule caller_step.flush) (simp add: at_stage_def begun_run_def goto_stage_def with_life_def)
  moreover have "goto_stage 0 (Returned True) (flush_log ?f) = returned_run"
    by (simp add: returned_run_def begun_run_def goto_stage_def with_life_def flush_log_def)
  ultimately have "caller_step 0 ?f returned_run" by simp
  with a show ?thesis by (meson local_reach.step local_step.caller reach_begun)
qed

theorem local_shutdown_drained_witness:
  "ds_emits (lr_bus returned_run) = 0 \<and> ds_tracked (lr_bus returned_run) = ds_ran (lr_bus returned_run) + ds_dropped (lr_bus returned_run)"
proof -
  have "at_stage returned_run 0 (Returned True)" "\<not> l_cancelled (run_life returned_run)"
    by (simp_all add: at_stage_def returned_run_def run_life_def zero_lifecycle_def)
  with local_shutdown_drained[OF reach_returned[of "NewLocalBus_dispatch 1 1 OverflowDrop"], of 0 returned_run] show ?thesis by auto
qed

theorem local_shutdown_returns_witness:
  "\<exists>st'. (local_step (NewLocalBus_dispatch 1 1 OverflowBlock))\<^sup>*\<^sup>* begun_run st' \<and> at_stage st' 0 (Returned True)"
  using local_shutdown_returns[OF refl reach_begun[of "NewLocalBus_dispatch 1 1 OverflowBlock"], of 0]
  by (simp add: begun_run_def at_stage_def)

end
