(* ===== verification/Jetstream_Consume.thy ===== *)
theory Jetstream_Consume
  imports Local_Bus
begin

text \<open>
  The consumer side of the JetStream bus (jetstream/bus.go): one message from its delivery to
  the one action the broker is told. The broker's message is an argument: its data, what its
  Metadata method answers and what happens when it is acknowledged, naked or terminated. The
  functions return the list of actions performed, beside the world.
\<close>

section \<open>Messages and the bus\<close>

datatype action = ActAck | ActNak | ActNakWithDelay duration | ActTermWithReason string

record msg_metadata =
  mm_NumDelivered :: int
  mm_Stream :: string
  mm_Consumer :: string
  mm_StreamSeq :: int
  mm_Timestamp :: time

record 'u js_msg =
  jm_Subject :: string
  jm_Data :: string
  jm_Headers :: headers
  jm_Metadata :: "error + msg_metadata"
  jm_act :: "action \<Rightarrow> ('u, error option) comp"

record deliveryPolicy =
  dp_maxDeliver :: int
  dp_backOff :: "duration list"

text \<open>
  The bus: NewBus always has an observer. The Lifecycle and the flag of the settleGuard of the
  message live in the user state. Decode may return a nil context.
\<close>

record 'u js_bus =
  jb_observer :: nat
  jb_dlq :: "'u publisher option"
  jb_invoker :: "'u invoker"
  jb_Decode :: "ctx \<Rightarrow> string \<Rightarrow> ('u, ctx option \<times> (error + event)) comp"
  jb_circuitOpenDelay :: duration
  jb_rateLimitDelay :: duration
  jb_source :: nat
  jb_marker :: nat
  jb_getLife :: "'u \<Rightarrow> lifecycle"
  jb_putLife :: "lifecycle \<Rightarrow> 'u \<Rightarrow> 'u"
  jb_getGuard :: "'u \<Rightarrow> bool"
  jb_putGuard :: "bool \<Rightarrow> 'u \<Rightarrow> 'u"

definition defaultBackOff :: "duration list" where
  "defaultBackOff = [1 * Second, 5 * Second, 30 * Second, 60 * Second]"

definition js_life :: "'u js_bus \<Rightarrow> 'u world \<Rightarrow> lifecycle" where
  "js_life B w = jb_getLife B (w_user w)"

definition js_set_life :: "'u js_bus \<Rightarrow> lifecycle \<Rightarrow> 'u world \<Rightarrow> 'u world" where
  "js_set_life B l w = w\<lparr>w_user := jb_putLife B l (w_user w)\<rparr>"

definition js_set_guard :: "'u js_bus \<Rightarrow> bool \<Rightarrow> 'u world \<Rightarrow> 'u world" where
  "js_set_guard B g w = w\<lparr>w_user := jb_putGuard B g (w_user w)\<rparr>"

text \<open>\<^verbatim>\<open>b.obs().InternalError\<close>: the observer of the bus, whatever the context carries.\<close>

definition js_internalError :: "'u js_bus \<Rightarrow> ctx \<Rightarrow> Op \<Rightarrow> string \<Rightarrow> string \<Rightarrow> error \<Rightarrow> 'u world \<Rightarrow> 'u world" where
  "js_internalError B c op handler subject err =
     emit (c\<lparr>cx_observer := Some (jb_observer B)\<rparr>) (InternalError
       \<lparr>ie_Component = ComponentTransport, ie_Op = op, ie_Handler = handler, ie_Subject = subject,
        ie_Err = Some err\<rparr>)"

definition msgScope :: "'u js_bus \<Rightarrow> ctx \<Rightarrow> 'u world \<Rightarrow> (ctx \<times> nat) \<times> 'u world" where
  "msgScope B c = WithFailureScope (WithObserver c (Some (jb_observer B)))"

definition js_delivery :: "'u js_bus \<Rightarrow> ctx \<Rightarrow> 'u js_msg \<Rightarrow> deliveryPolicy \<Rightarrow> 'u world \<Rightarrow> delivery \<times> 'u world" where
  "js_delivery B c msg policy w =
     (let d = zero_delivery\<lparr>d_System := ''nats'', d_Count := 1, d_Max := dp_maxDeliver policy,
                d_Subject := jm_Subject msg, d_Raw := jm_Data msg, d_Headers := jm_Headers msg\<rparr>
      in case jm_Metadata msg of
           Inl err \<Rightarrow> (d, js_internalError B c OpConsume [] (d_Subject d)
             (WrapError (''jetstream: message metadata unavailable, treating as first delivery: '' @ Error_text err) [err]) w)
         | Inr md \<Rightarrow> (d\<lparr>d_Count := (if mm_NumDelivered md > 0 then mm_NumDelivered md else d_Count d),
             d_Stream := mm_Stream md, d_Consumer := mm_Consumer md, d_StreamSeq := mm_StreamSeq md,
             d_PublishedAt := mm_Timestamp md\<rparr>, w))"

section \<open>The settle guard\<close>

definition guarded_Publish :: "'u js_bus \<Rightarrow> 'u publisher \<Rightarrow> 'u publisher" where
  "guarded_Publish B p c rec w = (case p c rec w of
     (Ret None, w1) \<Rightarrow> (Ret None, js_set_guard B True w1) | (r, w1) \<Rightarrow> (r, w1))"

text \<open>
  The flag \<^verbatim>\<open>guard.ended\<close>: set by a guarded publish that succeeded, or by a Failure signal
  that reached the guardObserver, that is one made on the FailureScope of this message.
\<close>

definition guard_ended :: "'u js_bus \<Rightarrow> nat \<Rightarrow> 'u world \<Rightarrow> bool" where
  "guard_ended B sid w \<longleftrightarrow> jb_getGuard B (w_user w) \<or> list_ex (failure_on sid) (w_trace w)"

section \<open>Actions\<close>

definition delayFor :: "'u js_bus \<Rightarrow> error option \<Rightarrow> delivery \<Rightarrow> duration list \<Rightarrow> duration" where
  "delayFor B err d backOff0 =
     (let backOff = (if backOff0 = [] then defaultBackOff else backOff0);
          is = (\<lambda>t. case err of None \<Rightarrow> False | Some e \<Rightarrow> errors_Is e t);
          step = backOff ! nat (min (max (d_Count d - 1) 0) (int (length backOff) - 1))
      in if is ErrDeadLetterFailed then step
         else if is ErrCircuitOpen then jb_circuitOpenDelay B
         else if is ErrRateLimited then jb_rateLimitDelay B
         else step)"

definition perform :: "'u js_bus \<Rightarrow> ctx \<Rightarrow> 'u js_msg \<Rightarrow> string \<Rightarrow> string \<Rightarrow> action \<times> Op \<Rightarrow> 'u world \<Rightarrow>
    (unit result \<times> action list) \<times> 'u world" where
  "perform B c msg handler subject ao w =
     (case jm_act msg (fst ao) w of
        (Panics v st, w1) \<Rightarrow> ((Panics v st, [fst ao]), w1)
      | (Ret None, w1) \<Rightarrow> ((Ret (), [fst ao]), w1)
      | (Ret (Some aerr), w1) \<Rightarrow> ((Ret (), [fst ao]), js_internalError B c (snd ao) handler subject aerr w1))"

definition disposition_action :: "'u js_bus \<Rightarrow> settlement \<Rightarrow> error option \<Rightarrow> delivery \<Rightarrow> deliveryPolicy \<Rightarrow>
    (action \<times> Op) option" where
  "disposition_action B s err d policy = (case s_Disposition s of
     DispositionAck \<Rightarrow> Some (ActAck, OpAck)
   | DispositionRetry \<Rightarrow> Some (ActNak, OpNak)
   | DispositionRetryDelayed \<Rightarrow>
       Some (ActNakWithDelay (delayFor B (case s_Err s of None \<Rightarrow> err | Some e \<Rightarrow> Some e) d (dp_backOff policy)), OpNak)
   | DispositionTerminal \<Rightarrow> Some (ActTermWithReason (outcome_text (s_Outcome s) @ '': '' @ s_Reason s), OpTerm)
   | DispositionInvalid \<Rightarrow> None)"

definition js_apply :: "'u js_bus \<Rightarrow> ctx \<Rightarrow> 'u js_msg \<Rightarrow> string \<Rightarrow> settlement \<Rightarrow> error option \<Rightarrow> delivery \<Rightarrow>
    deliveryPolicy \<Rightarrow> 'u world \<Rightarrow> (unit result \<times> action list) \<times> 'u world" where
  "js_apply B c msg handler s err d policy w =
     (case disposition_action B s err d policy of
        None \<Rightarrow> ((Ret (), []), w)
      | Some ao \<Rightarrow> perform B c msg handler (d_Subject d) ao w)"

definition handBack :: "'u env \<Rightarrow> 'u js_bus \<Rightarrow> ctx \<Rightarrow> 'u js_msg \<Rightarrow> string \<Rightarrow> deliveryPolicy \<Rightarrow> 'u world \<Rightarrow>
    (unit result \<times> action list) \<times> 'u world" where
  "handBack E B c msg handler policy w0 =
     (case msgScope B c w0 of ((hctx, _), w1) \<Rightarrow>
      case js_delivery B hctx msg policy w1 of (d, w2) \<Rightarrow>
      case perform B hctx msg handler (d_Subject d) (ActNak, OpNak) w2 of
        ((Panics v st, acts), w3) \<Rightarrow> ((Panics v st, acts), w3)
      | ((Ret _, acts), w3) \<Rightarrow>
          if \<not> Final d then ((Ret (), acts), w3)
          else (let cctx = hctx\<lparr>cx_sources := w_next w3 # cx_sources hctx\<rparr>;
                    w4 = fire (w_next w3) (Sentinel Canceled) (Sentinel ErrShutdownInterrupted)
                           (w3\<lparr>w_next := Suc (w_next w3)\<rparr>)
                in case Settle E (WithDelivery hctx d)
                     \<lparr>in_SubscriptionCtx = Some cctx, in_Evt = None, in_Handler = handler,
                      in_Err = Some (wrap2 (Sentinel ErrShutdownInterrupted) (Sentinel Canceled)),
                      in_Publisher = jb_dlq B\<rparr> w4 of
                     (Panics v st, w5) \<Rightarrow> ((Panics v st, acts), w5)
                   | (Ret _, w5) \<Rightarrow> ((Ret (), acts), w5)))"

section \<open>Recovery from a panic\<close>

definition panic_failure :: "string \<Rightarrow> delivery \<Rightarrow> error \<Rightarrow> time \<Rightarrow> failure_context" where
  "panic_failure handler d pe at =
     \<lparr>fc_Handler = handler, fc_Event = None, fc_Metadata = None, fc_Outcome = OutcomeDropped,
      fc_Reason = ReasonPanic, fc_Cause = Some pe, fc_Invoker = FailingInvokerOf (Some pe), fc_Attempts = 0,
      fc_Delivery = redactDelivery d, fc_Breaker = BreakerUnknown, fc_History = [], fc_At = at\<rparr>"

definition reportPanicOnFinal :: "'u js_bus \<Rightarrow> ctx \<Rightarrow> string \<Rightarrow> delivery \<Rightarrow> error \<Rightarrow> 'u world \<Rightarrow> 'u world" where
  "reportPanicOnFinal B c handler d pe w =
     emit ((WithDelivery c (redactDelivery d))\<lparr>cx_observer := Some (jb_observer B)\<rparr>)
       (Failure (panic_failure handler d pe (w_now w))) w"

definition js_recover :: "'u js_bus \<Rightarrow> ctx \<Rightarrow> 'u js_msg \<Rightarrow> string \<Rightarrow> deliveryPolicy \<Rightarrow> bool \<Rightarrow> bool \<Rightarrow> string \<Rightarrow> string \<Rightarrow>
    'u world \<Rightarrow> (unit result \<times> action list) \<times> 'u world" where
  "js_recover B c msg handler policy acted ended v st w =
     (let pe = recoveredPanic v st; w1 = js_internalError B c OpPanic handler (jm_Subject msg) pe w in
      if acted then ((Ret (), []), w1)
      else (case js_delivery B c msg policy w1 of (d, w2) \<Rightarrow>
        if Final d \<and> \<not> ended
        then perform B c msg handler (d_Subject d)
               (ActTermWithReason ''panic: recovered on the final delivery before settlement'', OpTerm)
               (reportPanicOnFinal B c handler d pe w2)
        else if ended \<and> \<not> Final d
        then perform B c msg handler (d_Subject d) (ActTermWithReason ''panic: recovered after settlement'', OpTerm) w2
        else perform B c msg handler (d_Subject d)
               (ActNakWithDelay (delayFor B (Some pe) d (dp_backOff policy)), OpNak) w2))"

section \<open>msgHandler\<close>

definition js_input :: "'u js_bus \<Rightarrow> ctx \<Rightarrow> event option \<Rightarrow> string \<Rightarrow> error option \<Rightarrow> 'u settle_input" where
  "js_input B hctx evt handler err =
     \<lparr>in_SubscriptionCtx = Some hctx, in_Evt = evt, in_Handler = handler, in_Err = err,
      in_Publisher = map_option (guarded_Publish B) (jb_dlq B)\<rparr>"

text \<open>Settle, with what apply needs next: the settlement, the error, the context, the delivery.\<close>

definition settle_msg :: "'u env \<Rightarrow> ctx \<Rightarrow> ctx \<Rightarrow> 'u settle_input \<Rightarrow> delivery \<Rightarrow>
    ('u, settlement \<times> error option \<times> ctx \<times> delivery) comp" where
  "settle_msg E sctx actx inp d w = (case Settle E sctx inp w of
     (Panics v st, w1) \<Rightarrow> (Panics v st, w1) | (Ret s, w1) \<Rightarrow> (Ret (s, in_Err inp, actx, d), w1))"

text \<open>From the scoped handler context up to the point where \<^verbatim>\<open>acted\<close> is set: decode, run, settle.\<close>

definition msg_settle :: "'u env \<Rightarrow> 'u js_bus \<Rightarrow> ctx \<Rightarrow> string \<Rightarrow> (ctx \<Rightarrow> event \<Rightarrow> ('u, error option) comp) \<Rightarrow>
    deliveryPolicy \<Rightarrow> 'u js_msg \<Rightarrow> ('u, settlement \<times> error option \<times> ctx \<times> delivery) comp" where
  "msg_settle E B hctx handler fn policy msg w =
     (case js_delivery B hctx msg policy w of (d, w1) \<Rightarrow>
      case jb_Decode B hctx (jm_Data msg) w1 of
        (Panics v st, w2) \<Rightarrow> (Panics v st, w2)
      | (Ret (mctx, Inl err), w2) \<Rightarrow>
          (let msgCtx = (case mctx of None \<Rightarrow> hctx | Some c \<Rightarrow> c) in
           settle_msg E (WithDelivery msgCtx d) msgCtx
             (js_input B hctx None handler (WrapDecodeError (Some err))) d w2)
      | (Ret (None, Inr evt), w2) \<Rightarrow> (Panics ''cannot create context from nil parent'' [], w2)
      | (Ret (Some mctx, Inr evt), w2) \<Rightarrow>
          (let msgCtx = WithExecution (WithDelivery mctx d) \<lparr>x_Handler = handler, x_StartedAt = w_now w2\<rparr> in
           case InvokeHandler msgCtx (Some (jb_invoker B)) evt handler (\<lambda>c. fn c evt) w2 of
             (err, w3) \<Rightarrow> settle_msg E msgCtx msgCtx
                 (js_input B hctx (Some evt) handler (WrapInterrupted hctx err w3)) d w3))"

text \<open>Settle and act. The first component says whether \<^verbatim>\<open>acted\<close> was set when a panic left it.\<close>

definition msg_body :: "'u env \<Rightarrow> 'u js_bus \<Rightarrow> ctx \<Rightarrow> string \<Rightarrow> (ctx \<Rightarrow> event \<Rightarrow> ('u, error option) comp) \<Rightarrow>
    deliveryPolicy \<Rightarrow> 'u js_msg \<Rightarrow> 'u world \<Rightarrow> (bool \<times> unit result \<times> action list) \<times> 'u world" where
  "msg_body E B hctx handler fn policy msg w =
     (case msg_settle E B hctx handler fn policy msg w of
        (Panics v st, w1) \<Rightarrow> ((False, Panics v st, []), w1)
      | (Ret (s, err, actx, d), w1) \<Rightarrow> (case js_apply B actx msg handler s err d policy w1 of
          ((r, acts), w2) \<Rightarrow> ((True, r, acts), w2)))"

text \<open>The entry: a fresh guard, Track, and for a message that runs its context and scope.\<close>

definition msg_track :: "'u js_bus \<Rightarrow> 'u world \<Rightarrow> bool \<times> 'u world" where
  "msg_track B w0 = (let w = js_set_guard B False w0 in case Track (js_life B w) of
     None \<Rightarrow> (False, w) | Some l \<Rightarrow> (True, js_set_life B l w))"

definition msg_entry :: "'u js_bus \<Rightarrow> ctx \<Rightarrow> 'u world \<Rightarrow> (ctx \<times> nat \<times> nat) \<times> 'u world" where
  "msg_entry B c w = (case lifecycle_context (jb_source B) (jb_marker B) c False w of ((hc, own), w1) \<Rightarrow>
     case msgScope B hc w1 of ((hctx, sid), w2) \<Rightarrow> ((hctx, sid, own), w2))"

definition msg_finish :: "'u js_bus \<Rightarrow> bool \<Rightarrow> 'u world \<Rightarrow> 'u world" where
  "msg_finish B tracked w = (if tracked then js_set_life B (release (js_life B w)) w else w)"

definition msgHandler :: "'u env \<Rightarrow> 'u js_bus \<Rightarrow> ctx \<Rightarrow> string \<Rightarrow> (ctx \<Rightarrow> event \<Rightarrow> ('u, error option) comp) \<Rightarrow>
    deliveryPolicy \<Rightarrow> 'u js_msg \<Rightarrow> 'u world \<Rightarrow> (unit result \<times> action list) \<times> 'u world" where
  "msgHandler E B c handler fn policy msg w0 =
     (case msg_track B w0 of (tracked, w) \<Rightarrow>
        if \<not> tracked \<or> Closing (js_life B w)
        then (case handBack E B c msg handler policy w of
            ((Ret _, acts), w1) \<Rightarrow> ((Ret (), acts), msg_finish B tracked w1)
          | ((Panics v st, acts), w1) \<Rightarrow>
              (case js_recover B c msg handler policy True False v st w1 of
                 ((r, rest), w2) \<Rightarrow> ((r, acts @ rest), msg_finish B tracked w2)))
        else (case msg_entry B c w of ((hctx, sid, own), w2) \<Rightarrow>
              case msg_body E B hctx handler fn policy msg w2 of
                ((acted, Ret _, acts), w3) \<Rightarrow> ((Ret (), acts), msg_finish B tracked (stop own w3))
              | ((acted, Panics v st, acts), w3) \<Rightarrow>
                  (case js_recover B c msg handler policy acted (guard_ended B sid w3) v st (stop own w3) of
                     ((r, rest), w4) \<Rightarrow> ((r, acts @ rest), msg_finish B tracked w4))))"

section \<open>One action per message\<close>

lemma perform_acts: "perform B c msg h subj ao w = ((r, acts), w') \<Longrightarrow> acts = [fst ao]"
  by (auto simp: perform_def split: prod.splits result.splits option.splits)

lemma handBack_acts: "handBack E B c msg h pol w = ((r, acts), w') \<Longrightarrow> acts = [ActNak]"
  by (auto simp: handBack_def Let_def split: prod.splits result.splits if_splits dest!: perform_acts)

lemma Settle_disposition:
  assumes "Settle E c inp w = (Ret s, w')"
  shows "s_Disposition s \<noteq> DispositionInvalid"
proof (cases "in_Err inp")
  case None
  with assms show ?thesis by (auto simp: Settle_def)
next
  case (Some err)
  then obtain w1 where "settle_body E c inp err w = (Ret s, w1)" using Settle_Ret[OF assms] by blast
  then show ?thesis
  proof (cases rule: settle_body_cases)
    case terminal
    from settle_terminal_cases[OF terminal(3)] show ?thesis by auto
  qed auto
qed

text \<open>A settlement of a message: valid, and an Ack settles a handled error.\<close>

lemma Settle_ack_handled:
  assumes "Settle E c inp w = (Ret s, w')" and "s_Disposition s = DispositionAck"
  shows "handled (in_Err inp)"
proof (cases "in_Err inp")
  case (Some err)
  then obtain u where "settle_body E c inp err w = (Ret s, u)" using Settle_Ret[OF assms(1)] by blast
  then have "Dispose (Some err) (delivery_of c) = DispositionAck"
    by (cases rule: settle_body_cases) (use assms(2) in \<open>auto dest: settle_terminal_cases\<close>)
  then show ?thesis by (auto simp: Some handled_def Dispose_def retryUnlessFinal_def split: if_splits)
qed (simp add: handled_def)

lemma settle_msg_Ret:
  "settle_msg E sctx actx inp d w = (Ret (s, err, a', d'), w') \<Longrightarrow>
     s_Disposition s \<noteq> DispositionInvalid \<and> (s_Disposition s = DispositionAck \<longrightarrow> handled err)"
  by (auto simp: settle_msg_def split: prod.splits result.splits dest: Settle_disposition Settle_ack_handled)

lemma msg_settle_Ret:
  "msg_settle E B hctx h fn pol msg w = (Ret (s, err, actx, d), w') \<Longrightarrow>
     s_Disposition s \<noteq> DispositionInvalid \<and> (s_Disposition s = DispositionAck \<longrightarrow> handled err)"
  by (auto simp: msg_settle_def Let_def split: prod.splits result.splits sum.splits option.splits
      dest!: settle_msg_Ret)

lemma msg_body_acts:
  assumes "msg_body E B hctx h fn pol msg w = ((acted, r, acts), w')"
  obtains (panicked) v st where "msg_settle E B hctx h fn pol msg w = (Panics v st, w')"
        "\<not> acted" "r = Panics v st" "acts = []"
    | (settled) s err actx d w1 ao where "msg_settle E B hctx h fn pol msg w = (Ret (s, err, actx, d), w1)"
        "acted" "disposition_action B s err d pol = Some ao" "acts = [fst ao]"
proof (cases "msg_settle E B hctx h fn pol msg w")
  case (Pair rs w1)
  show ?thesis
  proof (cases rs)
    case (Ret x)
    obtain s err actx d where x: "x = (s, err, actx, d)" by (metis prod_cases4)
    then obtain ao where "disposition_action B s err d pol = Some ao"
      using msg_settle_Ret[of E B hctx h fn pol msg w s err actx d w1] Pair Ret
      by (cases "s_Disposition s") (auto simp: disposition_action_def)
    with assms Pair Ret x show ?thesis
      by (intro settled) (auto simp: msg_body_def js_apply_def split: prod.splits dest!: perform_acts)
  qed (use assms Pair in \<open>auto simp: msg_body_def intro: panicked\<close>)
qed

text \<open>The broker client does not take back signals that were reported.\<close>

definition keeps_trace :: "'u js_msg \<Rightarrow> bool" where
  "keeps_trace msg \<longleftrightarrow> (\<forall>a w. set (w_trace w) \<subseteq> set (w_trace (snd (jm_act msg a w))))"

definition panic_reported :: "'u js_bus \<Rightarrow> ctx \<Rightarrow> 'u world \<Rightarrow> bool" where
  "panic_reported B c w \<longleftrightarrow> (\<exists>f. (jb_observer B, cx_scope c, Failure f) \<in> set (w_trace w)
     \<and> fc_Reason f = ReasonPanic \<and> fc_Outcome f = OutcomeDropped)"

lemma perform_trace:
  assumes "keeps_trace msg" and "perform B c msg h subj ao w = ((r, acts), w')"
  shows "set (w_trace w) \<subseteq> set (w_trace w')"
proof -
  obtain r1 w1 where a: "jm_act msg (fst ao) w = (r1, w1)" by force
  have "set (w_trace w) \<subseteq> set (w_trace w1)"
    using assms(1)[unfolded keeps_trace_def, rule_format, of w "fst ao"] by (simp add: a)
  moreover have "set (w_trace w1) \<subseteq> set (w_trace w')"
    using assms(2) by (auto simp: perform_def a js_internalError_def emit_trace split: result.splits option.splits)
  ultimately show ?thesis by blast
qed

lemma reportPanicOnFinal_reported: "panic_reported B c (reportPanicOnFinal B c h d pe w)"
  unfolding panic_reported_def
  by (rule exI[of _ "panic_failure h d pe (w_now w)"])
    (simp add: reportPanicOnFinal_def emit_trace WithDelivery_def panic_failure_def)

lemma panic_reported_mono: "panic_reported B c w \<Longrightarrow> set (w_trace w) \<subseteq> set (w_trace w') \<Longrightarrow> panic_reported B c w'"
  by (auto simp: panic_reported_def)

lemma js_recover_acts:
  assumes "js_recover B c msg h pol acted ended v st w = ((r, acts), w')"
  shows "if acted then acts = [] else (\<exists>a. acts = [a] \<and> a \<noteq> ActAck \<and> a \<noteq> ActNak)"
proof (cases acted)
  case False
  obtain d w2 where "js_delivery B c msg pol (js_internalError B c OpPanic h (jm_Subject msg) (recoveredPanic v st) w) = (d, w2)"
    by force
  with assms False obtain a op w3 where "perform B c msg h (d_Subject d) (a, op) w3 = ((r, acts), w')"
    and "a \<noteq> ActAck \<and> a \<noteq> ActNak"
    by (cases "Final d"; cases ended) (auto simp: js_recover_def Let_def)
  from this(2) perform_acts[OF this(1)] False show ?thesis by simp
qed (use assms in \<open>simp add: js_recover_def Let_def\<close>)

lemma js_recover_term:
  assumes "keeps_trace msg" and "js_recover B c msg h pol acted ended v st w = ((r, [ActTermWithReason reason]), w')"
  shows "ended \<or> panic_reported B c w'"
proof (cases ended)
  case False
  let ?w1 = "js_internalError B c OpPanic h (jm_Subject msg) (recoveredPanic v st) w"
  obtain d w2 where d: "js_delivery B c msg pol ?w1 = (d, w2)" by force
  have acted: "\<not> acted" using js_recover_acts[OF assms(2)] by (auto split: if_splits)
  show ?thesis
  proof (cases "Final d")
    case True
    obtain ao where "perform B c msg h (d_Subject d) ao (reportPanicOnFinal B c h d (recoveredPanic v st) w2)
        = ((r, [ActTermWithReason reason]), w')"
      using assms(2) False True acted by (simp add: js_recover_def Let_def d)
    from panic_reported_mono[OF reportPanicOnFinal_reported perform_trace[OF assms(1) this]] show ?thesis ..
  next
    case nf: False
    have "perform B c msg h (d_Subject d) (ActNakWithDelay (delayFor B (Some (recoveredPanic v st)) d (dp_backOff pol)), OpNak) w2
        = ((r, [ActTermWithReason reason]), w')"
      using assms(2) False nf acted by (simp add: js_recover_def Let_def d)
    from perform_acts[OF this] show ?thesis by simp
  qed
qed simp

section \<open>Properties\<close>

text \<open>
  What a message handler did, by cases: it handed the message back, a settlement decided, or
  a panic was recovered before any action.
\<close>

lemma msgHandler_cases:
  assumes run: "msgHandler E B c h fn pol msg w0 = ((r, acts), w')"
    and track: "msg_track B w0 = (tracked, w)" and entry: "msg_entry B c w = ((hctx, sid, own), w2)"
    and settle: "msg_settle E B hctx h fn pol msg w2 = (rs, w3)"
  obtains (handed_back) "acts = [ActNak]"
    | (settled) s err actx d ao where "rs = Ret (s, err, actx, d)"
        "disposition_action B s err d pol = Some ao" "acts = [fst ao]"
    | (recovered) v st w4 where "rs = Panics v st" "w_trace w' = w_trace w4"
        "js_recover B c msg h pol False (guard_ended B sid w3) v st (stop own w3) = ((r, acts), w4)"
proof (cases "\<not> tracked \<or> Closing (js_life B w)")
  case True
  obtain r1 a1 w1 where hb: "handBack E B c msg h pol w = ((r1, a1), w1)" by (metis prod.collapse)
  have "acts = [ActNak]"
    using run True unfolding msgHandler_def track
    by (cases r1) (auto simp: hb handBack_acts[OF hb] split: prod.splits dest!: js_recover_acts)
  then show thesis by (rule handed_back)
next
  case False
  obtain acted r1 a1 u where mb: "msg_body E B hctx h fn pol msg w2 = ((acted, r1, a1), u)" by (metis prod.collapse)
  from mb show thesis
  proof (cases rule: msg_body_acts)
    case (panicked v st)
    obtain r2 a2 w4 where rc: "js_recover B c msg h pol False (guard_ended B sid w3) v st (stop own w3) = ((r2, a2), w4)"
      by (metis prod.collapse)
    have u: "u = w3" "rs = Panics v st" using panicked(1) settle by simp_all
    have "r = r2" "acts = a2" "w' = msg_finish B tracked w4"
      using run False unfolding msgHandler_def track by (simp_all add: entry mb panicked u rc)
    then show thesis using rc u(2) by (intro recovered) (auto simp: msg_finish_def js_set_life_def)
  next
    case (settled s err actx d w1 ao)
    have "acts = a1" using run False settled(2) unfolding msgHandler_def track
      by (cases r1) (auto simp: entry mb split: prod.splits dest!: js_recover_acts)
    with settled settle show thesis by (intro that(2)) auto
  qed
qed

text \<open>
  C19. One message, one answer. Whatever the decoder, the handler, the invokers, the publisher,
  OnErr and the broker client do, panics and a shutdown included, the message handler of the
  JetStream bus performs exactly one action on the message: it is never left unanswered until
  the ack wait expires, and never answered twice.
\<close>

theorem js_one_action: "length (snd (fst (msgHandler E B c h fn pol msg w))) = 1"
proof -
  obtain r acts w' where run: "msgHandler E B c h fn pol msg w = ((r, acts), w')" by (metis prod.collapse)
  obtain tracked w1 where t: "msg_track B w = (tracked, w1)" by force
  obtain hctx sid own w2 where e: "msg_entry B c w1 = ((hctx, sid, own), w2)" by (metis prod_cases3 prod.collapse)
  obtain rs w3 where s: "msg_settle E B hctx h fn pol msg w2 = (rs, w3)" by force
  from run t e s have "length acts = 1" by (cases rule: msgHandler_cases) (auto dest!: js_recover_acts)
  with run show ?thesis by simp
qed

text \<open>
  C20. A message leaves the stream only when it is accounted for. The handler acknowledges a
  message only when its settlement answered Ack for a success, a duplicate or a failure that
  was dead-lettered; and it terminates one only when its settlement answered Terminal, or when
  a panic was recovered after the message had ended (its dead-letter publish succeeded or its
  Failure was reported), or on a final delivery after the panic itself was reported as a drop.
\<close>

theorem js_removed_only_accounted:
  assumes "msgHandler E B c h fn pol msg w0 = ((r, acts), w')" and "keeps_trace msg"
    and "msg_track B w0 = (tracked, w)" and "msg_entry B c w = ((hctx, sid, own), w2)"
    and "msg_settle E B hctx h fn pol msg w2 = (rs, w3)"
  shows "(acts = [ActAck] \<longrightarrow> (\<exists>s err actx d. rs = Ret (s, err, actx, d)
        \<and> s_Disposition s = DispositionAck \<and> handled err))
    \<and> (acts = [ActTermWithReason reason] \<longrightarrow>
        (\<exists>s err actx d. rs = Ret (s, err, actx, d) \<and> s_Disposition s = DispositionTerminal)
      \<or> (\<exists>v st. rs = Panics v st) \<and> (guard_ended B sid w3 \<or> panic_reported B c w'))"
  using assms(1, 3, 4, 5)
proof (cases rule: msgHandler_cases)
  case (settled s err actx d ao)
  have "s_Disposition s = DispositionAck \<longrightarrow> handled err" using msg_settle_Ret[OF assms(5)[unfolded settled(1)]] by simp
  with settled show ?thesis by (cases "s_Disposition s") (auto simp: disposition_action_def)
next
  case (recovered v st w4)
  have "panic_reported B c w' = panic_reported B c w4" using recovered(2) by (simp add: panic_reported_def)
  with recovered show ?thesis using js_recover_term[OF assms(2)] js_recover_acts by fastforce
qed simp

text \<open>A sample: a bus that decodes to one event, and a message that accepts every action.\<close>

definition sample_js :: "(lifecycle \<times> bool) js_bus" where
  "sample_js = \<lparr>jb_observer = 7, jb_dlq = None, jb_invoker = passthroughInvoker,
     jb_Decode = (\<lambda>c data w. (Ret (Some c, Inr sample_event), w)), jb_circuitOpenDelay = 30 * Second,
     jb_rateLimitDelay = 5 * Second, jb_source = 0, jb_marker = 0, jb_getLife = fst,
     jb_putLife = (\<lambda>l u. (l, snd u)), jb_getGuard = snd, jb_putGuard = (\<lambda>g u. (fst u, g))\<rparr>"

definition sample_msg :: "'u js_msg" where
  "sample_msg = \<lparr>jm_Subject = ''orders'', jm_Data = ''{}'', jm_Headers = [],
     jm_Metadata = Inr \<lparr>mm_NumDelivered = 1, mm_Stream = ''S'', mm_Consumer = ''C'', mm_StreamSeq = 4, mm_Timestamp = 9\<rparr>,
     jm_act = (\<lambda>a w. (Ret None, w))\<rparr>"

abbreviation sample_js_run :: "(unit result \<times> action list) \<times> (lifecycle \<times> bool) world" where
  "sample_js_run \<equiv> msgHandler timer_env sample_js Background ''h'' (\<lambda>c _. returning None c)
     \<lparr>dp_maxDeliver = 5, dp_backOff = []\<rparr> sample_msg (sample_world (zero_lifecycle, True))"

lemma sample_js_acks: "snd (fst sample_js_run) = [ActAck]"
  by (simp add: msgHandler_def msg_track_def msg_entry_def lifecycle_context_def msgScope_def WithFailureScope_def
      alloc_scope_def msg_body_def msg_settle_def settle_msg_def js_delivery_def sample_js_def sample_msg_def
      InvokeHandler_scoped run_chain_def passthroughInvoker_def recover_call_def returning_def WrapInterrupted_def
      Settle_def js_input_def js_apply_def disposition_action_def perform_def Let_def zero_settlement_def
      js_life_def js_set_life_def js_set_guard_def Track_def Closing_def zero_lifecycle_def
      WithExecution_def WithDelivery_def WithObserver_def)

theorem js_removed_only_accounted_witness:
  "\<exists>s err actx d. fst (msg_settle timer_env sample_js
      (fst (fst (msg_entry sample_js Background (snd (msg_track sample_js (sample_world (zero_lifecycle, True)))))))
      ''h'' (\<lambda>c _. returning None c) \<lparr>dp_maxDeliver = 5, dp_backOff = []\<rparr> sample_msg
      (snd (msg_entry sample_js Background (snd (msg_track sample_js (sample_world (zero_lifecycle, True)))))))
    = Ret (s, err, actx, d) \<and> s_Disposition s = DispositionAck \<and> handled err"
proof -
  let ?t = "msg_track sample_js (sample_world (zero_lifecycle, True))"
  let ?e = "msg_entry sample_js Background (snd ?t)"
  have k: "keeps_trace (sample_msg :: (lifecycle \<times> bool) js_msg)" by (simp add: keeps_trace_def sample_msg_def)
  have run: "sample_js_run = ((fst (fst sample_js_run), [ActAck]), snd sample_js_run)"
    using sample_js_acks by (metis prod.collapse)
  have e: "?e = ((fst (fst ?e), fst (snd (fst ?e)), snd (snd (fst ?e))), snd ?e)" by simp
  show ?thesis
    using js_removed_only_accounted[OF run k prod.collapse[symmetric] e prod.collapse[symmetric]] by simp
qed

text \<open>
  The redelivery delay is always defined. delayFor reads the backoff schedule inside its
  bounds for every delivery count, also zero or negative ones and an empty schedule, and
  answers an entry of the schedule, or the configured delay of the circuit breaker or of the
  rate limiter; a failed dead-letter publish always follows the schedule.
\<close>

lemma delay_within_schedule:
  "let sched = (if backOff = [] then defaultBackOff else backOff) in
    delayFor B err d backOff \<in> (if \<exists>e. err = Some e \<and> errors_Is e ErrDeadLetterFailed then set sched
      else set sched \<union> {jb_circuitOpenDelay B, jb_rateLimitDelay B})"
proof -
  let ?s = "if backOff = [] then defaultBackOff else backOff"
  have "?s \<noteq> []" by (simp add: defaultBackOff_def)
  then have "nat (min (max (d_Count d - 1) 0) (int (length ?s) - 1)) < length ?s" by (cases ?s) auto
  then have "?s ! nat (min (max (d_Count d - 1) 0) (int (length ?s) - 1)) \<in> set ?s" by (rule nth_mem)
  then show ?thesis unfolding delayFor_def Let_def by (auto split: option.splits simp del: if_image_distrib)
qed

end
