(* ===== verification/Jetstream_Publish.thy ===== *)
theory Jetstream_Publish
  imports Jetstream_Consume
begin

text \<open>
  The producer side of the JetStream bus (jetstream/bus.go): the publish retry policy, its
  jittered backoff, the publish loop, and the checks Subscribe makes before it creates a
  consumer. The broker client, the random source and the deadline of a context are arguments.
\<close>

section \<open>The retry policy\<close>

record PublishRetryPolicy =
  pr_MaxAttempts :: int
  pr_BaseDelay :: duration
  pr_MaxDelay :: duration
  pr_AttemptTimeout :: duration

definition normalized :: "PublishRetryPolicy \<Rightarrow> PublishRetryPolicy" where
  "normalized p = \<lparr>pr_MaxAttempts = (if pr_MaxAttempts p \<le> 0 then 3 else pr_MaxAttempts p),
     pr_BaseDelay = (if pr_BaseDelay p \<le> 0 then 100 * Millisecond else pr_BaseDelay p),
     pr_MaxDelay = (if pr_MaxDelay p \<le> 0 then Second else pr_MaxDelay p),
     pr_AttemptTimeout = (if pr_AttemptTimeout p = 0 then 2 * Second else pr_AttemptTimeout p)\<rparr>"

text \<open>
  The delay before the jitter, on 64-bit signed durations: the shifts wrap as Go's do. The
  shift count of a Go shift is not taken modulo the width.
\<close>

definition publish_delay :: "64 word \<Rightarrow> 64 word \<Rightarrow> nat \<Rightarrow> 64 word" where
  "publish_delay base maxd shift =
     (if shift < 32 \<and> base \<le>s signed_drop_bit shift maxd then push_bit shift base else maxd)"

text \<open>The jitter: \<open>rnd n\<close> is \<^verbatim>\<open>rand.Int64N(n)\<close>, a number from 0 to \<open>n - 1\<close>.\<close>

definition jittered :: "(int \<Rightarrow> int) \<Rightarrow> 64 word \<Rightarrow> duration" where
  "jittered rnd delay = (let half = sint delay div 2 in half + rnd (sint delay - half + 1))"

definition publish_backoff :: "PublishRetryPolicy \<Rightarrow> (int \<Rightarrow> int) \<Rightarrow> nat \<Rightarrow> duration" where
  "publish_backoff p rnd attempt =
     jittered rnd (publish_delay (word_of_int (pr_BaseDelay p)) (word_of_int (pr_MaxDelay p)) (attempt - 1))"

definition retryablePublish :: "ctx \<Rightarrow> error \<Rightarrow> 'u world \<Rightarrow> bool" where
  "retryablePublish c err w \<longleftrightarrow> ctx_Err c w = None \<and>
     (errors_Is err DeadlineExceeded \<or> errors_Is err (Foreign NatsErrTimeout)
      \<or> errors_Is err (Foreign NatsErrNoResponders) \<or> errors_Is err (Foreign JsErrNoStreamResponse))"

section \<open>The publish loop\<close>

text \<open>
  The broker client for one message (an acknowledgement says whether it is a duplicate), the
  random source and the deadline of the caller's context.
\<close>

record 'u js_client =
  jc_PublishMsg :: "ctx \<Rightarrow> ('u, error + bool) comp"
  jc_rand :: "int \<Rightarrow> 'u world \<Rightarrow> int"
  jc_Deadline :: "ctx \<Rightarrow> time option"

definition publish_once :: "'u js_client \<Rightarrow> PublishRetryPolicy \<Rightarrow> ctx \<Rightarrow> ('u, error + bool) comp" where
  "publish_once K p c w =
     (if pr_AttemptTimeout p > 0
      then (case with_timeout c w of ((actx, t), w1) \<Rightarrow>
            case jc_PublishMsg K actx w1 of (r, w2) \<Rightarrow> (r, case r of Ret _ \<Rightarrow> stop t w2 | Panics _ _ \<Rightarrow> w2))
      else jc_PublishMsg K c w)"

function publish_from :: "'u env \<Rightarrow> 'u js_client \<Rightarrow> PublishRetryPolicy \<Rightarrow> ctx \<Rightarrow> nat \<Rightarrow> error option \<Rightarrow>
    ('u, nat \<times> (error + bool)) comp" where
  "publish_from E K p c attempt lastErr w =
     (case ctx_Err c w of
        Some cerr \<Rightarrow> (Ret (attempt - 1, Inl (case lastErr of None \<Rightarrow> cerr | Some e \<Rightarrow> e)), w)
      | None \<Rightarrow>
          (case publish_once K p c w of
             (Panics v st, w1) \<Rightarrow> (Panics v st, w1)
           | (Ret (Inr dup), w1) \<Rightarrow> (Ret (attempt, Inr dup), w1)
           | (Ret (Inl err), w1) \<Rightarrow>
               if int attempt \<ge> pr_MaxAttempts p \<or> \<not> retryablePublish c err w1 then (Ret (attempt, Inl err), w1)
               else (let delay = publish_backoff p (\<lambda>n. jc_rand K n w1) attempt in
                 if (case jc_Deadline K c of None \<Rightarrow> False | Some dl \<Rightarrow> dl - w_now w1 \<le> delay) then (Ret (attempt, Inl err), w1)
                 else (case e_wait E c delay w1 of
                     (False, w2) \<Rightarrow> (Ret (attempt, Inl err), w2)
                   | (True, w2) \<Rightarrow> publish_from E K p c (Suc attempt) (Some err) w2))))"
  by pat_completeness auto
termination
  by (relation "measure (\<lambda>(E, K, p, c, attempt, _). nat (pr_MaxAttempts p - int attempt))") auto

declare publish_from.simps [simp del]

definition js_publish :: "'u env \<Rightarrow> 'u js_client \<Rightarrow> PublishRetryPolicy \<Rightarrow> ctx \<Rightarrow> ('u, nat \<times> (error + bool)) comp" where
  "js_publish E K policy c = publish_from E K (normalized policy) c 1 None"

section \<open>Subscribe\<close>

record consumer_config =
  cc_Stream :: string
  cc_Name :: string
  cc_FilterSubject :: string
  cc_MaxDeliver :: int
  cc_BackOff :: "duration list"
  cc_Handler :: string

text \<open>
  The checks and defaults up to CreateOrUpdateConsumer: an error, or the consumer to create.
  An unset (nil) BackOff gets the default schedule, an empty one is kept.
\<close>

definition subscribe_check :: "bool \<Rightarrow> string \<Rightarrow> subscribe_options \<Rightarrow> error + consumer_config" where
  "subscribe_check closing subject cfg =
     (if closing then Inl (Sentinel ErrBusClosed)
      else if so_Stream cfg = [] then Inl (Sentinel ErrStreamRequired)
      else (let consumerName = (if so_Consumer cfg = [] then subject else so_Consumer cfg);
                handlerName = (if so_HandlerName cfg = [] then consumerName else so_HandlerName cfg);
                backOff = (case so_BackOff cfg of None \<Rightarrow> defaultBackOff | Some bo \<Rightarrow> bo)
            in if so_MaxDeliver cfg > 0 \<and> so_MaxDeliver cfg \<le> int (length backOff)
               then Inl (WrapError (sentinel_text ErrInvalidConfig @ '': MaxDeliver ('' @ Itoa (so_MaxDeliver cfg)
                      @ '') must be greater than len(BackOff) ('' @ Itoa (int (length backOff)) @ '') ''
                      @ [CHR 0xE2, CHR 0x80, CHR 0x94]
                      @ '' NATS requires MaxDeliver > len(BackOff) to apply the backoff schedule'')
                      [Sentinel ErrInvalidConfig])
               else Inr \<lparr>cc_Stream = so_Stream cfg, cc_Name = consumerName, cc_FilterSubject = subject,
                      cc_MaxDeliver = so_MaxDeliver cfg, cc_BackOff = backOff, cc_Handler = handlerName\<rparr>))"


section \<open>The backoff and the loop\<close>

lemma le_div_pow: "(base::int) \<le> m div 2 ^ s \<longleftrightarrow> base * 2 ^ s \<le> m"
proof
  assume "base \<le> m div 2 ^ s"
  then have "base * 2 ^ s \<le> m div 2 ^ s * 2 ^ s" by simp
  also have "\<dots> \<le> m" by (metis div_mult_mod_eq add_increasing2 order_refl pos_mod_sign zero_less_numeral zero_less_power)
  finally show "base * 2 ^ s \<le> m" .
next
  assume "base * 2 ^ s \<le> m"
  then have "base * 2 ^ s div 2 ^ s \<le> m div 2 ^ s" by (rule zdiv_mono1) simp
  then show "base \<le> m div 2 ^ s" by simp
qed

text \<open>The delay before the jitter, on unbounded integers.\<close>

definition ideal_delay :: "int \<Rightarrow> int \<Rightarrow> nat \<Rightarrow> int" where
  "ideal_delay base maxd shift = (if shift < 32 then min maxd (base * 2 ^ shift) else maxd)"

lemma publish_delay_ideal:
  assumes "0 < base" "base < 2 ^ 63" "0 < maxd" "maxd < 2 ^ 63"
  shows "sint (publish_delay (word_of_int base) (word_of_int maxd) shift) = ideal_delay base maxd shift"
proof -
  have s: "sint (word_of_int base :: 64 word) = base" "sint (word_of_int maxd :: 64 word) = maxd"
    using assms by (simp_all add: sint_word64)
  have d: "sint (signed_drop_bit shift (word_of_int maxd) :: 64 word) = maxd div 2 ^ shift"
    using s by (simp add: sint_signed_drop_bit_eq drop_bit_eq_div)
  have le: "(word_of_int base :: 64 word) \<le>s signed_drop_bit shift (word_of_int maxd) \<longleftrightarrow> base * 2 ^ shift \<le> maxd"
    by (simp add: word_sle_eq s d le_div_pow)
  have "sint (push_bit shift (word_of_int base) :: 64 word) = base * 2 ^ shift" if "base * 2 ^ shift \<le> maxd"
  proof -
    have "(push_bit shift (word_of_int base) :: 64 word) = word_of_int (base * 2 ^ shift)"
      by (simp add: push_bit_eq_mult)
    moreover have "0 \<le> base * 2 ^ shift" using assms(1) by simp
    ultimately show ?thesis using that assms(4) sint_word64[of "base * 2 ^ shift"] by auto
  qed
  then show ?thesis unfolding publish_delay_def ideal_delay_def using le s(2) by (auto simp: min_def)
qed

lemma ideal_delay_pos: "0 < base \<Longrightarrow> 0 < maxd \<Longrightarrow> 0 < ideal_delay base maxd shift"
  by (simp add: ideal_delay_def)

lemma jittered_bounds:
  assumes "0 < sint delay" and "\<And>n. 0 < n \<Longrightarrow> 0 \<le> rnd n \<and> rnd n < n"
  shows "sint delay div 2 \<le> jittered rnd delay" "jittered rnd delay \<le> sint delay"
proof -
  have "sint delay div 2 \<le> sint delay" using assms(1) by linarith
  then show "sint delay div 2 \<le> jittered rnd delay" "jittered rnd delay \<le> sint delay"
    using assms(2)[of "sint delay - sint delay div 2 + 1"] by (auto simp: jittered_def Let_def)
qed

lemma normalized_pos: "0 < pr_MaxAttempts (normalized p)" "0 < pr_BaseDelay (normalized p)" "0 < pr_MaxDelay (normalized p)"
  by (simp_all add: normalized_def)

lemma normalized_idem: "normalized (normalized p) = normalized p"
  by (simp add: normalized_def)

text \<open>To count the publishes of a client.\<close>

definition counted_client :: "(nat \<times> 'u) js_client \<Rightarrow> (nat \<times> 'u) js_client" where
  "counted_client K = K\<lparr>jc_PublishMsg := (\<lambda>c w. case jc_PublishMsg K c w of (r, w1) \<Rightarrow> (r, bump w1))\<rparr>"

definition transient :: "error \<Rightarrow> bool" where
  "transient err \<longleftrightarrow> errors_Is err DeadlineExceeded \<or> errors_Is err (Foreign NatsErrTimeout)
     \<or> errors_Is err (Foreign NatsErrNoResponders) \<or> errors_Is err (Foreign JsErrNoStreamResponse)"

lemma calls_stop [simp]: "calls (stop t w) = calls w"
  by (simp add: stop_def fire_def calls_def)

lemma publish_once_calls:
  assumes "\<And>c. keeps (jc_PublishMsg K c)" and "publish_once (counted_client K) p c w = (r, w')"
  shows "calls w' = Suc (calls w)"
proof -
  have c: "calls u' = Suc (calls u)" if "jc_PublishMsg (counted_client K) a u = (x, u')" for a u x u'
    using that keepsD[OF assms(1)[of a]] by (auto simp: counted_client_def split: prod.splits)
  have n: "calls (w\<lparr>w_next := k\<rparr>) = calls w" for k by (simp add: calls_def)
  show ?thesis using assms(2) c n
    by (auto simp: publish_once_def with_timeout_def split: prod.splits if_splits result.splits)
qed

lemma publish_once_err:
  assumes "publish_once (counted_client K) p c w = (Ret (Inl err), w')"
  obtains a u u' where "jc_PublishMsg K a u = (Ret (Inl err), u')"
  using assms by (auto simp: publish_once_def counted_client_def split: prod.splits if_splits)

lemma publish_from_calls:
  assumes K: "\<And>c. keeps (jc_PublishMsg K c)" and E: "\<And>d. keeps (e_wait E c d)"
  shows "1 \<le> attempt \<Longrightarrow> int attempt \<le> pr_MaxAttempts p \<Longrightarrow> publish_from E (counted_client K) p c attempt lastErr w = (r, w') \<Longrightarrow>
    int (calls w') \<le> int (calls w) + (pr_MaxAttempts p - int attempt + 1)
    \<and> (case r of Ret (n, res) \<Rightarrow> calls w' + attempt = calls w + n + 1 | Panics v st \<Rightarrow> True)
    \<and> ((\<forall>a u err u'. jc_PublishMsg K a u = (Ret (Inl err), u') \<longrightarrow> \<not> transient err) \<longrightarrow> calls w' \<le> calls w + 1)"
proof (induction "nat (pr_MaxAttempts p - int attempt)" arbitrary: attempt lastErr w rule: less_induct)
  case less
  show ?case
  proof (cases "ctx_Err c w")
    case (Some cerr)
    with less.prems show ?thesis by (subst (asm) publish_from.simps) auto
  next
    case None
    obtain po w1 where po: "publish_once (counted_client K) p c w = (po, w1)" by force
    note c1 = publish_once_calls[OF K po]
    show ?thesis
    proof (cases "\<exists>err delay w2. po = Ret (Inl err) \<and> int attempt < pr_MaxAttempts p \<and> retryablePublish c err w1
        \<and> e_wait E c delay w1 = (True, w2) \<and> publish_from E (counted_client K) p c (Suc attempt) (Some err) w2 = (r, w')")
      case True
      then obtain err delay w2 where again: "po = Ret (Inl err)" "int attempt < pr_MaxAttempts p" "retryablePublish c err w1"
        "e_wait E c delay w1 = (True, w2)" "publish_from E (counted_client K) p c (Suc attempt) (Some err) w2 = (r, w')"
        by blast
      have w2: "calls w2 = Suc (calls w)" using c1 keepsD[OF E again(4)] by simp
      have ih: "int (calls w') \<le> int (calls w2) + (pr_MaxAttempts p - int (Suc attempt) + 1)
        \<and> (case r of Ret (n, res) \<Rightarrow> calls w' + Suc attempt = calls w2 + n + 1 | Panics v st \<Rightarrow> True)"
        using less.hyps[OF _ _ _ again(5)] again(2) by auto
      obtain a u u' where "jc_PublishMsg K a u = (Ret (Inl err), u')" using publish_once_err[OF po[unfolded again(1)]] .
      moreover have "transient err" using again(3) by (auto simp: retryablePublish_def transient_def)
      ultimately show ?thesis using ih w2 by (auto split: result.splits)
    next
      case False
      have "calls w' = calls w1 \<and> (case r of Ret (n, res) \<Rightarrow> n = attempt | Panics v st \<Rightarrow> True)"
        using less.prems(3) False None po keepsD[OF E]
        by (subst (asm) publish_from.simps)
          (auto simp: Let_def split: result.splits sum.splits if_splits prod.splits bool.splits)
      then show ?thesis using c1 less.prems(2) by (auto split: result.splits)
    qed
  qed
qed

section \<open>Properties\<close>

text \<open>
  C22. The publish backoff is the capped exponential with equal jitter. For every attempt and
  every policy whose delays fit a signed 64-bit duration, the shifts of backoff never wrap: the
  delay lies between half and all of the ideal delay, which is the base delay doubled per
  attempt and capped by the maximum (the maximum itself from the 33rd attempt on), so it is
  never negative and never above the maximum.
\<close>

theorem publish_backoff_bounded:
  assumes "pr_BaseDelay p < 2 ^ 63" and "pr_MaxDelay p < 2 ^ 63" and "\<forall>n > 0. 0 \<le> rnd n \<and> rnd n < n"
  shows "ideal_delay (pr_BaseDelay (normalized p)) (pr_MaxDelay (normalized p)) (attempt - 1) div 2
      \<le> publish_backoff (normalized p) rnd attempt
    \<and> publish_backoff (normalized p) rnd attempt
      \<le> ideal_delay (pr_BaseDelay (normalized p)) (pr_MaxDelay (normalized p)) (attempt - 1)
    \<and> publish_backoff (normalized p) rnd attempt \<le> pr_MaxDelay (normalized p)"
proof -
  let ?b = "pr_BaseDelay (normalized p)" and ?m = "pr_MaxDelay (normalized p)"
  have "?b < 2 ^ 63" "?m < 2 ^ 63" using assms(1, 2) by (auto simp: normalized_def)
  note d = publish_delay_ideal[OF normalized_pos(2) this(1) normalized_pos(3) this(2), of "attempt - 1"]
  have "0 < ideal_delay ?b ?m (attempt - 1)" by (intro ideal_delay_pos normalized_pos)
  moreover have "ideal_delay ?b ?m (attempt - 1) \<le> ?m" by (simp add: ideal_delay_def)
  ultimately show ?thesis
    using jittered_bounds[of "publish_delay (word_of_int ?b) (word_of_int ?m) (attempt - 1)" rnd] assms(3)
    unfolding publish_backoff_def d by auto
qed

definition default_publish :: PublishRetryPolicy where
  "default_publish = \<lparr>pr_MaxAttempts = 0, pr_BaseDelay = 0, pr_MaxDelay = 0, pr_AttemptTimeout = 0\<rparr>"

theorem publish_backoff_bounded_witness:
  "publish_backoff (normalized default_publish) (\<lambda>n. n div 3) 9 \<le> pr_MaxDelay (normalized default_publish)"
proof -
  have "\<forall>n > (0::int). 0 \<le> n div 3 \<and> n div 3 < n" by presburger
  from publish_backoff_bounded[OF _ _ this, of default_publish 9] show ?thesis by (simp add: default_publish_def)
qed


definition timeout_client :: "(nat \<times> unit) js_client" where
  "timeout_client = \<lparr>jc_PublishMsg = (\<lambda>c w. (Ret (Inl (Sentinel (Foreign NatsErrTimeout))), w)),
     jc_rand = (\<lambda>n w. 0), jc_Deadline = (\<lambda>c. None)\<rparr>"


end
