(* ===== verification/Nats_Reply.thy ===== *)
theory Nats_Reply
  imports Dead_Letter
begin

text \<open>
  The error replies of the NATS bus (nats/errors.go): the value of the reply header a failed
  request gets, and the RemoteError the requester builds from it. The lemmas show that the
  reason code survives the wire, whatever text follows it.
\<close>

section \<open>Definitions\<close>

text \<open>A \<^verbatim>\<open>nats.Msg\<close>, and \<^verbatim>\<open>Header.Get\<close>: the first value of a key, or the empty string.\<close>

record nats_msg =
  nm_Subject :: string
  nm_Reply :: string
  nm_Data :: string
  nm_Header :: headers

definition header_get :: "headers \<Rightarrow> string \<Rightarrow> string" where
  "header_get h key = (case map_of h key of Some (v # _) \<Rightarrow> v | _ \<Rightarrow> [])"

text \<open>\<^verbatim>\<open>strings.Cut\<close> around a separator that is not empty.\<close>

fun Cut :: "string \<Rightarrow> string \<Rightarrow> string \<times> string \<times> bool" where
  "Cut [] sep = ([], [], False)"
| "Cut (c # cs) sep =
     (if prefix sep (c # cs) then ([], drop (length sep) (c # cs), True)
      else (case Cut cs sep of (before, after, found) \<Rightarrow> (c # before, after, found)))"

definition HeaderError :: string where "HeaderError = ''Eventbus-Error''"

definition errorHeaderValue :: "string \<Rightarrow> error option \<Rightarrow> bool \<Rightarrow> string" where
  "errorHeaderValue reason err withMessage =
     (case err of None \<Rightarrow> reason
      | Some e \<Rightarrow> if \<not> withMessage then reason
                  else reason @ '': '' @ TruncateHeader (Error_text e) DLQHeaderValueLimit)"

definition parseRemoteError :: "string \<Rightarrow> string \<Rightarrow> error" where
  "parseRemoteError subject val = (case Cut val '': '' of (reason, msg, _) \<Rightarrow> RemoteError subject reason msg)"

section \<open>Lemmas\<close>

lemma Cut_none: "CHR '':'' \<notin> set s \<Longrightarrow> Cut s '': '' = (s, [], False)"
  by (induction s) auto

lemma Cut_found: "CHR '':'' \<notin> set s \<Longrightarrow> Cut (s @ '': '' @ t) '': '' = (s, t, True)"
  by (induction s) auto

text \<open>What the requester reads, as a message: nothing, or the truncated text.\<close>

definition reply_text :: "error option \<Rightarrow> bool \<Rightarrow> string" where
  "reply_text err withMessage = (case err of None \<Rightarrow> []
     | Some e \<Rightarrow> if withMessage then TruncateHeader (Error_text e) DLQHeaderValueLimit else [])"

lemma parse_errorHeaderValue:
  assumes "CHR '':'' \<notin> set reason"
  shows "parseRemoteError subject (errorHeaderValue reason err b) = RemoteError subject reason (reply_text err b)"
  using assms Cut_none[of reason] Cut_found[of reason]
  by (auto simp: parseRemoteError_def errorHeaderValue_def reply_text_def split: option.splits)

lemma reasons_no_colon: "reason \<in> set reasons \<Longrightarrow> CHR '':'' \<notin> set reason"
  by (auto simp: reasons_def reason_defs)

text \<open>The reason a RemoteError gives when it is classified again, one hop further.\<close>

lemma errors_As_RemoteError [simp]: "\<not> P (RemoteError s r m) \<Longrightarrow> errors_As P (RemoteError s r m) = None"
  by (simp add: errors_As_unfold)

lemma reasonSentinels_simps [simp]:
  "reasonSentinels ReasonTerminal = Some ErrSendToDLQ"
  "reasonSentinels ReasonRetriesExhausted = Some ErrRetriesExhausted"
  "reasonSentinels ReasonDeliveryExhausted = None"
  "reasonSentinels ReasonCircuitOpen = Some ErrCircuitOpen"
  "reasonSentinels ReasonRateLimited = Some ErrRateLimited"
  "reasonSentinels ReasonUnknownVersion = Some ErrUnknownVersion"
  "reasonSentinels ReasonInProgress = Some ErrInProgress"
  "reasonSentinels ReasonDecodeMalformed = Some ErrMalformedEnvelope"
  "reasonSentinels ReasonDecodeUnknownEvent = Some ErrUnknownEvent"
  "reasonSentinels ReasonDecodeMissingUpcaster = Some ErrMissingUpcaster"
  "reasonSentinels ReasonDecodeFailed = None"
  "reasonSentinels ReasonDuplicate = Some ErrDuplicate"
  "reasonSentinels ReasonInterrupted = Some ErrShutdownInterrupted"
  "reasonSentinels ReasonPanic = Some ErrHandlerPanic"
  "reasonSentinels ReasonBusClosed = None"
  "reasonSentinels ReasonQueueFull = None"
  by (simp_all add: reasonSentinels_def reason_defs)

lemma ReasonOf_RemoteError:
  assumes "r \<in> set reasons"
  shows "ReasonOf (Some (RemoteError s r m)) = (if reasonSentinels r = None then ReasonDeliveryExhausted else r)"
proof -
  have As: "errors_As is_DeadLetteredError (RemoteError s r m) = None"
    "errors_As is_DeadLetterFailedError (RemoteError s r m) = None"
    "errors_As is_FailureError (RemoteError s r m) = None" "isDecodeError (RemoteError s r m) = False"
    "as_Terminal (RemoteError s r m) = None" for r
    by (simp_all add: isDecodeError_def as_Terminal_def is_DeadLetteredError_def is_DeadLetterFailedError_def
      is_FailureError_def is_DecodeError_def)
  note R = ReasonOf_def isTerminal_def As carried_reason_def
  from assms show ?thesis unfolding reasons_def list.set insert_iff empty_iff
    by (elim disjE FalseE; simp only:) (simp_all add: R)
qed

text \<open>The headers of an error reply, and what the requester makes of the headers of a reply.\<close>

definition error_header :: "string \<Rightarrow> error option \<Rightarrow> bool \<Rightarrow> headers" where
  "error_header reason err withMessage = [(HeaderError, [errorHeaderValue reason err withMessage])]"

definition remote_of :: "string \<Rightarrow> headers \<Rightarrow> error option" where
  "remote_of subject h = (let val = header_get h HeaderError in
     if val \<noteq> [] then Some (parseRemoteError subject val) else None)"

lemma remote_of_error_header:
  assumes "reason \<noteq> []" and "CHR '':'' \<notin> set reason"
  shows "remote_of subject (error_header reason err b) = Some (RemoteError subject reason (reply_text err b))"
proof -
  have "errorHeaderValue reason err b \<noteq> []" using assms(1) by (simp add: errorHeaderValue_def split: option.splits)
  then show ?thesis by (simp add: remote_of_def header_get_def error_header_def parse_errorHeaderValue[OF assms(2)])
qed

section \<open>Properties\<close>



end
