(* ===== verification/Nats_Bus.thy ===== *)
theory Nats_Bus
  imports Local_Bus Nats_Reply
begin

text \<open>
  The NATS Core bus (nats/bus.go): Emit and EmitSync, the callbacks of Subscribe and
  SubscribeSync with the refusal after a forced shutdown and the recovery from panics, and
  the replies of a request. The connection, the registry and the deadline of a context are
  fields of the bus. The properties show that every request gets exactly one reply and that
  no panic leaves a callback. Tracing spans and debug logs are not modelled.
\<close>

section \<open>The bus\<close>

record 'u nats_bus =
  nb_Publish :: "string \<Rightarrow> string \<Rightarrow> ('u, error option) comp"
  nb_Request :: "string \<Rightarrow> string \<Rightarrow> duration \<Rightarrow> ('u, error + nats_msg) comp"
  nb_PublishMsg :: "nats_msg \<Rightarrow> ('u, error option) comp"
  nb_Decode :: "ctx \<Rightarrow> string \<Rightarrow> ('u, ctx option \<times> (error + event)) comp"
  nb_Encode :: "ctx \<Rightarrow> event \<Rightarrow> metadata \<Rightarrow> ('u, error + string) comp"
  nb_Deadline :: "ctx \<Rightarrow> time option"
  nb_timeout :: duration
  nb_invoker :: "'u invoker option"
  nb_observer :: nat
  nb_dlq :: "'u publisher option"
  nb_replyErrMsg :: bool
  nb_idGen :: "'u id_source option"
  nb_inherit :: "string list"
  nb_source :: nat
  nb_marker :: nat
  nb_getLife :: "'u \<Rightarrow> lifecycle"
  nb_putLife :: "lifecycle \<Rightarrow> 'u \<Rightarrow> 'u"

definition nats_life :: "'u nats_bus \<Rightarrow> 'u world \<Rightarrow> lifecycle" where
  "nats_life B w = nb_getLife B (w_user w)"

definition nats_set_life :: "'u nats_bus \<Rightarrow> lifecycle \<Rightarrow> 'u world \<Rightarrow> 'u world" where
  "nats_set_life B l w = w\<lparr>w_user := nb_putLife B l (w_user w)\<rparr>"

definition nats_internalError :: "'u nats_bus \<Rightarrow> ctx \<Rightarrow> Op \<Rightarrow> string \<Rightarrow> string \<Rightarrow> error \<Rightarrow> 'u world \<Rightarrow> 'u world" where
  "nats_internalError B c op handler subject err =
     emit (c\<lparr>cx_observer := Some (nb_observer B)\<rparr>) (InternalError
       \<lparr>ie_Component = ComponentTransport, ie_Op = op, ie_Handler = handler, ie_Subject = subject,
        ie_Err = Some err\<rparr>)"

definition nats_msgScope :: "'u nats_bus \<Rightarrow> ctx \<Rightarrow> 'u world \<Rightarrow> ctx \<times> 'u world" where
  "nats_msgScope B c w = (case WithFailureScope (WithObserver c (Some (nb_observer B))) w of ((c1, _), w1) \<Rightarrow> (c1, w1))"

definition deliveryOf :: "nats_msg \<Rightarrow> delivery" where
  "deliveryOf msg = zero_delivery\<lparr>d_Count := 1, d_Max := 1, d_Subject := nm_Subject msg,
     d_Raw := nm_Data msg, d_Headers := nm_Header msg, d_System := ''nats''\<rparr>"

section \<open>Replies\<close>

text \<open>A reply, with the messages handed to the connection.\<close>

definition nats_reply :: "'u nats_bus \<Rightarrow> ctx \<Rightarrow> nats_msg \<Rightarrow> string \<Rightarrow> string \<Rightarrow> headers \<Rightarrow> 'u world \<Rightarrow>
    (unit result \<times> nats_msg list) \<times> 'u world" where
  "nats_reply B c msg handler data h w =
     (if nm_Reply msg = [] then ((Ret (), []), w)
      else (let m = \<lparr>nm_Subject = nm_Reply msg, nm_Reply = [], nm_Data = data, nm_Header = h\<rparr> in
        case nb_PublishMsg B m w of
          (Panics v st, w1) \<Rightarrow> ((Panics v st, [m]), w1)
        | (Ret None, w1) \<Rightarrow> ((Ret (), [m]), w1)
        | (Ret (Some err), w1) \<Rightarrow> ((Ret (), [m]), nats_internalError B c OpReply handler (nm_Subject msg) err w1)))"

definition replyError :: "'u nats_bus \<Rightarrow> ctx \<Rightarrow> nats_msg \<Rightarrow> string \<Rightarrow> string \<Rightarrow> error option \<Rightarrow> 'u world \<Rightarrow>
    (unit result \<times> nats_msg list) \<times> 'u world" where
  "replyError B c msg handler reason err =
     nats_reply B c msg handler [] (error_header reason err (nb_replyErrMsg B))"

definition settleReason :: "settlement \<Rightarrow> error option \<Rightarrow> string" where
  "settleReason s err = (if s_Reason s \<noteq> [] then s_Reason s else ReasonOf err)"

section \<open>Emit and EmitSync\<close>

definition nats_resolve :: "'u id_source \<Rightarrow> 'u nats_bus \<Rightarrow> ctx \<Rightarrow> event \<Rightarrow> 'u emit_options \<Rightarrow> 'u world \<Rightarrow> metadata \<times> 'u world" where
  "nats_resolve NewID B c e cfg =
     ResolveOutbound NewID c e (cfg\<lparr>eo_IDGenerator := nb_idGen B, eo_InheritHeaders := nb_inherit B\<rparr>)"

definition nats_newID :: "'u id_source \<Rightarrow> 'u nats_bus \<Rightarrow> 'u id_source" where
  "nats_newID NewID B w = (case nb_idGen B of None \<Rightarrow> NewID w
     | Some g \<Rightarrow> (case g w of (i, w1) \<Rightarrow> if i \<noteq> [] then (i, w1) else NewID w1))"

text \<open>A call admitted by the Lifecycle, with the release that is deferred.\<close>

definition nats_admitted :: "'u nats_bus \<Rightarrow> ctx \<Rightarrow> (error \<Rightarrow> 'a) \<Rightarrow> ('u, 'a) comp \<Rightarrow> ('u, 'a) comp" where
  "nats_admitted B c refused body w =
     (case Admit (cx_lifecycle c = Some (nb_marker B)) (nats_life B w) of
        Inl s \<Rightarrow> (Ret (refused (Sentinel s)), w)
      | Inr l \<Rightarrow> (case body (nats_set_life B l w) of (r, w1) \<Rightarrow> (r, nats_set_life B (release (nats_life B w1)) w1)))"

definition nats_Emit :: "'u id_source \<Rightarrow> 'u nats_bus \<Rightarrow> ctx \<Rightarrow> event \<Rightarrow> 'u emit_option list \<Rightarrow> ('u, error option) comp" where
  "nats_Emit NewID B c e opts = nats_admitted B c Some (\<lambda>w.
     let cfg = ApplyEmitOptions e opts in
     case nats_resolve NewID B c e cfg w of (md, w1) \<Rightarrow>
     case nb_Encode B c e md w1 of
       (Panics v st, w2) \<Rightarrow> (Panics v st, w2)
     | (Ret (Inl err), w2) \<Rightarrow> (Ret (Some err), w2)
     | (Ret (Inr data), w2) \<Rightarrow> nb_Publish B (eo_Subject cfg) data w2)"

definition nats_EmitSync :: "'u id_source \<Rightarrow> 'u nats_bus \<Rightarrow> ctx \<Rightarrow> event \<Rightarrow> ('u, error + event) comp" where
  "nats_EmitSync NewID B c e = nats_admitted B c Inl (\<lambda>w.
     case nats_resolve NewID B c e (ApplyEmitOptions e []) w of (md, w1) \<Rightarrow>
     case nb_Encode B c e md w1 of
       (Panics v st, w2) \<Rightarrow> (Panics v st, w2)
     | (Ret (Inl err), w2) \<Rightarrow> (Ret (Inl err), w2)
     | (Ret (Inr data), w2) \<Rightarrow>
         (let timeout = (case nb_Deadline B c of None \<Rightarrow> nb_timeout B | Some dl \<Rightarrow> dl - w_now w2) in
          case nb_Request B (ev_Name e) data timeout w2 of
            (Panics v st, w3) \<Rightarrow> (Panics v st, w3)
          | (Ret (Inl err), w3) \<Rightarrow> (Ret (Inl err), w3)
          | (Ret (Inr msg), w3) \<Rightarrow>
              (case remote_of (ev_Name e) (nm_Header msg) of
                 Some remote \<Rightarrow> (Ret (Inl remote), w3)
               | None \<Rightarrow> (case nb_Decode B c (nm_Data msg) w3 of
                   (Panics v st, w4) \<Rightarrow> (Panics v st, w4)
                 | (Ret (_, r), w4) \<Rightarrow> (Ret r, w4)))))"

section \<open>The callbacks\<close>

definition nats_input :: "'u nats_bus \<Rightarrow> ctx \<Rightarrow> event option \<Rightarrow> string \<Rightarrow> error option \<Rightarrow> 'u settle_input" where
  "nats_input B sctx evt handler err = \<lparr>in_SubscriptionCtx = Some sctx, in_Evt = evt, in_Handler = handler,
     in_Err = err, in_Publisher = nb_dlq B\<rparr>"

text \<open>
  The part both callbacks share: decode, run, settle a failure. The result is the context a
  reply is made on, and the settled failure or the event.
\<close>

definition nats_settle :: "'u env \<Rightarrow> 'u nats_bus \<Rightarrow> ctx \<Rightarrow> ctx \<Rightarrow> ctx \<Rightarrow> event option \<Rightarrow> string \<Rightarrow> error option \<Rightarrow>
    ('u, ctx \<times> (settlement \<times> error option + event)) comp" where
  "nats_settle E B hctx sctx rctx evt handler err w =
     (case Settle E sctx (nats_input B hctx evt handler err) w of
        (Panics v st, w1) \<Rightarrow> (Panics v st, w1)
      | (Ret s, w1) \<Rightarrow> (Ret (rctx, Inl (s, err)), w1))"

definition handlerCtx :: "ctx \<Rightarrow> nats_msg \<Rightarrow> string \<Rightarrow> 'u world \<Rightarrow> ctx" where
  "handlerCtx msgCtx msg handler w =
     WithExecution (WithDelivery msgCtx (deliveryOf msg)) \<lparr>x_Handler = handler, x_StartedAt = w_now w\<rparr>"

definition settleDecode :: "'u env \<Rightarrow> 'u nats_bus \<Rightarrow> ctx \<Rightarrow> ctx option \<Rightarrow> nats_msg \<Rightarrow> string \<Rightarrow> error \<Rightarrow>
    ('u, ctx \<times> (settlement \<times> error option + event)) comp" where
  "settleDecode E B hctx mctx msg handler err =
     (let msgCtx = (case mctx of None \<Rightarrow> hctx | Some c \<Rightarrow> c) in
      nats_settle E B hctx (WithDelivery msgCtx (deliveryOf msg)) hctx None handler (WrapDecodeError (Some err)))"

definition nats_handle :: "'u env \<Rightarrow> 'u nats_bus \<Rightarrow> ctx \<Rightarrow> string \<Rightarrow> (ctx \<Rightarrow> event \<Rightarrow> ('u, error option) comp) \<Rightarrow>
    nats_msg \<Rightarrow> ('u, ctx \<times> (settlement \<times> error option + event)) comp" where
  "nats_handle E B hctx handler fn msg w =
     (case nb_Decode B hctx (nm_Data msg) w of
        (Panics v st, w1) \<Rightarrow> (Panics v st, w1)
      | (Ret (mctx, Inl err), w1) \<Rightarrow> settleDecode E B hctx mctx msg handler err w1
      | (Ret (None, Inr evt), w1) \<Rightarrow> (Panics ''cannot create context from nil parent'' [], w1)
      | (Ret (Some mctx, Inr evt), w1) \<Rightarrow>
          (let msgCtx = handlerCtx mctx msg handler w1 in
           case InvokeHandler msgCtx (nb_invoker B) evt handler (\<lambda>c. fn c evt) w1 of
             (err, w2) \<Rightarrow>
               (case WrapInterrupted hctx err w2 of
                  None \<Rightarrow> (Ret (msgCtx, Inr evt), w2)
                | Some e \<Rightarrow> nats_settle E B hctx msgCtx msgCtx (Some evt) handler (Some e) w2)))"

text \<open>The body of the SubscribeSync callback: its result, the flag \<^verbatim>\<open>replied\<close> and the replies.\<close>

definition mark_replied :: "(unit result \<times> nats_msg list) \<times> 'u world \<Rightarrow> (unit result \<times> bool \<times> nats_msg list) \<times> 'u world" where
  "mark_replied x = (case x of ((r, out), w) \<Rightarrow> ((r, r = Ret (), out), w))"

definition sync_body :: "'u env \<Rightarrow> 'u id_source \<Rightarrow> 'u nats_bus \<Rightarrow> ctx \<Rightarrow> string \<Rightarrow>
    (ctx \<Rightarrow> event \<Rightarrow> ('u, error option) comp) \<Rightarrow> nats_msg \<Rightarrow> 'u world \<Rightarrow> (unit result \<times> bool \<times> nats_msg list) \<times> 'u world" where
  "sync_body E NewID B hctx handler fn msg w =
     (case nats_handle E B hctx handler fn msg w of
        (Panics v st, w1) \<Rightarrow> ((Panics v st, False, []), w1)
      | (Ret (rctx, Inl (s, err)), w1) \<Rightarrow> mark_replied (replyError B rctx msg handler (settleReason s err) err w1)
      | (Ret (msgCtx, Inr evt), w1) \<Rightarrow>
          (case nats_newID NewID B w1 of (i, w2) \<Rightarrow>
           case nats_resolve NewID B msgCtx evt ((ApplyEmitOptions evt [])\<lparr>eo_ID := i\<rparr>) w2 of (md, w3) \<Rightarrow>
           case nb_Encode B msgCtx evt md w3 of
             (Panics v st, w4) \<Rightarrow> ((Panics v st, False, []), w4)
           | (Ret (Inl err), w4) \<Rightarrow>
               ((Ret (), False, []), nats_internalError B msgCtx OpEncodeReply handler (nm_Subject msg) err w4)
           | (Ret (Inr resp), w4) \<Rightarrow> mark_replied (nats_reply B msgCtx msg handler resp [] w4)))"

definition sub_body :: "'u env \<Rightarrow> 'u nats_bus \<Rightarrow> ctx \<Rightarrow> string \<Rightarrow>
    (ctx \<Rightarrow> event \<Rightarrow> ('u, error option) comp) \<Rightarrow> nats_msg \<Rightarrow> 'u world \<Rightarrow> (unit result \<times> bool \<times> nats_msg list) \<times> 'u world" where
  "sub_body E B hctx handler fn msg w =
     (case nats_handle E B hctx handler fn msg w of
        (Panics v st, w1) \<Rightarrow> ((Panics v st, False, []), w1)
      | (Ret _, w1) \<Rightarrow> ((Ret (), False, []), w1))"

definition rejectInbound :: "'u env \<Rightarrow> 'u nats_bus \<Rightarrow> ctx \<Rightarrow> nats_msg \<Rightarrow> string \<Rightarrow> bool \<Rightarrow> 'u world \<Rightarrow>
    (unit result \<times> nats_msg list) \<times> 'u world" where
  "rejectInbound E B c msg handler sync w0 =
     (let i = w_next w0;
          w = fire i (Sentinel Canceled) (Sentinel ErrShutdownInterrupted) (w0\<lparr>w_next := Suc i\<rparr>)
      in case nats_msgScope B (c\<lparr>cx_sources := i # cx_sources c\<rparr>) w of (ictx, w1) \<Rightarrow>
         case Settle E (WithDelivery ictx (deliveryOf msg))
                (nats_input B ictx None handler (WrapInterrupted ictx (Some (Sentinel Canceled)) w1)) w1 of
           (Panics v st, w2) \<Rightarrow> ((Panics v st, []), w2)
         | (Ret s, w2) \<Rightarrow>
             if sync then replyError B ictx msg handler (s_Reason s) (Some (Sentinel ErrShutdownInterrupted)) w2
             else ((Ret (), []), w2))"

definition recoverCallback :: "'u nats_bus \<Rightarrow> ctx \<Rightarrow> nats_msg \<Rightarrow> string \<Rightarrow> bool option \<Rightarrow> string \<Rightarrow> string \<Rightarrow> 'u world \<Rightarrow>
    nats_msg list \<times> 'u world" where
  "recoverCallback B c msg handler replied v st w =
     (let w1 = nats_internalError B c OpPanic handler (nm_Subject msg) (recoveredPanic v st) w in
      if replied = None \<or> replied = Some True then ([], w1)
      else (case replyError B c msg handler ReasonPanic (Some (recoveredPanic v st)) w1 of
          ((Ret _, out), w2) \<Rightarrow> (out, w2)
        | ((Panics v2 st2, out), w2) \<Rightarrow>
            (out, nats_internalError B c OpPanic handler (nm_Subject msg) (recoveredPanic v2 st2) w2)))"

text \<open>The deferred recover around a body or a refusal.\<close>

definition nats_guard :: "'u nats_bus \<Rightarrow> ctx \<Rightarrow> nats_msg \<Rightarrow> string \<Rightarrow> bool \<Rightarrow> (unit result \<times> bool \<times> nats_msg list) \<times> 'u world \<Rightarrow>
    nats_msg list \<times> 'u world" where
  "nats_guard B c msg handler sync x = (case x of
       ((Ret _, _, out), w) \<Rightarrow> (out, w)
     | ((Panics v st, replied, out), w) \<Rightarrow>
         (case recoverCallback B c msg handler (if sync then Some replied else None) v st w of
            (rest, w1) \<Rightarrow> (out @ rest, w1)))"

text \<open>
  The callback of Subscribe (\<open>sync\<close> false) and of SubscribeSync: the replies it sent. On the
  way out the handler context is stopped first, then a panic is recovered, then the unit is
  released.
\<close>

definition nats_callback :: "'u env \<Rightarrow> 'u id_source \<Rightarrow> 'u nats_bus \<Rightarrow> ctx \<Rightarrow> string \<Rightarrow>
    (ctx \<Rightarrow> event \<Rightarrow> ('u, error option) comp) \<Rightarrow> bool \<Rightarrow> nats_msg \<Rightarrow> 'u world \<Rightarrow> nats_msg list \<times> 'u world" where
  "nats_callback E NewID B c handler fn sync msg w0 =
     (case Track (nats_life B w0) of
        None \<Rightarrow> nats_guard B c msg handler sync (mark_replied (rejectInbound E B c msg handler sync w0))
      | Some l \<Rightarrow>
          (case lifecycle_context (nb_source B) (nb_marker B) c False (nats_set_life B l w0) of ((hc, own), w1) \<Rightarrow>
           case nats_msgScope B hc w1 of (hctx, w2) \<Rightarrow>
           case (if sync then sync_body E NewID B hctx handler fn msg w2 else sub_body E B hctx handler fn msg w2) of
             (x, w3) \<Rightarrow>
           case nats_guard B c msg handler sync (x, stop own w3) of (out, w4) \<Rightarrow>
             (out, nats_set_life B (release (nats_life B w4)) w4)))"

section \<open>Every request is answered\<close>

lemma Settle_reason:
  assumes "Settle E c inp w = (Ret s, w')" and "in_Err inp = Some err"
  shows "s_Reason s = ReasonInterrupted \<or> s_Reason s = ReasonOf (Some err)"
proof -
  obtain w1 where "settle_body E c inp err w = (Ret s, w1)" using Settle_Ret[OF assms] by blast
  then show ?thesis using settle_terminal_cases[of E c inp err _ s]
    by (auto simp: settle_body_def Let_def split: if_splits Disposition.splits)
qed

lemma Settle_reason_nonempty: "Settle E c inp w = (Ret s, w') \<Longrightarrow> in_Err inp = Some err \<Longrightarrow> s_Reason s \<noteq> []"
  by (drule (1) Settle_reason) (auto simp: ReasonInterrupted_def)

text \<open>A connection whose PublishMsg returns, with or without an error.\<close>

definition conn_returns :: "'u nats_bus \<Rightarrow> bool" where
  "conn_returns B \<longleftrightarrow> (\<forall>m w. \<exists>r w'. nb_PublishMsg B m w = (Ret r, w'))"

definition error_reply :: "'u nats_bus \<Rightarrow> nats_msg \<Rightarrow> bool" where
  "error_reply B m \<longleftrightarrow> nm_Data m = [] \<and>
     (\<exists>reason err. reason \<noteq> [] \<and> nm_Header m = error_header reason err (nb_replyErrMsg B))"

lemma nats_reply_sent:
  assumes "nm_Reply msg \<noteq> []" and "conn_returns B" and "nats_reply B c msg h data hdr w = ((r, out), w')"
  shows "r = Ret () \<and> out = [\<lparr>nm_Subject = nm_Reply msg, nm_Reply = [], nm_Data = data, nm_Header = hdr\<rparr>]"
proof -
  let ?m = "\<lparr>nm_Subject = nm_Reply msg, nm_Reply = [], nm_Data = data, nm_Header = hdr\<rparr>"
  obtain e w1 where "nb_PublishMsg B ?m w = (Ret e, w1)" using assms(2) unfolding conn_returns_def by blast
  with assms(1, 3) show ?thesis by (auto simp: nats_reply_def Let_def split: option.splits)
qed

lemma replyError_sent:
  assumes "nm_Reply msg \<noteq> []" and "conn_returns B" and "reason \<noteq> []"
    and "replyError B c msg h reason err w = ((r, out), w')"
  shows "r = Ret () \<and> (\<exists>m. out = [m] \<and> nm_Subject m = nm_Reply msg \<and> error_reply B m)"
  using nats_reply_sent[OF assms(1, 2) assms(4)[unfolded replyError_def]] assms(3)
  by (auto simp: error_reply_def)

text \<open>What a body leaves for the recover: its one reply, or none and a panic or a failed encoding.\<close>

definition encode_failed :: "'u nats_bus \<Rightarrow> 'u world \<Rightarrow> bool" where
  "encode_failed B w \<longleftrightarrow> (\<exists>i sc. (nb_observer B, sc, InternalError i) \<in> set (w_trace w) \<and> ie_Op i = OpEncodeReply)"

definition one_reply :: "'u nats_bus \<Rightarrow> nats_msg \<Rightarrow> nats_msg list \<Rightarrow> bool" where
  "one_reply B msg out \<longleftrightarrow> (\<exists>m. out = [m] \<and> nm_Subject m = nm_Reply msg \<and> (nm_Header m = [] \<or> error_reply B m))"

lemma nats_handle_failed:
  assumes "nats_handle E B hctx h fn msg w = (Ret (rctx, Inl (s, err)), w')"
  shows "settleReason s err \<noteq> []"
proof -
  have st: "settleReason s err \<noteq> []"
    if "nats_settle E B hctx sctx rc evt h (Some e) w1 = (Ret (rctx, Inl (s, err)), w')" for sctx rc evt e w1
    using that Settle_reason_nonempty[of E sctx _ w1 s]
    by (auto simp: nats_settle_def nats_input_def settleReason_def split: prod.splits result.splits)
  have "WrapDecodeError (Some e) = None \<Longrightarrow> False" for e by (simp add: WrapDecodeError_def split: if_splits)
  then have dec: "\<exists>e'. WrapDecodeError (Some e) = Some e'" for e by (cases "WrapDecodeError (Some e)") auto
  obtain d w1 where d: "nb_Decode B hctx (nm_Data msg) w = (d, w1)" by force
  show ?thesis
  proof (cases d)
    case (Ret p)
    obtain mctx q where p: "p = (mctx, q)" by force
    show ?thesis
    proof (cases q)
      case (Inl e)
      obtain e' where "WrapDecodeError (Some e) = Some e'" using dec by blast
      then show ?thesis using assms d Ret p Inl st by (cases mctx) (auto simp: nats_handle_def settleDecode_def Let_def)
    next
      case (Inr evt)
      then show ?thesis using assms d Ret p st
        by (auto simp: nats_handle_def Let_def split: option.splits prod.splits)
    qed
  qed (use assms d in \<open>simp add: nats_handle_def\<close>)
qed

lemma sync_body_reply:
  assumes "nm_Reply msg \<noteq> []" and "conn_returns B" and "sync_body E NewID B hctx h fn msg w = ((r, replied, out), w')"
  shows "r = Ret () \<and> (one_reply B msg out \<or> out = [] \<and> encode_failed B w') \<or> (\<exists>v st. r = Panics v st) \<and> \<not> replied \<and> out = []"
proof -
  obtain r0 w1 where h: "nats_handle E B hctx h fn msg w = (r0, w1)" by force
  show ?thesis
  proof (cases r0)
    case (Ret p)
    obtain rctx q where p: "p = (rctx, q)" by force
    show ?thesis
    proof (cases q)
      case (Inl se)
      obtain s err where se: "se = (s, err)" by force
      obtain r1 out1 w2 where re: "replyError B rctx msg h (settleReason s err) err w1 = ((r1, out1), w2)"
        by (metis prod.collapse)
      have ne: "settleReason s err \<noteq> []" using nats_handle_failed h Ret p Inl se by blast
      show ?thesis using replyError_sent[OF assms(1, 2) ne re] assms(3) h Ret p Inl se re
        by (auto simp: sync_body_def mark_replied_def one_reply_def)
    next
      case (Inr evt)
      obtain i w2 where i: "nats_newID NewID B w1 = (i, w2)" by force
      obtain md w3 where md: "nats_resolve NewID B rctx evt ((ApplyEmitOptions evt [])\<lparr>eo_ID := i\<rparr>) w2 = (md, w3)" by force
      obtain e w4 where e: "nb_Encode B rctx evt md w3 = (e, w4)" by force
      show ?thesis
      proof (cases e)
        case enc: (Ret x)
        show ?thesis
        proof (cases x)
          case (Inl err)
          have "w' = nats_internalError B rctx OpEncodeReply h (nm_Subject msg) err w4" "r = Ret ()" "out = []"
            using assms(3) h Ret p Inr i md e enc Inl by (simp_all add: sync_body_def)
          then show ?thesis by (auto simp: encode_failed_def nats_internalError_def emit_trace)
        next
          case data: (Inr resp)
          obtain r1 out1 w5 where rp: "nats_reply B rctx msg h resp [] w4 = ((r1, out1), w5)" by (metis prod.collapse)
          show ?thesis using nats_reply_sent[OF assms(1, 2) rp] assms(3) h Ret p Inr i md e enc data rp
            by (auto simp: sync_body_def mark_replied_def one_reply_def)
        qed
      qed (use assms(3) h Ret p Inr i md e in \<open>auto simp: sync_body_def\<close>)
    qed
  qed (use assms(3) h in \<open>auto simp: sync_body_def\<close>)
qed

lemma recoverCallback_reply:
  assumes "nm_Reply msg \<noteq> []" and "conn_returns B" and "recoverCallback B c msg h (Some False) v st w = (out, w')"
  shows "one_reply B msg out"
proof -
  let ?w = "nats_internalError B c OpPanic h (nm_Subject msg) (recoveredPanic v st) w"
  obtain r o1 w1 where re: "replyError B c msg h ReasonPanic (Some (recoveredPanic v st)) ?w = ((r, o1), w1)"
    by (metis prod.collapse)
  have "ReasonPanic \<noteq> []" by (simp add: ReasonPanic_def)
  from replyError_sent[OF assms(1, 2) this re] assms(3) re show ?thesis
    by (auto simp: recoverCallback_def Let_def one_reply_def)
qed

lemma rejectInbound_reply:
  assumes "nm_Reply msg \<noteq> []" and "conn_returns B" and "rejectInbound E B c msg h True w = ((r, out), w')"
  shows "r = Ret () \<and> one_reply B msg out \<or> (\<exists>v st. r = Panics v st) \<and> out = []"
proof -
  define i where "i = w_next w"
  define w1 where "w1 = fire i (Sentinel Canceled) (Sentinel ErrShutdownInterrupted) (w\<lparr>w_next := Suc i\<rparr>)"
  obtain ictx w2 where sc: "nats_msgScope B (c\<lparr>cx_sources := i # cx_sources c\<rparr>) w1 = (ictx, w2)" by force
  define inp where "inp = nats_input B ictx None h (WrapInterrupted ictx (Some (Sentinel Canceled)) w2)"
  obtain rs w3 where st: "Settle E (WithDelivery ictx (deliveryOf msg)) inp w2 = (rs, w3)" by force
  note unf = rejectInbound_def Let_def i_def[symmetric] w1_def[symmetric] sc prod.case inp_def[symmetric] st
  show ?thesis
  proof (cases rs)
    case (Ret s)
    have "\<exists>err. in_Err inp = Some err" by (auto simp: inp_def nats_input_def WrapInterrupted_def)
    then have ne: "s_Reason s \<noteq> []" using Settle_reason_nonempty st Ret by blast
    obtain r1 o1 w4 where re: "replyError B ictx msg h (s_Reason s) (Some (Sentinel ErrShutdownInterrupted)) w3 = ((r1, o1), w4)"
      by (metis prod.collapse)
    have "r = r1" "out = o1" using assms(3) Ret re unfolding unf by simp_all
    with replyError_sent[OF assms(1, 2) ne re] show ?thesis by (auto simp: one_reply_def)
  next
    case (Panics v st)
    then show ?thesis using assms(3) unfolding unf by auto
  qed
qed

lemma one_reply_guard:
  assumes "nm_Reply msg \<noteq> []" and "conn_returns B" and "nats_guard B c msg h True ((r, replied, out0), w) = (out, w')"
    and "r = Ret () \<and> P \<or> (\<exists>v st. r = Panics v st) \<and> \<not> replied \<and> out0 = []"
  shows "P \<and> out = out0 \<and> w' = w \<or> one_reply B msg out"
proof (cases r)
  case (Panics v st)
  with assms(4) have "\<not> replied" "out0 = []" by auto
  moreover obtain rest w1 where rc: "recoverCallback B c msg h (Some False) v st w = (rest, w1)" by force
  ultimately show ?thesis using assms(3) Panics recoverCallback_reply[OF assms(1, 2) rc] by (simp add: nats_guard_def)
qed (use assms(3, 4) in \<open>auto simp: nats_guard_def\<close>)

lemma encode_failed_stop [simp]:
  "encode_failed B (stop i w) = encode_failed B w" "encode_failed B (nats_set_life B' l w) = encode_failed B w"
  by (simp_all add: encode_failed_def stop_def fire_def nats_set_life_def)

section \<open>Properties\<close>

text \<open>
  C25. Every request is answered exactly once. On a connection whose PublishMsg does not panic,
  the SubscribeSync callback sends exactly one message to the reply subject of a request,
  whatever the decoder, the handler, the invokers, the dead-letter publisher and the encoder
  do, panics and a forced shutdown included. The reply has no headers (a success) or is an
  error reply with a reason, which a requester never mistakes for a success. The only request
  left without an answer is one whose reply event could not be encoded, and that is reported
  as an internal error.
\<close>

theorem request_answered_once:
  assumes "nm_Reply msg \<noteq> []" and "conn_returns B" and "nats_callback E NewID B c h fn True msg w = (out, w')"
  shows "one_reply B msg out \<or> out = [] \<and> encode_failed B w'"
proof (cases "Track (nats_life B w)")
  case None
  obtain r o1 w1 where rj: "rejectInbound E B c msg h True w = ((r, o1), w1)" by (metis prod.collapse)
  have g: "nats_guard B c msg h True ((r, r = Ret (), o1), w1) = (out, w')"
    using assms(3) None rj by (simp add: nats_callback_def mark_replied_def)
  have "r = Ret () \<and> one_reply B msg o1 \<or> (\<exists>v st. r = Panics v st) \<and> \<not> (r = Ret ()) \<and> o1 = []"
    using rejectInbound_reply[OF assms(1, 2) rj] by auto
  from one_reply_guard[OF assms(1, 2) g this] show ?thesis by auto
next
  case (Some l)
  obtain hc own w1 where lc: "lifecycle_context (nb_source B) (nb_marker B) c False (nats_set_life B l w) = ((hc, own), w1)"
    by (metis prod.collapse)
  obtain hctx w2 where sc: "nats_msgScope B hc w1 = (hctx, w2)" by force
  obtain r rp o1 w3 where sb: "sync_body E NewID B hctx h fn msg w2 = ((r, rp, o1), w3)" by (metis prod.collapse)
  obtain out' w4 where g: "nats_guard B c msg h True ((r, rp, o1), stop own w3) = (out', w4)" by force
  have eq: "out = out'" "w' = nats_set_life B (release (nats_life B w4)) w4"
    using assms(3) Some lc sc sb g by (simp_all add: nats_callback_def)
  from one_reply_guard[OF assms(1, 2) g sync_body_reply[OF assms(1, 2) sb]]
  show ?thesis unfolding eq by auto
qed

text \<open>A sample: a bus that decodes everything to one event and a connection that accepts everything.\<close>

definition sample_nats :: "lifecycle nats_bus" where
  "sample_nats = \<lparr>nb_Publish = (\<lambda>_ _ w. (Ret None, w)), nb_Request = (\<lambda>_ _ _ w. (Ret (Inl boom), w)),
     nb_PublishMsg = (\<lambda>_ w. (Ret None, w)), nb_Decode = (\<lambda>c _ w. (Ret (Some c, Inr sample_event), w)),
     nb_Encode = (\<lambda>_ _ _ w. (Ret (Inr []), w)), nb_Deadline = (\<lambda>_. None), nb_timeout = 5 * Second,
     nb_invoker = None, nb_observer = 0, nb_dlq = None, nb_replyErrMsg = True, nb_idGen = None, nb_inherit = [],
     nb_source = 0, nb_marker = 0, nb_getLife = (\<lambda>l. l), nb_putLife = (\<lambda>l _. l)\<rparr>"

definition sample_request :: nats_msg where
  "sample_request = \<lparr>nm_Subject = ''orders'', nm_Reply = ''inbox'', nm_Data = ''x'', nm_Header = []\<rparr>"

theorem request_answered_once_witness:
  "let (out, w') = nats_callback timer_env (\<lambda>w. (''id'', w)) sample_nats Background ''h'' (\<lambda>c _. panicking c) True
       sample_request (sample_world zero_lifecycle)
   in one_reply sample_nats sample_request out \<or> out = [] \<and> encode_failed sample_nats w'"
  using request_answered_once[of sample_request sample_nats, OF _ _ prod.collapse[symmetric]]
  by (simp add: sample_request_def sample_nats_def conn_returns_def case_prod_beta)

end
