(* ===== verification/Dlq_Stream.thy ===== *)
theory Dlq_Stream
  imports Jetstream_Consume Nats_Reply
begin

text \<open>
  The dead-letter stream of JetStream: the publisher (jetstream/dlq.go) and the Replayer
  (jetstream/replayer.go). The broker, the registry, the formatting of times, the quoting of
  \<^verbatim>\<open>%q\<close> and the W3C trace context propagator are fields of the models. A header map is an
  association list with distinct keys, in the order the map iterates.
\<close>

section \<open>Header keys\<close>

text \<open>
  \<^verbatim>\<open>strings.ToLower\<close> as far as a comparison with an ASCII string can tell: ASCII letters, and
  the two runes outside ASCII that Go maps into it, U+0130 and U+212A. Every other rune stays
  outside ASCII.
\<close>

definition lower_byte :: "char \<Rightarrow> char" where
  "lower_byte c = (if 65 \<le> byte c \<and> byte c \<le> 90 then char_of (byte c + 32) else c)"

fun ToLower :: "string \<Rightarrow> string" where
  "ToLower [] = []"
| "ToLower (c # cs) =
     (if byte c = 0xC4 \<and> (case cs of d # _ \<Rightarrow> byte d = 0xB0 | [] \<Rightarrow> False) then CHR ''i'' # ToLower (tl cs)
      else if byte c = 0xE2 \<and> (case cs of d # e # _ \<Rightarrow> byte d = 0x84 \<and> byte e = 0xAA | _ \<Rightarrow> False)
        then CHR ''k'' # ToLower (tl (tl cs))
      else lower_byte c # ToLower cs)"

definition nats_key :: "string \<Rightarrow> bool" where
  "nats_key k \<longleftrightarrow> prefix ''nats-'' (ToLower k)"

definition dlq_key :: "string \<Rightarrow> bool" where
  "dlq_key k \<longleftrightarrow> prefix ''eventbus-dlq-'' (ToLower k)"

definition replay_key :: "string \<Rightarrow> bool" where
  "replay_key k \<longleftrightarrow> prefix ''eventbus-replay-'' (ToLower k)"

definition header_set :: "string \<Rightarrow> string \<Rightarrow> headers \<Rightarrow> headers" where
  "header_set k v h = AList.update k [v] h"

section \<open>The dead-letter publisher\<close>

definition HeaderDLQTraceparent :: string where "HeaderDLQTraceparent = ''Eventbus-Dlq-Traceparent''"
definition MsgIDHeader :: string where "MsgIDHeader = ''Nats-Msg-Id''"

record 'u dlq =
  dq_PublishMsg :: "ctx \<Rightarrow> nats_msg \<Rightarrow> ('u, error option) comp"
  dq_prefix :: string
  dq_Encode :: "(ctx \<Rightarrow> event \<Rightarrow> metadata \<Rightarrow> ('u, error + string) comp) option"
  dq_NewID :: "'u id_source"
  dq_traceparent :: "ctx \<Rightarrow> string"
  dq_fmtTime :: "time \<Rightarrow> string"
  dq_quote :: "string \<Rightarrow> string"

definition DefaultDLQPrefix :: string where "DefaultDLQPrefix = ''dlq.''"

text \<open>The original headers without the broker's and stale failure headers, and the first message id.\<close>

definition original_msg_id :: "headers \<Rightarrow> string" where
  "original_msg_id src = fold (\<lambda>(k, vs) orig.
     if ToLower k = ''nats-msg-id'' \<and> orig = [] \<and> vs \<noteq> [] then hd vs else orig) src []"

definition dlqCopyHeaders :: "headers \<Rightarrow> headers \<times> string" where
  "dlqCopyHeaders src = (filter (\<lambda>(k, _). \<not> nats_key k \<and> \<not> dlq_key k) src, original_msg_id src)"

definition dlqSubject :: "dlq_record \<Rightarrow> string" where
  "dlqSubject rec = (if r_Subject rec \<noteq> [] then r_Subject rec
     else if r_EventName rec \<noteq> [] then r_EventName rec else ''unknown'')"

definition dlqFullHeaders :: "(time \<Rightarrow> string) \<Rightarrow> dlq_record \<Rightarrow> string \<Rightarrow> headers" where
  "dlqFullHeaders fmtTime rec tp =
     (case dlqCopyHeaders (r_Headers rec) of (h0, origMsgID) \<Rightarrow>
        (let h1 = fold (\<lambda>(k, v). header_set k v) (FailureHeaders fmtTime rec) h0;
             h2 = (if origMsgID \<noteq> [] then header_set HeaderDLQOriginalMsgID (TruncateHeader origMsgID DLQHeaderValueLimit) h1 else h1)
         in if tp \<noteq> [] then header_set HeaderDLQTraceparent tp h2 else h2))"

definition dlqMinimalCauseLimit :: int where "dlqMinimalCauseLimit = 128"

definition dlqMinimalHeaders :: "(time \<Rightarrow> string) \<Rightarrow> dlq_record \<Rightarrow> string \<Rightarrow> headers" where
  "dlqMinimalHeaders fmtTime rec tp =
     (let h0 = fst (dlqCopyHeaders (r_Headers rec));
          h1 = (if tp \<noteq> [] then header_set HeaderDLQTraceparent tp h0 else h0);
          full = FailureHeaders fmtTime rec;
          h2 = fold (\<lambda>k h. case map_of full k of None \<Rightarrow> h | Some v \<Rightarrow> header_set k v h)
                 [HeaderDLQReason, HeaderDLQOriginalSubject, HeaderDLQEventID, HeaderDLQHandler] h1
      in case map_of full HeaderDLQCause of None \<Rightarrow> h2
         | Some v \<Rightarrow> header_set HeaderDLQCause (TruncateHeader v dlqMinimalCauseLimit) h2)"

definition dlq_send :: "'u dlq \<Rightarrow> ctx \<Rightarrow> string \<Rightarrow> headers \<Rightarrow> string \<Rightarrow> ('u, error option) comp" where
  "dlq_send D c subject h data =
     dq_PublishMsg D c \<lparr>nm_Subject = subject, nm_Reply = [], nm_Data = data, nm_Header = h\<rparr>"

text \<open>The envelope bytes of a record: its own, or those of its event encoded now.\<close>

definition dlq_data :: "'u dlq \<Rightarrow> ctx \<Rightarrow> dlq_record \<Rightarrow> ('u, error + string) comp" where
  "dlq_data D c rec w = (case r_Evt rec of
     None \<Rightarrow> (Ret (Inr (r_Raw rec)), w)
   | Some e \<Rightarrow>
       if r_Raw rec \<noteq> [] then (Ret (Inr (r_Raw rec)), w)
       else (case dq_Encode D of
           None \<Rightarrow> (Ret (Inl (Sentinel ErrNoEnvelope)), w)
         | Some enc \<Rightarrow>
             (case (case MetadataFromContext c of Some md \<Rightarrow> (md, w)
                    | None \<Rightarrow> ResolveOutbound (dq_NewID D) c e (ApplyEmitOptions e []) w) of (md, w1) \<Rightarrow>
              case enc c e md w1 of
                (Panics v st, w2) \<Rightarrow> (Panics v st, w2)
              | (Ret (Inl err), w2) \<Rightarrow>
                  (Ret (Inl (WrapError (''jetstream: DLQ encode '' @ dq_quote D (ev_Name e) @ '': '' @ Error_text err) [err])), w2)
              | (Ret (Inr data), w2) \<Rightarrow> (Ret (Inr data), w2))))"

definition DLQ_Publish :: "'u dlq \<Rightarrow> 'u publisher" where
  "DLQ_Publish D c rec w =
     (case dlq_data D c rec w of
        (Panics v st, w1) \<Rightarrow> (Panics v st, w1)
      | (Ret (Inl err), w1) \<Rightarrow> (Ret (Some err), w1)
      | (Ret (Inr data), w1) \<Rightarrow>
          (let tp = dq_traceparent D c; subject = dq_prefix D @ dlqSubject rec in
           case dlq_send D c subject (dlqFullHeaders (dq_fmtTime D) rec tp) data w1 of
             (Ret (Some err), w2) \<Rightarrow>
               if errors_Is err (Foreign NatsErrMaxPayload)
               then dlq_send D c subject (dlqMinimalHeaders (dq_fmtTime D) rec tp) data w2
               else (Ret (Some err), w2)
           | (r, w2) \<Rightarrow> (r, w2)))"

section \<open>The Replayer\<close>

definition HeaderReplayTraceparent :: string where "HeaderReplayTraceparent = ''Eventbus-Replay-Traceparent''"
definition HeaderReplayFailedTraceparent :: string where
  "HeaderReplayFailedTraceparent = ''Eventbus-Replay-Failed-Traceparent''"
definition HeaderReplayDLQSequence :: string where "HeaderReplayDLQSequence = ''Eventbus-Replay-Dlq-Sequence''"

definition replayHeaders :: "headers \<Rightarrow> headers" where
  "replayHeaders src = filter (\<lambda>(k, _). \<not> (dlq_key k \<or> replay_key k \<or> nats_key k)) src"

text \<open>The runes of a string as byte sequences; an invalid byte is U+FFFD, as for \<^verbatim>\<open>range\<close>.\<close>

function runes :: "string \<Rightarrow> string list" where
  "runes s = (if s = [] then []
     else if rune_width s = 0 then RuneError # runes (tl s)
     else take (rune_width s) s # runes (drop (rune_width s) s))"
  by pat_completeness auto
termination
  by (relation "measure length") (auto simp: rune_width_le)

declare runes.simps [simp del]

text \<open>\<^verbatim>\<open>unicode.IsSpace\<close>: the White_Space property.\<close>

definition is_space_rune :: "string \<Rightarrow> bool" where
  "is_space_rune r = (case map byte r of
     [b] \<Rightarrow> (9 \<le> b \<and> b \<le> 13) \<or> b = 32
   | [b, c] \<Rightarrow> b = 0xC2 \<and> (c = 0x85 \<or> c = 0xA0)
   | [b, c, d] \<Rightarrow> (b, c, d) = (0xE1, 0x9A, 0x80) \<or> (b, c) = (0xE2, 0x80) \<and> (d \<le> 0x8A \<or> d \<in> {0xA8, 0xA9, 0xAF})
       \<or> (b, c, d) = (0xE2, 0x81, 0x9F) \<or> (b, c, d) = (0xE3, 0x80, 0x80)
   | _ \<Rightarrow> False)"

fun Split :: "string \<Rightarrow> char \<Rightarrow> string list" where
  "Split [] sep = [[]]"
| "Split (c # cs) sep = (if c = sep then [] # Split cs sep
     else (case Split cs sep of t # ts \<Rightarrow> (c # t) # ts | [] \<Rightarrow> [[c]]))"

definition validReplaySubject :: "string \<Rightarrow> bool" where
  "validReplaySubject s \<longleftrightarrow> s \<noteq> []
     \<and> list_all (\<lambda>r. \<not> is_space_rune r \<and> \<not> is_control_rune r) (runes s)
     \<and> list_all (\<lambda>tok. tok \<noteq> [] \<and> tok \<noteq> ''*'' \<and> tok \<noteq> ''>'') (Split s (CHR ''.''))"

record replay_options =
  ro_FromStream :: string
  ro_ToSubject :: string
  ro_Limit :: int
  ro_Consumer :: string
  ro_FilterSubject :: string

record replay_result =
  rs_Replayed :: int
  rs_Failed :: int

text \<open>
  The Replayer: its publish, the consumer it created, the traceparent of the span it starts for
  a context and target, and whether a traceparent parses to a valid span context.
\<close>

record 'u replayer =
  rp_PublishMsg :: "ctx \<Rightarrow> nats_msg \<Rightarrow> ('u, error option) comp"
  rp_CreateConsumer :: "string \<Rightarrow> string \<Rightarrow> string \<Rightarrow> ('u, error option) comp"
  rp_FetchNoWait :: "string \<Rightarrow> int \<Rightarrow> ('u, error + 'u js_msg list \<times> error option) comp"
  rp_spanTraceparent :: "ctx \<Rightarrow> string \<Rightarrow> string"
  rp_validTraceparent :: "string \<Rightarrow> bool"

definition replay_target :: "replay_options \<Rightarrow> headers \<Rightarrow> string" where
  "replay_target opts src = (if ro_ToSubject opts = [] then header_get src HeaderDLQOriginalSubject else ro_ToSubject opts)"

definition replay_msg_headers :: "'u replayer \<Rightarrow> ctx \<Rightarrow> replay_options \<Rightarrow> headers \<Rightarrow> string \<Rightarrow> int option \<Rightarrow> headers" where
  "replay_msg_headers R c opts src target seq =
     (let failedTP = header_get src HeaderDLQTraceparent; tp = rp_spanTraceparent R c target;
          h0 = replayHeaders src;
          h1 = (if tp \<noteq> [] then header_set HeaderReplayTraceparent tp h0 else h0);
          h2 = (if failedTP \<noteq> [] \<and> rp_validTraceparent R failedTP then header_set HeaderReplayFailedTraceparent failedTP h1 else h1)
      in case seq of None \<Rightarrow> h2
         | Some n \<Rightarrow> (let sq = Itoa n; eid = header_get src HeaderDLQEventID;
               i = (if eid \<noteq> [] then eid @ '':replay:'' @ sq else ''replay:'' @ ro_FromStream opts @ '':'' @ sq)
             in header_set HeaderReplayDLQSequence sq (header_set MsgIDHeader i h2)))"

definition replay_error :: "replay_options \<Rightarrow> int \<Rightarrow> error \<Rightarrow> error" where
  "replay_error opts seq err = WrapError (''jetstream: replay stream '' @ ro_FromStream opts @ '' seq '' @ Itoa seq
     @ '': '' @ Error_text err) [err]"

text \<open>Settle a record with its action; the error of the action is ignored, a panic is not.\<close>

definition settle_record :: "'u js_msg \<Rightarrow> action \<Rightarrow> 'a \<Rightarrow> 'u world \<Rightarrow> ('a result \<times> action list) \<times> 'u world" where
  "settle_record msg a x w = (case jm_act msg a w of
     (Panics v st, w1) \<Rightarrow> ((Panics v st, [a]), w1) | (Ret _, w1) \<Rightarrow> ((Ret x, [a]), w1))"

definition replayOne :: "'u replayer \<Rightarrow> ctx \<Rightarrow> 'u js_msg \<Rightarrow> replay_options \<Rightarrow> replay_result \<Rightarrow> 'u world \<Rightarrow>
    ((replay_result \<times> error option) result \<times> action list) \<times> 'u world" where
  "replayOne R c msg opts res w =
     (let seq = (case jm_Metadata msg of Inl _ \<Rightarrow> None | Inr md \<Rightarrow> Some (mm_StreamSeq md));
          seq0 = (case seq of None \<Rightarrow> 0 | Some n \<Rightarrow> n);
          src = jm_Headers msg; target = replay_target opts src;
          failed = res\<lparr>rs_Failed := rs_Failed res + 1\<rparr>
      in if \<not> validReplaySubject target
         then settle_record msg ActNak (failed, Some (replay_error opts seq0 (Sentinel ErrReplaySubject))) w
         else (case rp_PublishMsg R c \<lparr>nm_Subject = target, nm_Reply = [], nm_Data = jm_Data msg,
                   nm_Header = replay_msg_headers R c opts src target seq\<rparr> w of
             (Panics v st, w1) \<Rightarrow> ((Panics v st, []), w1)
           | (Ret (Some err), w1) \<Rightarrow> settle_record msg ActNak (failed, Some (replay_error opts seq0 err)) w1
           | (Ret None, w1) \<Rightarrow> settle_record msg ActAck (res\<lparr>rs_Replayed := rs_Replayed res + 1\<rparr>, None) w1))"

text \<open>The records of a batch in order: once one failed, the rest is Nakked and not counted.\<close>

fun replay_batch :: "'u replayer \<Rightarrow> ctx \<Rightarrow> replay_options \<Rightarrow> 'u js_msg list \<Rightarrow> replay_result \<Rightarrow> error option \<Rightarrow> 'u world \<Rightarrow>
    ((replay_result \<times> error option) result \<times> action list) \<times> 'u world" where
  "replay_batch R c opts [] res recErr w = ((Ret (res, recErr), []), w)"
| "replay_batch R c opts (msg # msgs) res recErr w =
     (case (if recErr \<noteq> None then settle_record msg ActNak (res, recErr) w else replayOne R c msg opts res w) of
        ((Panics v st, acts), w1) \<Rightarrow> ((Panics v st, acts), w1)
      | ((Ret (res1, err1), acts), w1) \<Rightarrow>
          (case replay_batch R c opts msgs res1 err1 w1 of ((r, rest), w2) \<Rightarrow> ((r, acts @ rest), w2)))"

definition replay_size :: "replay_options \<Rightarrow> replay_result \<Rightarrow> int" where
  "replay_size opts res = (if ro_Limit opts > 0 then min 64 (ro_Limit opts - rs_Replayed res) else 64)"

text \<open>
  The loop of Replay. Without a limit it ends only when the stream is drained, so it is a
  partial function: None is a run that never returns.
\<close>

partial_function (option) replay_loop :: "'u replayer \<Rightarrow> ctx \<Rightarrow> string \<Rightarrow> replay_options \<Rightarrow> replay_result \<Rightarrow> action list \<Rightarrow> 'u world \<Rightarrow>
    (((replay_result \<times> error option) result \<times> action list) \<times> 'u world) option" where
  "replay_loop R c name opts res log w =
     (case ctx_Err c w of
        Some err \<Rightarrow> Some ((Ret (res, Some err), log), w)
      | None \<Rightarrow>
          if ro_Limit opts > 0 \<and> ro_Limit opts - rs_Replayed res \<le> 0 then Some ((Ret (res, None), log), w)
          else (case rp_FetchNoWait R name (replay_size opts res) w of
              (Panics v st, w1) \<Rightarrow> Some ((Panics v st, log), w1)
            | (Ret (Inl err), w1) \<Rightarrow>
                Some ((Ret (res, if errors_Is err (Foreign JsErrNoMessages) then None else Some err), log), w1)
            | (Ret (Inr (msgs, berr)), w1) \<Rightarrow>
                (case replay_batch R c opts msgs res None w1 of
                   ((Panics v st, acts), w2) \<Rightarrow> Some ((Panics v st, log @ acts), w2)
                 | ((Ret (res1, Some err), acts), w2) \<Rightarrow> Some ((Ret (res1, Some err), log @ acts), w2)
                 | ((Ret (res1, None), acts), w2) \<Rightarrow>
                     if (case berr of None \<Rightarrow> False | Some e \<Rightarrow> \<not> errors_Is e (Foreign JsErrNoMessages))
                     then Some ((Ret (res1, berr), log @ acts), w2)
                     else if msgs = [] then Some ((Ret (res1, None), log @ acts), w2)
                     else replay_loop R c name opts res1 (log @ acts) w2)))"

definition Replay :: "'u replayer \<Rightarrow> ctx \<Rightarrow> replay_options \<Rightarrow> 'u world \<Rightarrow>
    (((replay_result \<times> error option) result \<times> action list) \<times> 'u world) option" where
  "Replay R c opts w =
     (let res = \<lparr>rs_Replayed = 0, rs_Failed = 0\<rparr>;
          name = (if ro_Consumer opts = [] then ''replay_'' @ ro_FromStream opts else ro_Consumer opts)
      in if ro_FromStream opts = [] then Some ((Ret (res, Some (Sentinel ErrStreamRequired)), []), w)
         else (case rp_CreateConsumer R (ro_FromStream opts) name (ro_FilterSubject opts) w of
             (Panics v st, w1) \<Rightarrow> Some ((Panics v st, []), w1)
           | (Ret (Some err), w1) \<Rightarrow> Some ((Ret (res, Some err), []), w1)
           | (Ret None, w1) \<Rightarrow> replay_loop R c name opts res [] w1))"

section \<open>Headers through the dead-letter stream\<close>

lemma map_of_header_set [simp]: "map_of (header_set k v h) k' = (if k' = k then Some [v] else map_of h k')"
  by (simp add: header_set_def update_conv')

lemma map_of_filter_key: "map_of (filter (\<lambda>(k, _). P k) h) k = (if P k then map_of h k else None)"
  by (induction h) auto

text \<open>Setting single headers: the last value of a key wins, other keys are kept.\<close>

lemma fold_header_set:
  "map_of (fold (\<lambda>(k, v). header_set k v) kvs h) k =
     (case map_of (rev kvs) k of Some v \<Rightarrow> Some [v] | None \<Rightarrow> map_of h k)"
  by (induction kvs arbitrary: h) (auto split: option.splits)

lemma map_of_rev_unique:
  assumes "(k, v) \<in> set kvs" and "\<And>v'. (k, v') \<in> set kvs \<Longrightarrow> v' = v"
  shows "map_of (rev kvs) k = Some v" and "map_of kvs k = Some v"
proof -
  have *: "map_of xs k = Some v" if xs: "set xs = set kvs" for xs
  proof -
    have "(k, v) \<in> set xs" using assms(1) xs by simp
    then obtain v' where v': "map_of xs k = Some v'" using weak_map_of_SomeI by metis
    then show ?thesis using assms(2) xs map_of_SomeD[OF v'] by simp
  qed
  show "map_of (rev kvs) k = Some v" "map_of kvs k = Some v" by (simp_all add: *)
qed

text \<open>The failure headers, and what DLQ.Publish adds to them, all carry the dead-letter prefix.\<close>

lemma header_keys [simp]:
  "dlq_key HeaderDLQCause" "dlq_key HeaderDLQReason" "dlq_key HeaderDLQAttempts" "dlq_key HeaderDLQDeliveryCount"
  "dlq_key HeaderDLQHandler" "dlq_key HeaderDLQOriginalSubject" "dlq_key HeaderDLQFailedAt"
  "dlq_key HeaderDLQFirstAttemptAt" "dlq_key HeaderDLQEventID" "dlq_key HeaderDLQEventName"
  "dlq_key HeaderDLQOriginalMsgID" "dlq_key HeaderDLQOriginalStream" "dlq_key HeaderDLQOriginalSequence"
  "dlq_key HeaderDLQPublishedAt" "dlq_key HeaderDLQPanicStack" "dlq_key HeaderDLQHistory"
  "dlq_key HeaderDLQHistoryTruncated" "dlq_key HeaderDLQTraceparent"
  "replay_key HeaderReplayTraceparent" "replay_key HeaderReplayFailedTraceparent"
  "replay_key HeaderReplayDLQSequence" "nats_key MsgIDHeader"
  by (simp_all add: header_defs HeaderDLQTraceparent_def HeaderReplayTraceparent_def HeaderReplayFailedTraceparent_def
      HeaderReplayDLQSequence_def MsgIDHeader_def dlq_key_def replay_key_def nats_key_def lower_byte_def char_of_def bit_0)

lemma subject_header_distinct [simp]:
  "HeaderDLQOriginalSubject \<noteq> HeaderDLQCause" "HeaderDLQOriginalSubject \<noteq> HeaderDLQReason"
  "HeaderDLQOriginalSubject \<noteq> HeaderDLQAttempts" "HeaderDLQOriginalSubject \<noteq> HeaderDLQDeliveryCount"
  "HeaderDLQOriginalSubject \<noteq> HeaderDLQHandler" "HeaderDLQOriginalSubject \<noteq> HeaderDLQFailedAt"
  "HeaderDLQOriginalSubject \<noteq> HeaderDLQFirstAttemptAt" "HeaderDLQOriginalSubject \<noteq> HeaderDLQEventID"
  "HeaderDLQOriginalSubject \<noteq> HeaderDLQEventName" "HeaderDLQOriginalSubject \<noteq> HeaderDLQOriginalMsgID"
  "HeaderDLQOriginalSubject \<noteq> HeaderDLQOriginalStream" "HeaderDLQOriginalSubject \<noteq> HeaderDLQOriginalSequence"
  "HeaderDLQOriginalSubject \<noteq> HeaderDLQPublishedAt" "HeaderDLQOriginalSubject \<noteq> HeaderDLQPanicStack"
  "HeaderDLQOriginalSubject \<noteq> HeaderDLQHistory" "HeaderDLQOriginalSubject \<noteq> HeaderDLQHistoryTruncated"
  "HeaderDLQOriginalSubject \<noteq> HeaderDLQTraceparent"
  by (simp_all add: header_defs HeaderDLQTraceparent_def)

lemma FailureHeaders_key: "(k, v) \<in> set (FailureHeaders fmtTime r) \<Longrightarrow> dlq_key k"
  by (auto simp: FailureHeaders_def set_header_def setTime_def setHistoryHeaders_def
      split: option.splits if_splits prod.splits)

lemma FailureHeaders_subject:
  assumes "r_Subject r \<noteq> []"
  shows "(HeaderDLQOriginalSubject, v) \<in> set (FailureHeaders fmtTime r) \<longleftrightarrow> v = TruncateHeader (r_Subject r) DLQHeaderValueLimit"
  using assms by (auto simp: FailureHeaders_def set_header_def setTime_def setHistoryHeaders_def
      split: option.splits if_splits prod.splits)

text \<open>What the dead letter keeps of the record, with the full and with the minimal headers.\<close>

definition dead_letter_of :: "dlq_record \<Rightarrow> headers \<Rightarrow> bool" where
  "dead_letter_of rec h \<longleftrightarrow> (\<forall>k. \<not> nats_key k \<and> \<not> dlq_key k \<longrightarrow> map_of h k = map_of (r_Headers rec) k)
     \<and> (r_Subject rec \<noteq> [] \<longrightarrow>
          header_get h HeaderDLQOriginalSubject = TruncateHeader (r_Subject rec) DLQHeaderValueLimit)"

lemma dead_letter_set:
  assumes "dead_letter_of rec h" and "dlq_key k" and "k \<noteq> HeaderDLQOriginalSubject"
  shows "dead_letter_of rec (header_set k v h)"
  using assms by (auto simp: dead_letter_of_def header_get_def)

lemma dlqFullHeaders_keeps: "dead_letter_of rec (dlqFullHeaders fmtTime rec tp)"
proof -
  let ?F = "FailureHeaders fmtTime rec" and ?h0 = "fst (dlqCopyHeaders (r_Headers rec))"
  let ?h1 = "fold (\<lambda>(k, v). header_set k v) ?F ?h0"
  have "map_of (rev ?F) k = None" if "\<not> dlq_key k" for k
    using that FailureHeaders_key by (auto simp: map_of_eq_None_iff)
  then have "map_of ?h1 k = map_of (r_Headers rec) k" if "\<not> nats_key k" "\<not> dlq_key k" for k
    using that by (simp add: fold_header_set dlqCopyHeaders_def map_of_filter_key)
  moreover have "map_of (rev ?F) HeaderDLQOriginalSubject = Some (TruncateHeader (r_Subject rec) DLQHeaderValueLimit)"
    if "r_Subject rec \<noteq> []"
    using FailureHeaders_subject[OF that] by (intro map_of_rev_unique) auto
  ultimately have "dead_letter_of rec ?h1" by (simp add: dead_letter_of_def header_get_def fold_header_set)
  then show ?thesis
    unfolding dlqFullHeaders_def by (auto simp: Let_def dlqCopyHeaders_def subject_header_distinct[symmetric] intro!: dead_letter_set)
qed

lemma dlqMinimalHeaders_keeps: "dead_letter_of rec (dlqMinimalHeaders fmtTime rec tp)"
proof -
  let ?F = "FailureHeaders fmtTime rec" and ?h0 = "fst (dlqCopyHeaders (r_Headers rec))"
  have F: "map_of ?F HeaderDLQOriginalSubject = Some (TruncateHeader (r_Subject rec) DLQHeaderValueLimit)"
    if "r_Subject rec \<noteq> []"
    using FailureHeaders_subject[OF that] by (intro map_of_rev_unique) auto
  have keep: "map_of ?h0 k = map_of (r_Headers rec) k" if "\<not> nats_key k" "\<not> dlq_key k" for k
    using that by (simp add: dlqCopyHeaders_def map_of_filter_key)
  have ne: "\<not> dlq_key k \<Longrightarrow> k \<notin> {HeaderDLQTraceparent, HeaderDLQReason, HeaderDLQOriginalSubject, HeaderDLQEventID,
      HeaderDLQHandler, HeaderDLQCause}" for k by auto
  show ?thesis unfolding dead_letter_of_def
  proof (intro conjI allI impI)
    fix k assume k: "\<not> nats_key k \<and> \<not> dlq_key k"
    show "map_of (dlqMinimalHeaders fmtTime rec tp) k = map_of (r_Headers rec) k"
      using keep[of k] ne[of k] k unfolding dlqMinimalHeaders_def by (auto simp: Let_def split: option.splits)
  next
    assume "r_Subject rec \<noteq> []"
    then show "header_get (dlqMinimalHeaders fmtTime rec tp) HeaderDLQOriginalSubject = TruncateHeader (r_Subject rec) DLQHeaderValueLimit"
      unfolding dlqMinimalHeaders_def header_get_def by (auto simp: Let_def F split: option.splits)
  qed
qed

text \<open>The replayed headers: the user headers are those of the dead letter, and everything set here is marked.\<close>

definition user_key :: "string \<Rightarrow> bool" where
  "user_key k \<longleftrightarrow> \<not> nats_key k \<and> \<not> dlq_key k \<and> \<not> replay_key k"

lemma user_key_neq [simp]:
  "user_key k \<Longrightarrow> k \<noteq> HeaderReplayTraceparent" "user_key k \<Longrightarrow> k \<noteq> HeaderReplayFailedTraceparent"
  "user_key k \<Longrightarrow> k \<noteq> HeaderReplayDLQSequence" "user_key k \<Longrightarrow> k \<noteq> MsgIDHeader"
  by (auto simp: user_key_def)

lemma replay_msg_headers_user:
  "user_key k \<Longrightarrow> map_of (replay_msg_headers R c opts src target seq) k = map_of src k"
  by (auto simp: replay_msg_headers_def Let_def replayHeaders_def map_of_filter_key user_key_def[of k]
      dest: user_key_neq split: option.splits)

text \<open>Of the other headers, only those the replay sets itself are on the message.\<close>

definition replay_set_keys :: "string set" where
  "replay_set_keys = {HeaderReplayTraceparent, HeaderReplayFailedTraceparent, HeaderReplayDLQSequence, MsgIDHeader}"

lemma replay_msg_headers_other:
  "\<not> user_key k \<Longrightarrow> k \<notin> replay_set_keys \<Longrightarrow> map_of (replay_msg_headers R c opts src target seq) k = None"
  by (auto simp: replay_msg_headers_def Let_def replayHeaders_def map_of_filter_key user_key_def replay_set_keys_def
      split: option.splits)

section \<open>Counting the records of a replay\<close>

definition is_ack :: "action \<Rightarrow> bool" where
  "is_ack a \<longleftrightarrow> a = ActAck"

lemma settle_record_acts: "settle_record msg a x w = ((r, acts), w') \<Longrightarrow> acts = [a] \<and> (\<forall>y. r = Ret y \<longrightarrow> y = x)"
  by (auto simp: settle_record_def split: prod.splits result.splits)

lemma replayOne_counts:
  assumes "replayOne R c msg opts res w = ((Ret (res1, err), acts), w')"
  shows "if err = None then acts = [ActAck] \<and> res1 = res\<lparr>rs_Replayed := rs_Replayed res + 1\<rparr>
    else acts = [ActNak] \<and> res1 = res\<lparr>rs_Failed := rs_Failed res + 1\<rparr>"
  using assms
  by (auto simp: replayOne_def Let_def dest!: settle_record_acts split: if_splits prod.splits result.splits option.splits)

text \<open>After a failure the rest of a batch is only Nakked.\<close>

lemma replay_batch_failed:
  "replay_batch R c opts msgs res (Some e) w = ((Ret (res1, err), acts), w') \<Longrightarrow>
     res1 = res \<and> err = Some e \<and> acts = replicate (length msgs) ActNak"
proof (induction msgs arbitrary: w acts w')
  case (Cons msg msgs)
  then show ?case by (auto dest!: settle_record_acts split: prod.splits result.splits)
qed simp

lemma replay_batch_counts:
  assumes "replay_batch R c opts msgs res None w = ((Ret (res1, err), acts), w')"
  shows "length acts = length msgs \<and> rs_Replayed res1 = rs_Replayed res + int (count_if is_ack acts)
    \<and> rs_Failed res1 = rs_Failed res + (if err = None then 0 else 1)
    \<and> count_if is_ack acts \<le> length msgs \<and> (err = None \<longrightarrow> count_if is_ack acts = length msgs)"
  using assms
proof (induction msgs arbitrary: res w acts w')
  case (Cons msg msgs)
  obtain r a w1 where one: "replayOne R c msg opts res w = ((r, a), w1)" by (metis prod.collapse)
  obtain res2 err2 where r: "r = Ret (res2, err2)" using Cons.prems one by (cases r) auto
  obtain r3 rest w2 where rb: "replay_batch R c opts msgs res2 err2 w1 = ((r3, rest), w2)" by (metis prod.collapse)
  have eq: "acts = a @ rest" "r3 = Ret (res1, err)" using Cons.prems one r rb by auto
  note o = replayOne_counts[OF one[unfolded r]]
  show ?case
  proof (cases err2)
    case None
    with rb eq have "replay_batch R c opts msgs res2 None w1 = ((Ret (res1, err), rest), w2)" by simp
    from Cons.IH[OF this] o None show ?thesis by (auto simp: eq is_ack_def count_if_def)
  next
    case (Some e)
    with rb eq have "replay_batch R c opts msgs res2 (Some e) w1 = ((Ret (res1, err), rest), w2)" by simp
    from replay_batch_failed[OF this] o Some show ?thesis by (auto simp: eq is_ack_def count_if_def)
  qed
qed (simp add: count_if_def)

text \<open>The outcome of a replay: acknowledged records are the replayed ones, within the limit.\<close>

definition replay_ok :: "replay_options \<Rightarrow> (replay_result \<times> error option) result \<Rightarrow> action list \<Rightarrow> bool" where
  "replay_ok opts r acts \<longleftrightarrow> (case r of Panics v st \<Rightarrow> True
     | Ret (res, err) \<Rightarrow> rs_Replayed res = int (count_if is_ack acts) \<and> rs_Replayed res \<le> ro_Limit opts
         \<and> rs_Failed res \<in> {0, 1} \<and> (err = None \<longrightarrow> rs_Failed res = 0))"

lemma replay_ok_Panics [simp]: "replay_ok opts (Panics v st) acts"
  by (simp add: replay_ok_def)

definition fetch_bounded :: "'u replayer \<Rightarrow> bool" where
  "fetch_bounded R \<longleftrightarrow> (\<forall>name n w msgs e w'. rp_FetchNoWait R name n w = (Ret (Inr (msgs, e)), w') \<longrightarrow> int (length msgs) \<le> max 0 n)"

lemma replay_loop_limit:
  assumes lim: "0 < ro_Limit opts" and fetch: "fetch_bounded R"
  shows "rs_Replayed res = int (count_if is_ack log) \<Longrightarrow> rs_Replayed res \<le> ro_Limit opts \<Longrightarrow> rs_Failed res = 0 \<Longrightarrow>
    \<exists>r acts w'. replay_loop R c name opts res log w = Some ((r, acts), w') \<and> replay_ok opts r acts"
proof (induction "nat (ro_Limit opts - rs_Replayed res)" arbitrary: res log w rule: less_induct)
  case less
  have done_ok: "replay_ok opts (Ret (res, e)) log" for e using less.prems by (simp add: replay_ok_def)
  show ?case
  proof (cases "ctx_Err c w \<noteq> None \<or> ro_Limit opts - rs_Replayed res \<le> 0")
    case True
    then show ?thesis using done_ok lim by (subst replay_loop.simps) (auto split: option.splits)
  next
    case False
    then have go: "ctx_Err c w = None" "rs_Replayed res < ro_Limit opts" by auto
    obtain f w1 where f: "rp_FetchNoWait R name (replay_size opts res) w = (f, w1)" by force
    show ?thesis
    proof (cases "\<exists>msgs berr. f = Ret (Inr (msgs, berr))")
      case False
      with go f done_ok show ?thesis
        by (subst replay_loop.simps) (auto split: result.splits sum.splits)
    next
      case True
      then obtain msgs berr where fm: "f = Ret (Inr (msgs, berr))" by blast
      have len: "int (length msgs) \<le> ro_Limit opts - rs_Replayed res"
      proof -
        have "int (length msgs) \<le> max 0 (replay_size opts res)" using fetch f fm unfolding fetch_bounded_def by blast
        then show ?thesis using lim go(2) by (auto simp: replay_size_def)
      qed
      obtain rb acts w2 where rb: "replay_batch R c opts msgs res None w1 = ((rb, acts), w2)" by (metis prod.collapse)
      note step = go f fm rb
      show ?thesis
      proof (cases rb)
        case (Panics v st)
        with step show ?thesis by (subst replay_loop.simps) simp
      next
        case (Ret p)
        obtain res1 err where p: "p = (res1, err)" by force
        note cnt = replay_batch_counts[OF rb[unfolded Ret p]]
        have ok: "replay_ok opts (Ret (res1, e)) (log @ acts)" if "e = None \<Longrightarrow> err = None" for e
          using cnt less.prems len that by (auto simp: replay_ok_def)
        show ?thesis
        proof (cases "err = None \<and> msgs \<noteq> [] \<and> \<not> (case berr of None \<Rightarrow> False | Some e \<Rightarrow> \<not> errors_Is e (Foreign JsErrNoMessages))")
          case True
          then have "0 < length msgs" "err = None" by auto
          then have "\<exists>r acts' w'. replay_loop R c name opts res1 (log @ acts) w2 = Some ((r, acts'), w') \<and> replay_ok opts r acts'"
            using cnt less.prems len go(2) by (intro less.hyps) auto
          with step Ret p True show ?thesis by (subst replay_loop.simps) auto
        next
          case False
          with step Ret p ok show ?thesis by (subst replay_loop.simps) (auto split: option.splits)
        qed
      qed
    qed
  qed
qed

section \<open>A dead letter and its replay\<close>

text \<open>A broker that keeps the messages published to it and answers from them.\<close>

definition recorder :: "(nats_msg list \<Rightarrow> error option) \<Rightarrow> ctx \<Rightarrow> nats_msg \<Rightarrow> (nats_msg list, error option) comp" where
  "recorder A c m w = (Ret (A (w_user w @ [m])), w\<lparr>w_user := w_user w @ [m]\<rparr>)"

lemma DLQ_Publish_recorded:
  assumes D: "dq_PublishMsg D = recorder A" and raw: "r_Evt rec = None \<or> r_Raw rec \<noteq> []"
    and run: "DLQ_Publish D c rec w = (Ret None, w1)"
  shows "\<exists>m. w_user w1 \<noteq> [] \<and> last (w_user w1) = m \<and> nm_Subject m = dq_prefix D @ dlqSubject rec \<and> nm_Data m = r_Raw rec
    \<and> dead_letter_of rec (nm_Header m)"
proof -
  have data: "dlq_data D c rec w = (Ret (Inr (r_Raw rec)), w)"
    using raw by (auto simp: dlq_data_def split: option.splits)
  show ?thesis
    using run dlqFullHeaders_keeps[of rec "dq_fmtTime D" "dq_traceparent D c"]
      dlqMinimalHeaders_keeps[of rec "dq_fmtTime D" "dq_traceparent D c"]
    by (auto simp: DLQ_Publish_def data Let_def dlq_send_def D recorder_def split: option.splits if_splits)
qed

text \<open>What replayOne publishes for a dead letter of a record, to the subject its header names.\<close>

lemma replayOne_recorded:
  assumes R: "rp_PublishMsg R = recorder (\<lambda>_. None)" and to: "ro_ToSubject opts = []"
    and act: "jm_act msg = (\<lambda>_ w. (Ret None, w))" and dl: "dead_letter_of rec (jm_Headers msg)"
    and subj: "r_Subject rec \<noteq> []" "validReplaySubject (TruncateHeader (r_Subject rec) DLQHeaderValueLimit)"
    and run: "replayOne R c msg opts res w = ((r, acts), w2)"
  shows "acts = [ActAck] \<and> nm_Subject (last (w_user w2)) = TruncateHeader (r_Subject rec) DLQHeaderValueLimit
    \<and> nm_Data (last (w_user w2)) = jm_Data msg
    \<and> (\<forall>k. user_key k \<longrightarrow> map_of (nm_Header (last (w_user w2))) k = map_of (r_Headers rec) k)
    \<and> (\<forall>k. \<not> user_key k \<and> k \<notin> replay_set_keys \<longrightarrow> map_of (nm_Header (last (w_user w2))) k = None)"
proof -
  have t: "replay_target opts (jm_Headers msg) = TruncateHeader (r_Subject rec) DLQHeaderValueLimit"
    using dl subj(1) to by (simp add: replay_target_def dead_letter_of_def)
  have u: "map_of (jm_Headers msg) k = map_of (r_Headers rec) k" if "user_key k" for k
    using dl that by (simp add: dead_letter_of_def user_key_def)
  show ?thesis using run subj(2)
    by (auto simp: replayOne_def Let_def t R recorder_def settle_record_def act replay_msg_headers_user replay_msg_headers_other u)
qed

section \<open>Subjects beyond the header limit\<close>

text \<open>Strings of plain letters pass the header sanitizer unchanged.\<close>

lemma ToValidUTF8_letters: "ToValidUTF8 b (replicate n (CHR ''a'')) = replicate n (CHR ''a'')"
  by (induction n arbitrary: b) (subst ToValidUTF8.simps; simp)+

lemma Map_control_letters: "Map_control (replicate n (CHR ''a'')) = replicate n (CHR ''a'')"
  by (induction n) (subst Map_control.simps; simp add: is_control_rune_def)+

definition cut_subject :: string where
  "cut_subject = replicate 1010 (CHR ''a'') @ TruncationMarker"

lemma TruncateHeader_letters:
  assumes "1024 < n"
  shows "TruncateHeader (replicate n (CHR ''a'')) DLQHeaderValueLimit = cut_subject"
proof -
  have "runeBoundary (replicate n (CHR ''a'')) 1010 = 1010"
    using assms by (subst runeBoundary.simps) (simp add: RuneStart_def cont_def)
  moreover have "length TruncationMarker = 14" by (simp add: TruncationMarker_def)
  moreover have "take 1010 (replicate n (CHR ''a'')) = replicate 1010 (CHR ''a'')" using assms by simp
  ultimately show ?thesis using assms
    by (simp add: TruncateHeader_def DLQHeaderValueLimit_def sanitize_def ToValidUTF8_letters Map_control_letters
        Let_def cut_subject_def)
qed

lemma cut_subject_valid: "validReplaySubject cut_subject"
proof -
  have r: "runes (replicate n (CHR ''a'') @ t) = replicate n ''a'' @ runes t" for n t
    by (induction n) (simp, subst runes.simps, simp)
  have m: "list_all (\<lambda>r. \<not> is_space_rune r \<and> \<not> is_control_rune r) (runes TruncationMarker)" by code_simp
  have sp: "Split t (CHR ''.'') = [t]" if "CHR ''.'' \<notin> set t" for t using that by (induction t) auto
  have "CHR ''.'' \<notin> set cut_subject" by (auto simp: cut_subject_def TruncationMarker_def)
  note sp = sp[OF this]
  have ne: "cut_subject \<noteq> []" "cut_subject \<noteq> ''*''" "cut_subject \<noteq> ''>''"
    by (auto simp: cut_subject_def TruncationMarker_def dest!: arg_cong[where f = length])
  have "list_all (\<lambda>r. \<not> is_space_rune r \<and> \<not> is_control_rune r) (replicate n ''a'')" for n
    by (induction n) (simp_all add: is_space_rune_def is_control_rune_def)
  then show ?thesis using ne m unfolding validReplaySubject_def sp unfolding cut_subject_def r by simp
qed

section \<open>Properties\<close>

text \<open>
  C27. A replay restores the dead letter. When a record with envelope bytes (or of an undecodable
  message) was published to the dead-letter stream, also after a rejection for its size, the
  Replayer publishes exactly the original bytes to the original subject with every original
  user header unchanged, and acknowledges the dead letter; headers of the broker, of the
  failure and of earlier replays do not come back. The subject must fit the header value limit.
\<close>

theorem replay_restores:
  assumes "dq_PublishMsg D = recorder A" and "rp_PublishMsg R = recorder (\<lambda>_. None)"
    and "r_Evt rec = None \<or> r_Raw rec \<noteq> []"
    and "validReplaySubject (r_Subject rec)" and "TruncateHeader (r_Subject rec) DLQHeaderValueLimit = r_Subject rec"
    and "DLQ_Publish D c rec w = (Ret None, w1)"
    and "jm_Data msg = nm_Data (last (w_user w1))" and "jm_Headers msg = nm_Header (last (w_user w1))"
    and "jm_act msg = (\<lambda>_ w. (Ret None, w))" and "ro_ToSubject opts = []"
    and "replayOne R c' msg opts res w1 = ((r, acts), w2)"
  shows "nm_Subject (last (w_user w1)) = dq_prefix D @ r_Subject rec \<and> acts = [ActAck]
    \<and> nm_Subject (last (w_user w2)) = r_Subject rec \<and> nm_Data (last (w_user w2)) = r_Raw rec
    \<and> (\<forall>k. user_key k \<longrightarrow> map_of (nm_Header (last (w_user w2))) k = map_of (r_Headers rec) k)
    \<and> (\<forall>k. \<not> user_key k \<and> k \<notin> replay_set_keys \<longrightarrow> map_of (nm_Header (last (w_user w2))) k = None)"
proof -
  have ne: "r_Subject rec \<noteq> []" using assms(4) by (simp add: validReplaySubject_def)
  then have s: "dlqSubject rec = r_Subject rec" by (simp add: dlqSubject_def)
  from DLQ_Publish_recorded[OF assms(1, 3, 6)] have m: "nm_Subject (last (w_user w1)) = dq_prefix D @ r_Subject rec"
    "nm_Data (last (w_user w1)) = r_Raw rec" "dead_letter_of rec (jm_Headers msg)"
    using assms(8) by (auto simp: s)
  from replayOne_recorded[OF assms(2, 10, 9) m(3) ne _ assms(11)] assms(4, 5, 7) m show ?thesis by simp
qed

text \<open>A sample: a dead-lettered record and its replay.\<close>

definition sample_dlq :: "nats_msg list dlq" where
  "sample_dlq = \<lparr>dq_PublishMsg = recorder (\<lambda>_. None), dq_prefix = DefaultDLQPrefix, dq_Encode = None,
     dq_NewID = (\<lambda>w. (''id'', w)), dq_traceparent = (\<lambda>_. []), dq_fmtTime = (\<lambda>_. ''t''), dq_quote = (\<lambda>s. s)\<rparr>"

definition sample_replayer :: "nats_msg list replayer" where
  "sample_replayer = \<lparr>rp_PublishMsg = recorder (\<lambda>_. None), rp_CreateConsumer = (\<lambda>_ _ _ w. (Ret None, w)),
     rp_FetchNoWait = (\<lambda>_ _ w. (Ret (Inr ([], None)), w)), rp_spanTraceparent = (\<lambda>_ _. []),
     rp_validTraceparent = (\<lambda>_. False)\<rparr>"

definition sample_dead :: dlq_record where
  "sample_dead = \<lparr>r_Raw = ''{}'', r_Headers = [(''tenant'', [''a''])], r_Evt = None, r_EventID = ''e1'', r_EventName = ''order'',
     r_Cause = Some boom, r_Reason = ReasonTerminal, r_Handler = ''h'', r_Subject = ''orders'', r_Attempts = 1,
     r_Delivery = single_delivery, r_Execution = zero_execution, r_FailedAt = 5, r_History = []\<rparr>"

definition sample_options :: replay_options where
  "sample_options = \<lparr>ro_FromStream = ''DLQ'', ro_ToSubject = [], ro_Limit = 10, ro_Consumer = [], ro_FilterSubject = []\<rparr>"

definition letter_msg :: "nats_msg \<Rightarrow> nats_msg list js_msg" where
  "letter_msg m = \<lparr>jm_Subject = nm_Subject m, jm_Data = nm_Data m, jm_Headers = nm_Header m, jm_Metadata = Inl boom,
     jm_act = (\<lambda>_ w. (Ret None, w))\<rparr>"

definition dead_run :: "error option result \<times> nats_msg list world" where
  "dead_run = DLQ_Publish sample_dlq Background sample_dead (sample_world [])"

definition replay_run :: "((replay_result \<times> error option) result \<times> action list) \<times> nats_msg list world" where
  "replay_run = replayOne sample_replayer Background (letter_msg (last (w_user (snd dead_run)))) sample_options
     \<lparr>rs_Replayed = 0, rs_Failed = 0\<rparr> (snd dead_run)"

lemma dead_run_ok: "fst dead_run = Ret None"
  by (simp add: dead_run_def DLQ_Publish_def dlq_data_def sample_dead_def sample_dlq_def dlq_send_def recorder_def Let_def)

lemma sample_subject: "validReplaySubject ''orders'' \<and> TruncateHeader ''orders'' DLQHeaderValueLimit = ''orders''"
  by code_simp

theorem replay_restores_witness:
  "nm_Subject (last (w_user (snd replay_run))) = ''orders'' \<and> nm_Data (last (w_user (snd replay_run))) = ''{}''
   \<and> map_of (nm_Header (last (w_user (snd replay_run)))) ''tenant'' = Some [''a'']"
proof -
  have pub: "DLQ_Publish sample_dlq Background sample_dead (sample_world []) = (Ret None, snd dead_run)"
    using dead_run_ok unfolding dead_run_def by (metis prod.collapse)
  have k: "user_key ''tenant''"
    by (simp add: user_key_def nats_key_def dlq_key_def replay_key_def lower_byte_def)
  have run: "replayOne sample_replayer Background (letter_msg (last (w_user (snd dead_run)))) sample_options
      \<lparr>rs_Replayed = 0, rs_Failed = 0\<rparr> (snd dead_run) = ((fst (fst replay_run), snd (fst replay_run)), snd replay_run)"
    unfolding replay_run_def by simp
  have "r_Subject sample_dead = ''orders''" "r_Raw sample_dead = ''{}''" "r_Headers sample_dead = [(''tenant'', [''a''])]"
    by (simp_all add: sample_dead_def)
  then show ?thesis
    using replay_restores[OF _ _ _ _ _ pub _ _ _ _ run, of "\<lambda>_. None"] sample_subject k
    by (simp add: sample_dlq_def sample_replayer_def sample_options_def letter_msg_def)
qed

text \<open>
  C28. A replay with a limit returns. Whatever the broker delivers and answers, when a fetch
  gives at most the number of records asked for, Replay with a positive limit ends; then the
  acknowledged records are exactly the ones counted as replayed, at most the limit, at most
  one record failed, and none when it returns without an error.
\<close>

theorem replay_returns:
  assumes "0 < ro_Limit opts" and "fetch_bounded R"
  shows "\<exists>r acts w'. Replay R c opts w = Some ((r, acts), w') \<and> replay_ok opts r acts"
proof -
  let ?res = "\<lparr>rs_Replayed = 0, rs_Failed = 0\<rparr>"
  have start: "replay_ok opts (Ret (?res, Some e)) []" for e using assms(1) by (simp add: replay_ok_def)
  have loop: "\<exists>r acts w'. replay_loop R c name opts ?res [] w1 = Some ((r, acts), w') \<and> replay_ok opts r acts" for name w1
    using assms(1) by (intro replay_loop_limit[OF assms]) auto
  show ?thesis unfolding Replay_def Let_def using start loop by (auto split: prod.splits result.splits option.splits)
qed

definition one_letter :: "nat replayer" where
  "one_letter = \<lparr>rp_PublishMsg = (\<lambda>_ _ w. (Ret None, w)), rp_CreateConsumer = (\<lambda>_ _ _ w. (Ret None, w)),
     rp_FetchNoWait = (\<lambda>_ n w. (Ret (Inr (take (nat n) [\<lparr>jm_Subject = ''dlq.orders'', jm_Data = ''{}'',
        jm_Headers = [(HeaderDLQOriginalSubject, [''orders''])], jm_Metadata = Inl boom, jm_act = (\<lambda>_ w. (Ret None, w))\<rparr>],
        None)), w)),
     rp_spanTraceparent = (\<lambda>_ _. []), rp_validTraceparent = (\<lambda>_. False)\<rparr>"

theorem replay_returns_witness:
  "\<exists>r acts w'. Replay one_letter Background sample_options (sample_world 0) = Some ((r, acts), w') \<and> replay_ok sample_options r acts"
  by (rule replay_returns) (auto simp: sample_options_def fetch_bounded_def one_letter_def)


definition long_dead :: dlq_record where
  "long_dead = sample_dead\<lparr>r_Subject := replicate 1025 (CHR ''a'')\<rparr>"

definition long_run :: "error option result \<times> nats_msg list world" where
  "long_run = DLQ_Publish sample_dlq Background long_dead (sample_world [])"

definition long_replay :: "((replay_result \<times> error option) result \<times> action list) \<times> nats_msg list world" where
  "long_replay = replayOne sample_replayer Background (letter_msg (last (w_user (snd long_run)))) sample_options
     \<lparr>rs_Replayed = 0, rs_Failed = 0\<rparr> (snd long_run)"


end
