(* ===== verification/Shutdown_Drain.thy ===== *)
theory Shutdown_Drain
  imports Lifecycle Log_Observer
begin

text \<open>
  Shutdown of the broker transports (nats/bus.go and jetstream/bus.go): the first caller owns
  the drain of the subscriptions, later callers wait for it, a caller whose context expires
  forces the end, and the NATS bus closes its connection last. The critical sections are
  functions on the state of a bus; a step relation with one program counter per caller
  interleaves them with subscriptions, deliveries and expiring contexts. The transports share
  the protocol, so its invariant is proved once, in a locale over what each provides.
\<close>

section \<open>State\<close>

text \<open>
  Where a caller of Shutdown is. \<open>Draining todo waiting\<close> and \<open>Awaiting waiting\<close> are the two loops
  of the drain step, \<open>Forcing owner second\<close> the two actions of force, \<open>DrainDone ok\<close> the deferred
  close of the drained channel, \<open>Waiting\<close> the loop of Lifecycle.Wait with the channel it blocks
  on. The flags \<open>ok\<close> say that the result is nil and not the error of the context.
\<close>

datatype pc = Entering | Draining "nat list" "nat list" | Awaiting "nat list" | Forcing bool bool | DrainDone bool
  | Polling | Later | Waiting "nat option" | Finishing bool | Flushing bool | Returned bool

record caller =
  cl_pc :: pc
  cl_expired :: bool

text \<open>
  Subscriptions (NATS) and consumers (JetStream) are numbered. \<open>ds_drained\<close> is the drained
  channel: nil, open or closed. \<open>ds_draining\<close> is the list the owner took, \<open>ds_refused\<close> the
  subscriptions whose drain failed and was reported, \<open>ds_ended\<close> the ones that reported closed.
  \<open>ds_accepted\<close> records the subscriptions whose Subscribe returned nil.
\<close>

record drain_state =
  ds_life :: lifecycle
  ds_live :: nat
  ds_subs :: "nat list"
  ds_drained :: "bool option"
  ds_draining :: "nat list"
  ds_made :: nat
  ds_accepted :: "nat list"
  ds_ended :: "nat list"
  ds_refused :: "nat list"
  ds_closeOnce :: bool
  ds_closes :: nat
  ds_stopOnce :: bool
  ds_stopped :: "nat list"
  ds_log :: "slog_table option"
  ds_summaries :: "(soKey \<times> soEntry) list"
  ds_callers :: "caller list"

definition at_pc :: "drain_state \<Rightarrow> nat \<Rightarrow> pc \<Rightarrow> bool" where
  "at_pc st i pc \<longleftrightarrow> i < length (ds_callers st) \<and> cl_pc (ds_callers st ! i) = pc"

definition goto_pc :: "nat \<Rightarrow> pc \<Rightarrow> drain_state \<Rightarrow> drain_state" where
  "goto_pc i pc st = st\<lparr>ds_callers := (ds_callers st)[i := (ds_callers st ! i)\<lparr>cl_pc := pc\<rparr>]\<rparr>"

section \<open>The NATS bus\<close>

text \<open>The critical section of trackSub: keep the subscription, or drop it when Shutdown began.\<close>

definition trackSub :: "nat \<Rightarrow> drain_state \<Rightarrow> sentinel option \<times> drain_state" where
  "trackSub s st = (if Closing (ds_life st) then (Some ErrBusClosed, st\<lparr>ds_stopped := s # ds_stopped st\<rparr>)
     else (None, st\<lparr>ds_subs := ds_subs st @ [s]\<rparr>))"

text \<open>The critical section of shutdown: the owner takes the list, a later caller leaves it.\<close>

definition nats_enter :: "drain_state \<Rightarrow> nat list option \<times> drain_state" where
  "nats_enter st = (case ds_drained st of
     None \<Rightarrow> (Some (ds_subs st), st\<lparr>ds_drained := Some False, ds_draining := ds_subs st, ds_subs := []\<rparr>)
   | Some _ \<Rightarrow> (None, st))"

definition closeConn :: "drain_state \<Rightarrow> drain_state" where
  "closeConn st = (if ds_closeOnce st then st else st\<lparr>ds_closeOnce := True, ds_closes := Suc (ds_closes st)\<rparr>)"

definition interrupt_bus :: "drain_state \<Rightarrow> drain_state" where
  "interrupt_bus st = st\<lparr>ds_life := Interrupt (ds_life st)\<rparr>"

section \<open>The JetStream bus\<close>

definition js_register :: "nat \<Rightarrow> drain_state \<Rightarrow> sentinel option \<times> drain_state" where
  "js_register s st = (if Closing (ds_life st) then (Some ErrBusClosed, st\<lparr>ds_stopped := s # ds_stopped st\<rparr>)
     else (None, st\<lparr>ds_subs := ds_subs st @ [s]\<rparr>))"

definition js_enter :: "drain_state \<Rightarrow> nat list option \<times> drain_state" where
  "js_enter st = (if ds_drained st \<noteq> None then (None, st)
     else let st' = st\<lparr>ds_drained := Some False, ds_draining := ds_subs st, ds_subs := []\<rparr>
          in (Some (ds_draining st'), st'))"

definition js_stop :: "drain_state \<Rightarrow> drain_state" where
  "js_stop st = (if ds_stopOnce st then st else st\<lparr>ds_stopOnce := True, ds_stopped := ds_draining st @ ds_stopped st\<rparr>)"

section \<open>The shared protocol\<close>

text \<open>
  What a transport contributes: registration, the critical section of shutdown, whether the
  drain call of a subscription can fail, whether a later caller polls the drained channel
  before it blocks, the two actions of force, and the last action before shutdown returns.
\<close>

record proto =
  pr_register :: "nat \<Rightarrow> drain_state \<Rightarrow> sentinel option \<times> drain_state"
  pr_enter :: "drain_state \<Rightarrow> nat list option \<times> drain_state"
  pr_fallible :: bool
  pr_polls :: bool
  pr_force1 :: "drain_state \<Rightarrow> drain_state"
  pr_force2 :: "drain_state \<Rightarrow> drain_state"
  pr_finish :: "drain_state \<Rightarrow> drain_state"

definition nats_proto :: proto where
  "nats_proto = \<lparr>pr_register = trackSub, pr_enter = nats_enter, pr_fallible = True, pr_polls = True,
     pr_force1 = interrupt_bus, pr_force2 = closeConn, pr_finish = closeConn\<rparr>"

definition js_proto :: proto where
  "js_proto = \<lparr>pr_register = js_register, pr_enter = js_enter, pr_fallible = False, pr_polls = False,
     pr_force1 = js_stop, pr_force2 = interrupt_bus, pr_finish = (\<lambda>st. st)\<rparr>"

text \<open>Shutdown flushes the default log observer of the bus, when it has one, on every path.\<close>

definition flush_default :: "drain_state \<Rightarrow> drain_state" where
  "flush_default st = (case ds_log st of None \<Rightarrow> st
     | Some t \<Rightarrow> (case so_Flush t of (pending, t') \<Rightarrow> st\<lparr>ds_log := Some t', ds_summaries := pending @ ds_summaries st\<rparr>))"

text \<open>
  A step is labelled with the caller that takes it, or None: a new call of Shutdown, an expiring
  context, a Subscribe, a subscription that reports closed, an emit or delivery, or a signal.
\<close>

inductive shutdown_step :: "proto \<Rightarrow> nat option \<Rightarrow> drain_state \<Rightarrow> drain_state \<Rightarrow> bool" for p where
  owner: "at_pc st i Entering \<Longrightarrow> pr_enter p st = (Some subs, st') \<Longrightarrow>
    shutdown_step p (Some i) st (goto_pc i (Draining subs []) st')"
| later: "at_pc st i Entering \<Longrightarrow> pr_enter p st = (None, st') \<Longrightarrow>
    shutdown_step p (Some i) st (goto_pc i (if pr_polls p then Polling else Later) st')"
| drain_started: "at_pc st i (Draining (s # todo) ws) \<Longrightarrow>
    shutdown_step p (Some i) st (goto_pc i (Draining todo (ws @ [s])) st)"
| drain_refused: "pr_fallible p \<Longrightarrow> at_pc st i (Draining (s # todo) ws) \<Longrightarrow>
    shutdown_step p (Some i) st (goto_pc i (Draining todo ws) (st\<lparr>ds_refused := s # ds_refused st\<rparr>))"
| drain_called: "at_pc st i (Draining [] ws) \<Longrightarrow> shutdown_step p (Some i) st (goto_pc i (Awaiting ws) st)"
| await_closed: "at_pc st i (Awaiting (s # ws)) \<Longrightarrow> s \<in> set (ds_ended st) \<Longrightarrow>
    shutdown_step p (Some i) st (goto_pc i (Awaiting ws) st)"
| await_forced: "at_pc st i (Awaiting (s # ws)) \<Longrightarrow> l_cancelled (ds_life st) \<Longrightarrow>
    shutdown_step p (Some i) st (goto_pc i (DrainDone True) st)"
| await_expired: "at_pc st i (Awaiting (s # ws)) \<Longrightarrow> cl_expired (ds_callers st ! i) \<Longrightarrow>
    shutdown_step p (Some i) st (goto_pc i (Forcing True False) st)"
| await_none: "at_pc st i (Awaiting []) \<Longrightarrow> shutdown_step p (Some i) st (goto_pc i (DrainDone True) st)"
| force_first: "at_pc st i (Forcing own False) \<Longrightarrow>
    shutdown_step p (Some i) st (goto_pc i (Forcing own True) (pr_force1 p st))"
| force_second: "at_pc st i (Forcing own True) \<Longrightarrow>
    shutdown_step p (Some i) st (goto_pc i (if own then DrainDone False else Flushing False) (pr_force2 p st))"
| drain_end: "at_pc st i (DrainDone ok) \<Longrightarrow>
    shutdown_step p (Some i) st (goto_pc i (if ok then Waiting None else Flushing False) (st\<lparr>ds_drained := Some True\<rparr>))"
| poll: "at_pc st i Polling \<Longrightarrow>
    shutdown_step p (Some i) st (goto_pc i (if ds_drained st = Some True then Waiting None else Later) st)"
| later_drained: "at_pc st i Later \<Longrightarrow> ds_drained st = Some True \<Longrightarrow>
    shutdown_step p (Some i) st (goto_pc i (Waiting None) st)"
| later_expired: "at_pc st i Later \<Longrightarrow> cl_expired (ds_callers st ! i) \<Longrightarrow>
    shutdown_step p (Some i) st (goto_pc i (Forcing False False) st)"
| wait_idle: "at_pc st i (Waiting w) \<Longrightarrow> (\<And>ch. w = Some ch \<Longrightarrow> woken (ds_life st) ch) \<Longrightarrow> Wait_pass (ds_life st) = (None, l') \<Longrightarrow>
    shutdown_step p (Some i) st (goto_pc i (Finishing True) (st\<lparr>ds_life := l'\<rparr>))"
| wait_blocks: "at_pc st i (Waiting w) \<Longrightarrow> (\<And>ch. w = Some ch \<Longrightarrow> woken (ds_life st) ch) \<Longrightarrow> Wait_pass (ds_life st) = (Some ch', l') \<Longrightarrow>
    shutdown_step p (Some i) st (goto_pc i (Waiting (Some ch')) (st\<lparr>ds_life := l'\<rparr>))"
| wait_expired: "at_pc st i (Waiting (Some ch)) \<Longrightarrow> cl_expired (ds_callers st ! i) \<Longrightarrow>
    shutdown_step p (Some i) st (goto_pc i (Finishing False) (st\<lparr>ds_life := Interrupt (ds_life st)\<rparr>))"
| finish: "at_pc st i (Finishing ok) \<Longrightarrow> shutdown_step p (Some i) st (goto_pc i (Flushing ok) (pr_finish p st))"
| flush: "at_pc st i (Flushing ok) \<Longrightarrow> shutdown_step p (Some i) st (goto_pc i (Returned ok) (flush_default st))"
| call: "shutdown_step p None st (st\<lparr>ds_life := BeginShutdown (ds_life st),
    ds_callers := ds_callers st @ [\<lparr>cl_pc = Entering, cl_expired = False\<rparr>]\<rparr>)"
| expires: "i < length (ds_callers st) \<Longrightarrow>
    shutdown_step p None st (st\<lparr>ds_callers := (ds_callers st)[i := (ds_callers st ! i)\<lparr>cl_expired := True\<rparr>]\<rparr>)"
| subscribed: "pr_register p (ds_made st) st = (r, st') \<Longrightarrow>
    shutdown_step p None st (st'\<lparr>ds_made := Suc (ds_made st),
      ds_accepted := (if r = None then ds_made st # ds_accepted st else ds_accepted st)\<rparr>)"
| ended: "s < ds_made st \<Longrightarrow> shutdown_step p None st (st\<lparr>ds_ended := s # ds_ended st\<rparr>)"
| admitted: "Admit nested (ds_life st) = Inr l' \<Longrightarrow>
    shutdown_step p None st (st\<lparr>ds_life := l', ds_live := Suc (ds_live st)\<rparr>)"
| tracked: "Track (ds_life st) = Some l' \<Longrightarrow>
    shutdown_step p None st (st\<lparr>ds_life := l', ds_live := Suc (ds_live st)\<rparr>)"
| released: "0 < ds_live st \<Longrightarrow>
    shutdown_step p None st (st\<lparr>ds_life := release (ds_life st), ds_live := ds_live st - 1\<rparr>)"
| signalled: "ds_log st = Some t \<Longrightarrow> so_record every k level now t = (v, t') \<Longrightarrow>
    shutdown_step p None st (st\<lparr>ds_log := Some t'\<rparr>)"

definition drain_init :: "slog_table option \<Rightarrow> drain_state" where
  "drain_init lg = \<lparr>ds_life = zero_lifecycle, ds_live = 0, ds_subs = [], ds_drained = None, ds_draining = [], ds_made = 0,
     ds_accepted = [], ds_ended = [], ds_refused = [], ds_closeOnce = False, ds_closes = 0, ds_stopOnce = False,
     ds_stopped = [], ds_log = lg, ds_summaries = [], ds_callers = []\<rparr>"

inductive shutdown_reach :: "proto \<Rightarrow> drain_state \<Rightarrow> bool" for p where
  init: "shutdown_reach p (drain_init lg)"
| step: "shutdown_reach p st \<Longrightarrow> shutdown_step p a st st' \<Longrightarrow> shutdown_reach p st'"

section \<open>The contract of a transport\<close>

text \<open>The components the protocol itself owns; force and the last action keep them.\<close>

definition core :: "drain_state \<Rightarrow> _" where
  "core st = ((ds_live st, ds_subs st, ds_drained st, ds_draining st, ds_made st), (ds_accepted st, ds_ended st, ds_refused st, ds_callers st))"

definition closes_ok :: "drain_state \<Rightarrow> bool" where
  "closes_ok st \<longleftrightarrow> ds_closes st = (if ds_closeOnce st then 1 else 0)"

text \<open>
  \<open>first\<close> says that force interrupts the handlers with its first action, otherwise with its
  second; \<open>closes\<close> that the transport has a connection, which the last action closes.
\<close>

locale drain_protocol =
  fixes p :: proto and first closes :: bool
  assumes enter: "pr_enter p st = (case ds_drained st of
        None \<Rightarrow> (Some (ds_subs st), st\<lparr>ds_drained := Some False, ds_draining := ds_subs st, ds_subs := []\<rparr>)
      | Some _ \<Rightarrow> (None, st))"
    and register: "pr_register p s st = (if Closing (ds_life st) then (Some ErrBusClosed, st\<lparr>ds_stopped := s # ds_stopped st\<rparr>)
        else (None, st\<lparr>ds_subs := ds_subs st @ [s]\<rparr>))"
    and core_kept: "core (pr_force1 p st) = core st" "core (pr_force2 p st) = core st" "core (pr_finish p st) = core st"
    and life_forced: "ds_life (pr_force1 p st) = (if first then Interrupt (ds_life st) else ds_life st)"
      "ds_life (pr_force2 p st) = (if first then ds_life st else Interrupt (ds_life st))"
      "ds_life (pr_finish p st) = ds_life st"
    and closed_when: "ds_closeOnce (pr_force1 p st) = ds_closeOnce st"
      "ds_closeOnce (pr_force2 p st) = (ds_closeOnce st \<or> closes)" "ds_closeOnce (pr_finish p st) = (ds_closeOnce st \<or> closes)"
    and closes_once: "closes_ok st \<Longrightarrow> closes_ok (pr_force1 p st)" "closes_ok st \<Longrightarrow> closes_ok (pr_force2 p st)"
      "closes_ok st \<Longrightarrow> closes_ok (pr_finish p st)"
    and closes_first: "closes \<Longrightarrow> first"

interpretation nats: drain_protocol nats_proto True True
  by unfold_locales (auto simp: nats_proto_def nats_enter_def trackSub_def closeConn_def interrupt_bus_def core_def closes_ok_def split: option.splits)

interpretation js: drain_protocol js_proto False False
  by unfold_locales (auto simp: js_proto_def js_enter_def js_register_def js_stop_def interrupt_bus_def core_def closes_ok_def Let_def split: option.splits)

section \<open>Lemmas on the state\<close>

lemma goto_pc_simps [simp]:
  "ds_life (goto_pc i q st) = ds_life st" "ds_live (goto_pc i q st) = ds_live st" "ds_subs (goto_pc i q st) = ds_subs st"
  "ds_drained (goto_pc i q st) = ds_drained st" "ds_draining (goto_pc i q st) = ds_draining st" "ds_made (goto_pc i q st) = ds_made st"
  "ds_accepted (goto_pc i q st) = ds_accepted st" "ds_ended (goto_pc i q st) = ds_ended st" "ds_refused (goto_pc i q st) = ds_refused st"
  "ds_closeOnce (goto_pc i q st) = ds_closeOnce st" "ds_closes (goto_pc i q st) = ds_closes st"
  "length (ds_callers (goto_pc i q st)) = length (ds_callers st)"
  by (simp_all add: goto_pc_def)

lemma flush_default_simps [simp]:
  "ds_life (flush_default st) = ds_life st" "core (flush_default st) = core st"
  "ds_closeOnce (flush_default st) = ds_closeOnce st" "ds_closes (flush_default st) = ds_closes st"
  by (auto simp: flush_default_def core_def split: option.splits prod.splits)

lemma core_fields:
  assumes "core st' = core st"
  shows "ds_live st' = ds_live st" "ds_subs st' = ds_subs st" "ds_drained st' = ds_drained st" "ds_draining st' = ds_draining st"
    "ds_made st' = ds_made st" "ds_accepted st' = ds_accepted st" "ds_ended st' = ds_ended st" "ds_refused st' = ds_refused st"
    "ds_callers st' = ds_callers st"
  using assms by (simp_all add: core_def)

lemma at_pc_goto: "i < length (ds_callers st) \<Longrightarrow> at_pc (goto_pc i q st) j q' \<longleftrightarrow> (if j = i then q' = q else at_pc st j q')"
  by (auto simp: at_pc_def goto_pc_def nth_list_update)

lemma at_pc_bound [dest]: "at_pc st i q \<Longrightarrow> i < length (ds_callers st)"
  by (simp add: at_pc_def)

text \<open>The flags of a lifecycle only ever rise.\<close>

definition flags_grow :: "lifecycle \<Rightarrow> lifecycle \<Rightarrow> bool" where
  "flags_grow l l' \<longleftrightarrow> (l_closed l \<longrightarrow> l_closed l') \<and> (l_forced l \<longrightarrow> l_forced l') \<and> (l_done l \<longrightarrow> l_done l')"

lemma flags_grow_ops [simp]:
  "flags_grow l l" "flags_grow l (Interrupt l)" "flags_grow l (BeginShutdown l)" "flags_grow l (release l)"
  "Wait_pass l = (r, l') \<Longrightarrow> flags_grow l l'" "Track l = Some l' \<Longrightarrow> flags_grow l l'" "Admit n l = Inr l' \<Longrightarrow> flags_grow l l'"
  by (auto simp: flags_grow_def Interrupt_def BeginShutdown_def release_def Let_def Wait_pass_def Track_def Admit_def
      split: if_splits option.splits)

section \<open>The invariant\<close>

text \<open>Every subscription the owner took reported closed, or its drain was refused and reported.\<close>

definition settled :: "drain_state \<Rightarrow> bool" where
  "settled st \<longleftrightarrow> (\<forall>s \<in> set (ds_draining st). s \<in> set (ds_ended st) \<or> s \<in> set (ds_refused st))"

fun owner_pc :: "pc \<Rightarrow> bool" where
  "owner_pc (Draining _ _) = True" | "owner_pc (Awaiting _) = True" | "owner_pc (Forcing own _) = own"
| "owner_pc (DrainDone _) = True" | "owner_pc _ = False"

fun pc_ok :: "bool \<Rightarrow> bool \<Rightarrow> drain_state \<Rightarrow> pc \<Rightarrow> bool" where
  "pc_ok first closes st Entering = True"
| "pc_ok first closes st (Draining todo ws) \<longleftrightarrow> ds_drained st \<noteq> None \<and> set todo \<union> set ws \<subseteq> set (ds_draining st)
     \<and> (\<forall>s \<in> set (ds_draining st). s \<in> set todo \<or> s \<in> set ws \<or> s \<in> set (ds_refused st))"
| "pc_ok first closes st (Awaiting ws) \<longleftrightarrow> ds_drained st \<noteq> None \<and> set ws \<subseteq> set (ds_draining st)
     \<and> (\<forall>s \<in> set (ds_draining st). s \<in> set ws \<or> s \<in> set (ds_ended st) \<or> s \<in> set (ds_refused st))"
| "pc_ok first closes st (Forcing own second) \<longleftrightarrow> ds_drained st \<noteq> None \<and> (first \<and> second \<longrightarrow> l_forced (ds_life st))"
| "pc_ok first closes st (DrainDone ok) \<longleftrightarrow> ds_drained st \<noteq> None \<and> (l_forced (ds_life st) \<or> ok \<and> settled st)
     \<and> (\<not> ok \<and> closes \<longrightarrow> ds_closeOnce st)"
| "pc_ok first closes st Polling \<longleftrightarrow> ds_drained st \<noteq> None"
| "pc_ok first closes st Later \<longleftrightarrow> ds_drained st \<noteq> None"
| "pc_ok first closes st (Waiting _) \<longleftrightarrow> ds_drained st = Some True"
| "pc_ok first closes st (Finishing ok) \<longleftrightarrow> ds_drained st = Some True \<and> (if ok then l_done (ds_life st) else l_forced (ds_life st))"
| "pc_ok first closes st (Flushing ok) \<longleftrightarrow>
     (if ok then ds_drained st = Some True \<and> l_done (ds_life st) else l_forced (ds_life st)) \<and> (closes \<longrightarrow> ds_closeOnce st)"
| "pc_ok first closes st (Returned ok) \<longleftrightarrow>
     (if ok then ds_drained st = Some True \<and> l_done (ds_life st) else l_forced (ds_life st)) \<and> (closes \<longrightarrow> ds_closeOnce st)"

definition globals_ok :: "drain_state \<Rightarrow> bool" where
  "globals_ok st \<longleftrightarrow> (ds_drained st = None \<longrightarrow> ds_draining st = []) \<and> (ds_drained st \<noteq> None \<longrightarrow> ds_subs st = [] \<and> l_closed (ds_life st))
     \<and> set (ds_accepted st) = set (ds_subs st) \<union> set (ds_draining st)
     \<and> (ds_drained st = Some True \<longrightarrow> l_forced (ds_life st) \<or> settled st)
     \<and> (ds_closeOnce st \<longrightarrow> l_forced (ds_life st) \<or> ds_drained st = Some True \<and> l_done (ds_life st))
     \<and> closes_ok st \<and> (l_cancelled (ds_life st) \<longrightarrow> l_forced (ds_life st))"

definition owners_ok :: "drain_state \<Rightarrow> bool" where
  "owners_ok st \<longleftrightarrow> (\<forall>i q. at_pc st i q \<and> owner_pc q \<longrightarrow> ds_drained st = Some False
     \<and> (\<forall>j r. at_pc st j r \<and> owner_pc r \<longrightarrow> j = i))"

definition drain_inv :: "bool \<Rightarrow> bool \<Rightarrow> drain_state \<Rightarrow> bool" where
  "drain_inv first closes st \<longleftrightarrow> globals_ok st \<and> owners_ok st \<and> (\<forall>i q. at_pc st i q \<longrightarrow> pc_ok first closes st q)
     \<and> (ds_callers st \<noteq> [] \<longrightarrow> l_closed (ds_life st))"

definition grows :: "drain_state \<Rightarrow> drain_state \<Rightarrow> bool" where
  "grows st st' \<longleftrightarrow> flags_grow (ds_life st) (ds_life st')
     \<and> (ds_drained st \<noteq> None \<longrightarrow> ds_drained st' \<noteq> None \<and> ds_draining st' = ds_draining st)
     \<and> (ds_drained st = Some True \<longrightarrow> ds_drained st' = Some True)
     \<and> set (ds_ended st) \<subseteq> set (ds_ended st') \<and> set (ds_refused st) \<subseteq> set (ds_refused st') \<and> (ds_closeOnce st \<longrightarrow> ds_closeOnce st')"

lemma pc_ok_grows: "pc_ok first closes st q \<Longrightarrow> grows st st' \<Longrightarrow> pc_ok first closes st' q"
  by (cases q) (auto simp: grows_def flags_grow_def settled_def split: if_splits)

lemma pc_ok_goto [simp]: "pc_ok first closes (goto_pc i r st) q \<longleftrightarrow> pc_ok first closes st q"
  by (cases q) (auto simp: settled_def)

lemma globals_goto [simp]: "globals_ok (goto_pc i r st) \<longleftrightarrow> globals_ok st"
  by (simp add: globals_ok_def settled_def closes_ok_def)

text \<open>A step of one caller that keeps the program counters of the others.\<close>

lemma inv_move:
  assumes inv: "drain_inv first closes st" and at: "at_pc st i q" and same: "ds_callers st' = ds_callers st"
    and grow: "grows st st'" and glob: "globals_ok st'" and ok: "pc_ok first closes st' r"
    and own: "owner_pc r \<Longrightarrow> ds_drained st' = Some False \<and> (owner_pc q \<or> ds_drained st = None)"
    and rest: "owner_pc q \<or> ds_drained st' = ds_drained st \<or> ds_drained st = None"
  shows "drain_inv first closes (goto_pc i r st')"
proof -
  have i: "i < length (ds_callers st')" and at': "at_pc st' j x \<longleftrightarrow> at_pc st j x" for j x
    using at same by (auto simp: at_pc_def)
  have o: "owners_ok st" using inv by (simp add: drain_inv_def)
  have others: "ds_drained st = Some False" "ds_drained st' = Some False" "\<not> owner_pc q" "\<not> owner_pc r"
    if "at_pc st j x" "owner_pc x" "j \<noteq> i" for j x
  proof -
    show *: "ds_drained st = Some False" "\<not> owner_pc q" using o that at unfolding owners_ok_def by blast+
    then show "ds_drained st' = Some False" "\<not> owner_pc r" using rest own by auto
  qed
  have "owners_ok (goto_pc i r st')" unfolding owners_ok_def
  proof (intro allI impI)
    fix j x assume j: "at_pc (goto_pc i r st') j x \<and> owner_pc x"
    show "ds_drained (goto_pc i r st') = Some False \<and> (\<forall>k y. at_pc (goto_pc i r st') k y \<and> owner_pc y \<longrightarrow> k = j)"
    proof (cases "j = i")
      case True
      with j have "owner_pc r" by (auto simp: at_pc_goto[OF i])
      with True own others(4) show ?thesis by (auto simp: at_pc_goto[OF i] at')
    next
      case False
      with j have jx: "at_pc st j x" "owner_pc x" by (simp_all add: at_pc_goto[OF i] at')
      note q = others[OF this False]
      have "k = j" if "at_pc (goto_pc i r st') k y" "owner_pc y" for k y
      proof -
        have "k \<noteq> i" using that q(4) by (auto simp: at_pc_goto[OF i])
        then have "at_pc st k y" using that(1) by (simp add: at_pc_goto[OF i] at')
        with that(2) jx o show ?thesis unfolding owners_ok_def by blast
      qed
      with q(2) show ?thesis by auto
    qed
  qed
  moreover have "pc_ok first closes st' x" if "at_pc st j x" for j x
    using inv that grow by (auto simp: drain_inv_def intro: pc_ok_grows)
  moreover have "l_closed (ds_life st')" using inv grow at by (auto simp: drain_inv_def grows_def flags_grow_def at_pc_def)
  ultimately show ?thesis using glob ok at' at_pc_goto[OF i] by (auto simp: drain_inv_def)
qed

text \<open>A step of the environment that keeps all callers.\<close>

lemma inv_env:
  assumes inv: "drain_inv first closes st" and same: "ds_callers st' = ds_callers st" and grow: "grows st st'"
    and glob: "globals_ok st'" and d: "ds_drained st' = ds_drained st"
  shows "drain_inv first closes st'"
proof -
  have at': "at_pc st' j x \<longleftrightarrow> at_pc st j x" for j x using same by (auto simp: at_pc_def)
  have "pc_ok first closes st' x" if "at_pc st j x" for j x
    using inv that grow by (auto simp: drain_inv_def intro: pc_ok_grows)
  moreover have "owners_ok st'" using inv d unfolding drain_inv_def owners_ok_def at' by simp
  ultimately show ?thesis using inv glob grow same at' by (auto simp: drain_inv_def grows_def flags_grow_def)
qed

lemma inv_init: "drain_inv first closes (drain_init lg)"
  by (simp add: drain_inv_def globals_ok_def owners_ok_def at_pc_def drain_init_def closes_ok_def zero_lifecycle_def)

lemma grows_refl [simp]: "grows st st"
  by (simp add: grows_def)

lemma grows_core: "core st' = core st \<Longrightarrow> flags_grow (ds_life st) (ds_life st') \<Longrightarrow> (ds_closeOnce st \<Longrightarrow> ds_closeOnce st') \<Longrightarrow> grows st st'"
  by (auto simp: grows_def dest: core_fields)

lemma globals_life:
  assumes "globals_ok st" and "flags_grow (ds_life st) l'" and "l_cancelled l' \<Longrightarrow> l_cancelled (ds_life st) \<or> l_forced l'"
  shows "globals_ok (st\<lparr>ds_life := l', ds_live := n\<rparr>)" "globals_ok (st\<lparr>ds_life := l'\<rparr>)"
  using assms by (auto simp: globals_ok_def flags_grow_def settled_def closes_ok_def)

lemma cancelled_ops:
  "l_cancelled (Interrupt l) \<Longrightarrow> l_forced (Interrupt l)" "l_cancelled (release l) = l_cancelled l" "l_cancelled (BeginShutdown l) = l_cancelled l"
  "Wait_pass l = (r, l') \<Longrightarrow> l_cancelled l' = l_cancelled l" "Track l = Some l' \<Longrightarrow> l_cancelled l' = l_cancelled l"
  "Admit n l = Inr l' \<Longrightarrow> l_cancelled l' = l_cancelled l"
  by (auto simp: Interrupt_def BeginShutdown_def release_def Let_def Wait_pass_def Track_def Admit_def split: if_splits option.splits)

lemma globals_core:
  assumes "globals_ok st" and "core st' = core st" and "flags_grow (ds_life st) (ds_life st')"
    and "l_cancelled (ds_life st') \<Longrightarrow> l_cancelled (ds_life st) \<or> l_forced (ds_life st')" and "closes_ok st'"
    and "ds_closeOnce st' \<Longrightarrow> ds_closeOnce st \<or> l_forced (ds_life st') \<or> ds_drained st = Some True \<and> l_done (ds_life st')"
  shows "globals_ok st'"
  using assms(1, 3-) core_fields[OF assms(2)] by (auto simp: globals_ok_def flags_grow_def settled_def)

lemma at_facts:
  assumes "drain_inv first closes st" and "at_pc st i q"
  shows "pc_ok first closes st q" "globals_ok st" "owner_pc q \<Longrightarrow> ds_drained st = Some False"
  using assms by (auto simp: drain_inv_def owners_ok_def)

lemma inv_pass:
  assumes inv: "drain_inv first closes st" and at: "at_pc st i (Waiting w)" and pass: "Wait_pass (ds_life st) = (r, l')"
  shows "drain_inv first closes (goto_pc i (case r of None \<Rightarrow> Finishing True | Some ch \<Rightarrow> Waiting (Some ch)) (st\<lparr>ds_life := l'\<rparr>))"
proof (rule inv_move[OF inv at])
  note facts = at_facts[OF inv at]
  show "globals_ok (st\<lparr>ds_life := l'\<rparr>)" using facts(2) pass by (intro globals_life) (auto simp: cancelled_ops)
  show "pc_ok first closes (st\<lparr>ds_life := l'\<rparr>) (case r of None \<Rightarrow> Finishing True | Some ch \<Rightarrow> Waiting (Some ch))"
    using facts(1) pass by (auto simp: Wait_pass_def split: option.splits if_splits)
qed (use pass in \<open>auto simp: grows_def split: option.splits\<close>)

lemma inv_call:
  assumes inv: "drain_inv first closes st"
  shows "drain_inv first closes (st\<lparr>ds_life := BeginShutdown (ds_life st),
    ds_callers := ds_callers st @ [\<lparr>cl_pc = Entering, cl_expired = False\<rparr>]\<rparr>)" (is "drain_inv _ _ ?st")
proof -
  have at: "at_pc ?st j x \<longleftrightarrow> at_pc st j x \<or> j = length (ds_callers st) \<and> x = Entering" for j x
    by (auto simp: at_pc_def nth_append less_Suc_eq)
  have "globals_ok (st\<lparr>ds_life := BeginShutdown (ds_life st)\<rparr>)"
    using inv by (intro globals_life) (auto simp: drain_inv_def cancelled_ops)
  moreover have "grows st ?st" by (simp add: grows_def)
  then have "pc_ok first closes ?st x" if "at_pc st j x" for j x
    using at_facts(1)[OF inv that] by (rule pc_ok_grows[rotated])
  moreover have "owners_ok ?st" using inv unfolding drain_inv_def owners_ok_def at by auto
  ultimately show ?thesis using at
    by (auto simp: drain_inv_def globals_ok_def settled_def closes_ok_def BeginShutdown_def)
qed

lemma inv_expires:
  assumes inv: "drain_inv first closes st"
  shows "drain_inv first closes (st\<lparr>ds_callers := (ds_callers st)[i := (ds_callers st ! i)\<lparr>cl_expired := True\<rparr>]\<rparr>)" (is "drain_inv _ _ ?st")
proof -
  have at: "at_pc ?st j x \<longleftrightarrow> at_pc st j x" for j x
    by (cases "i < length (ds_callers st)") (auto simp: at_pc_def nth_list_update list_update_beyond)
  moreover have "pc_ok first closes ?st x \<longleftrightarrow> pc_ok first closes st x" for x by (cases x) (auto simp: settled_def)
  moreover have "globals_ok ?st \<longleftrightarrow> globals_ok st" by (simp add: globals_ok_def settled_def closes_ok_def)
  ultimately show ?thesis using inv by (simp add: drain_inv_def owners_ok_def)
qed

lemma globals_closes: "globals_ok st \<Longrightarrow> closes_ok st"
  by (simp add: globals_ok_def)

context drain_protocol
begin

lemma inv_owner:
  assumes inv: "drain_inv first closes st" and at: "at_pc st i Entering" and run: "pr_enter p st = (r, st')"
  shows "drain_inv first closes (goto_pc i (case r of Some subs \<Rightarrow> Draining subs [] | None \<Rightarrow> if pr_polls p then Polling else Later) st')"
proof (cases "ds_drained st")
  case None
  then have "r = Some (ds_subs st)" "st' = st\<lparr>ds_drained := Some False, ds_draining := ds_subs st, ds_subs := []\<rparr>"
    using run by (auto simp: enter)
  moreover have "l_closed (ds_life st)" "globals_ok st" using inv at by (auto simp: drain_inv_def at_pc_def)
  ultimately show ?thesis using None
    by (intro inv_move[OF inv at]) (auto simp: grows_def globals_ok_def closes_ok_def settled_def)
next
  case (Some d)
  then have "r = None" "st' = st" using run by (auto simp: enter)
  then show ?thesis using Some at_facts[OF inv at] by (intro inv_move[OF inv at]) (auto split: if_splits)
qed

lemma inv_force_first:
  assumes inv: "drain_inv first closes st" and at: "at_pc st i (Forcing own False)"
  shows "drain_inv first closes (goto_pc i (Forcing own True) (pr_force1 p st))"
proof -
  note facts = at_facts[OF inv at] life_forced(1)[of st] closed_when(1)[of st] core_fields[OF core_kept(1)[of st]]
  have "globals_ok (pr_force1 p st)"
    by (rule globals_core[OF facts(2) core_kept(1)]) (simp_all add: life_forced closed_when closes_once globals_closes[OF facts(2)] cancelled_ops Interrupt_def flags_grow_def split: if_splits)
  moreover have "grows st (pr_force1 p st)" using facts by (intro grows_core core_kept(1)) auto
  ultimately show ?thesis using facts by (intro inv_move[OF inv at]) (auto simp: Interrupt_def)
qed

lemma inv_force_second:
  assumes inv: "drain_inv first closes st" and at: "at_pc st i (Forcing own True)"
  shows "drain_inv first closes (goto_pc i (if own then DrainDone False else Flushing False) (pr_force2 p st))"
proof -
  note facts = at_facts[OF inv at] life_forced(2)[of st] closed_when(2)[of st] core_fields[OF core_kept(2)[of st]]
  have forced: "l_forced (ds_life (pr_force2 p st))" using facts by (auto simp: Interrupt_def)
  have "globals_ok (pr_force2 p st)"
    by (rule globals_core[OF facts(2) core_kept(2)]) (use forced in \<open>simp_all add: life_forced closes_once globals_closes[OF facts(2)] split: if_splits\<close>)
  moreover have "grows st (pr_force2 p st)" using facts by (intro grows_core core_kept(2)) auto
  ultimately show ?thesis using facts forced by (intro inv_move[OF inv at]) (auto split: if_splits)
qed

lemma inv_finish:
  assumes inv: "drain_inv first closes st" and at: "at_pc st i (Finishing ok)"
  shows "drain_inv first closes (goto_pc i (Flushing ok) (pr_finish p st))"
proof -
  note facts = at_facts[OF inv at] life_forced(3)[of st] closed_when(3)[of st] core_fields[OF core_kept(3)[of st]]
  have "globals_ok (pr_finish p st)"
    by (rule globals_core[OF facts(2) core_kept(3)]) (use facts(1) in \<open>auto simp: life_forced closed_when closes_once globals_closes[OF facts(2)] split: if_splits\<close>)
  moreover have "grows st (pr_finish p st)" using facts by (intro grows_core core_kept(3)) auto
  ultimately show ?thesis using facts by (intro inv_move[OF inv at]) (auto split: if_splits)
qed

lemma inv_flush:
  assumes inv: "drain_inv first closes st" and at: "at_pc st i (Flushing ok)"
  shows "drain_inv first closes (goto_pc i (Returned ok) (flush_default st))"
proof -
  note facts = at_facts[OF inv at] core_fields[OF flush_default_simps(2)[of st]]
  have "globals_ok (flush_default st)"
    by (rule globals_core[OF facts(2)]) (use facts in \<open>auto simp: globals_ok_def closes_ok_def\<close>)
  moreover have "grows st (flush_default st)" by (rule grows_core) auto
  ultimately show ?thesis using facts by (intro inv_move[OF inv at]) (auto split: if_splits)
qed

lemma inv_subscribed:
  assumes inv: "drain_inv first closes st" and run: "pr_register p (ds_made st) st = (r, st')"
  shows "drain_inv first closes (st'\<lparr>ds_made := Suc (ds_made st),
    ds_accepted := (if r = None then ds_made st # ds_accepted st else ds_accepted st)\<rparr>)"
proof -
  have g: "globals_ok st" using inv by (simp add: drain_inv_def)
  show ?thesis
  proof (cases "Closing (ds_life st)")
    case True
    then have "r = Some ErrBusClosed" "st' = st\<lparr>ds_stopped := ds_made st # ds_stopped st\<rparr>" using run by (auto simp: register)
    with g show ?thesis by (intro inv_env[OF inv]) (simp_all add: grows_def globals_ok_def closes_ok_def settled_def)
  next
    case False
    then have "r = None" "st' = st\<lparr>ds_subs := ds_subs st @ [ds_made st]\<rparr>" using run by (auto simp: register)
    moreover have "ds_drained st = None" "\<not> l_forced (ds_life st)" using g False by (auto simp: globals_ok_def Closing_def)
    ultimately show ?thesis using g by (intro inv_env[OF inv]) (auto simp: grows_def globals_ok_def closes_ok_def settled_def)
  qed
qed

lemma inv_step:
  assumes "shutdown_step p a st st'" and "drain_inv first closes st"
  shows "drain_inv first closes st'"
  using assms
proof (induction rule: shutdown_step.induct)
  case (owner st i subs st1)
  with inv_owner[of st i "Some subs" st1] show ?case by simp
next
  case (later st i st1)
  with inv_owner[of st i None st1] show ?case by simp
next
  case (drain_started st i s todo ws)
  with at_facts[OF this(2, 1)] show ?case by (intro inv_move[OF drain_started(2, 1)]) auto
next
  case (drain_refused st i s todo ws)
  with at_facts[OF this(3, 2)] show ?case
    by (intro inv_move[OF drain_refused(3, 2)]) (auto simp: grows_def globals_ok_def closes_ok_def settled_def)
next
  case (drain_called st i ws)
  with at_facts[OF this(2, 1)] show ?case by (intro inv_move[OF drain_called(2, 1)]) auto
next
  case (await_closed st i s ws)
  with at_facts[OF this(3, 1)] show ?case by (intro inv_move[OF await_closed(3, 1)]) auto
next
  case (await_forced st i s ws)
  with at_facts[OF this(3, 1)] show ?case by (intro inv_move[OF await_forced(3, 1)]) (auto simp: globals_ok_def)
next
  case (await_expired st i s ws)
  with at_facts[OF this(3, 1)] show ?case by (intro inv_move[OF await_expired(3, 1)]) auto
next
  case (await_none st i)
  with at_facts[OF this(2, 1)] show ?case by (intro inv_move[OF await_none(2, 1)]) (auto simp: settled_def)
next
  case (drain_end st i ok)
  with at_facts[OF this(2, 1)] show ?case
    by (intro inv_move[OF drain_end(2, 1)]) (auto simp: grows_def globals_ok_def closes_ok_def settled_def split: if_splits)
next
  case (poll st i)
  with at_facts[OF this(2, 1)] show ?case by (intro inv_move[OF poll(2, 1)]) (auto split: if_splits)
next
  case (later_drained st i)
  with at_facts[OF this(3, 1)] show ?case by (intro inv_move[OF later_drained(3, 1)]) auto
next
  case (later_expired st i)
  with at_facts[OF this(3, 1)] show ?case by (intro inv_move[OF later_expired(3, 1)]) auto
next
  case (wait_idle st i w l')
  with inv_pass[of first closes st i w None l'] show ?case by simp
next
  case (wait_blocks st i w ch' l')
  with inv_pass[of first closes st i w "Some ch'" l'] show ?case by simp
next
  case (wait_expired st i ch)
  with at_facts[OF this(3, 1)] globals_life(2)[of st "Interrupt (ds_life st)"] show ?case
    by (intro inv_move[OF wait_expired(3, 1)]) (auto simp: grows_def Interrupt_def flags_grow_def)
next
  case (ended s st)
  then have "globals_ok st" by (simp add: drain_inv_def)
  then show ?case by (intro inv_env[OF ended(2)]) (auto simp: grows_def globals_ok_def closes_ok_def settled_def)
next
  case (admitted nested st l')
  then have "globals_ok st" by (simp add: drain_inv_def)
  with admitted(1) globals_life(1)[of st l'] show ?case by (intro inv_env[OF admitted(2)]) (auto simp: grows_def cancelled_ops)
next
  case (tracked st l')
  then have "globals_ok st" by (simp add: drain_inv_def)
  with tracked(1) globals_life(1)[of st l'] show ?case by (intro inv_env[OF tracked(2)]) (auto simp: grows_def cancelled_ops)
next
  case (released st)
  then have "globals_ok st" by (simp add: drain_inv_def)
  with globals_life(1)[of st "release (ds_life st)"] show ?case by (intro inv_env[OF released(2)]) (auto simp: grows_def cancelled_ops)
next
  case (signalled st t every k level now v t')
  then have "globals_ok st" by (simp add: drain_inv_def)
  then show ?case by (intro inv_env[OF signalled(3)]) (auto simp: grows_def globals_ok_def closes_ok_def settled_def)
qed (erule (1) inv_force_first[rotated] inv_force_second[rotated] inv_finish[rotated] inv_flush[rotated] inv_subscribed[rotated]
    | rule inv_call inv_expires, assumption)+

lemma inv_reach: "shutdown_reach p st \<Longrightarrow> drain_inv first closes st"
  by (induction rule: shutdown_reach.induct) (auto intro: inv_init inv_step)

end

section \<open>The lifecycle underneath\<close>

text \<open>
  The run of the lifecycle a state stands for: the channels the callers block on, and whether
  some Wait returned nil. Every step of the protocol is a step of the lifecycle machine or leaves it alone.
\<close>

fun waits_on :: "pc \<Rightarrow> nat multiset" where
  "waits_on (Waiting (Some ch)) = {#ch#}"
| "waits_on _ = {#}"

fun drained_ok :: "pc \<Rightarrow> bool" where
  "drained_ok (Finishing ok) = ok" | "drained_ok (Flushing ok) = ok" | "drained_ok (Returned ok) = ok" | "drained_ok _ = False"

definition life_view :: "drain_state \<Rightarrow> life_run" where
  "life_view st = \<lparr>lr_l = ds_life st, lr_live = ds_live st, lr_waiting = (\<Sum>c\<leftarrow>ds_callers st. waits_on (cl_pc c)),
     lr_returned = (\<exists>c \<in> set (ds_callers st). drained_ok (cl_pc c))\<rparr>"

lemma sum_list_replace:
  fixes f :: "'a \<Rightarrow> 'b multiset"
  assumes "i < length xs"
  shows "(\<Sum>c\<leftarrow>xs[i := x]. f c) = (\<Sum>c\<leftarrow>xs. f c) - f (xs ! i) + f x"
proof -
  have "xs = take i xs @ xs ! i # drop (Suc i) xs" using assms by (rule id_take_nth_drop)
  then have "(\<Sum>c\<leftarrow>xs. f c) = (\<Sum>c\<leftarrow>take i xs. f c) + f (xs ! i) + (\<Sum>c\<leftarrow>drop (Suc i) xs. f c)"
    by (metis (no_types) add.assoc list.simps(9) map_append sum_list.Cons sum_list_append)
  moreover have "(\<Sum>c\<leftarrow>xs[i := x]. f c) = (\<Sum>c\<leftarrow>take i xs. f c) + f x + (\<Sum>c\<leftarrow>drop (Suc i) xs. f c)"
    using assms by (simp add: upd_conv_take_nth_drop add.assoc)
  ultimately show ?thesis by (simp add: add.commute add.left_commute)
qed

lemma life_view_goto:
  assumes "at_pc st i q" and "ds_callers st' = ds_callers st"
  shows "lr_l (life_view (goto_pc i r st')) = ds_life st'" "lr_live (life_view (goto_pc i r st')) = ds_live st'"
    "lr_waiting (life_view (goto_pc i r st')) = lr_waiting (life_view st) - waits_on q + waits_on r"
    "drained_ok q \<longrightarrow> drained_ok r \<Longrightarrow> lr_returned (life_view (goto_pc i r st')) \<longleftrightarrow> lr_returned (life_view st) \<or> drained_ok r"
proof -
  have i: "i < length (ds_callers st)" and q: "cl_pc (ds_callers st ! i) = q" using assms(1) by (auto simp: at_pc_def)
  show "lr_l (life_view (goto_pc i r st')) = ds_life st'" "lr_live (life_view (goto_pc i r st')) = ds_live st'"
    by (simp_all add: life_view_def)
  show "lr_waiting (life_view (goto_pc i r st')) = lr_waiting (life_view st) - waits_on q + waits_on r"
    using i q assms(2) sum_list_replace[OF i, of "waits_on \<circ> cl_pc"] by (simp add: life_view_def goto_pc_def)
  assume "drained_ok q \<longrightarrow> drained_ok r"
  with i q assms(2) show "lr_returned (life_view (goto_pc i r st')) \<longleftrightarrow> lr_returned (life_view st) \<or> drained_ok r"
    by (auto simp: life_view_def goto_pc_def set_conv_nth nth_list_update)
qed

lemma waits_member: "at_pc st i (Waiting (Some ch)) \<Longrightarrow> ch \<in># lr_waiting (life_view st)"
proof -
  assume "at_pc st i (Waiting (Some ch))"
  then have "ds_callers st = take i (ds_callers st) @ ds_callers st ! i # drop (Suc i) (ds_callers st)"
    "cl_pc (ds_callers st ! i) = Waiting (Some ch)" by (auto simp: at_pc_def id_take_nth_drop)
  then have "(\<Sum>c\<leftarrow>ds_callers st. waits_on (cl_pc c)) =
      (\<Sum>c\<leftarrow>take i (ds_callers st). waits_on (cl_pc c)) + ({#ch#} + (\<Sum>c\<leftarrow>drop (Suc i) (ds_callers st). waits_on (cl_pc c)))"
    by (metis (no_types, lifting) list.simps(9) map_append sum_list.Cons sum_list_append waits_on.simps(1))
  then show ?thesis by (simp add: life_view_def)
qed

text \<open>A step that moves one caller between program counters outside Wait.\<close>

lemma sim_move:
  assumes "at_pc st i q" and "ds_callers st' = ds_callers st" and "ds_live st' = ds_live st"
    and "waits_on q = {#}" and "waits_on r = {#}" and "drained_ok r = drained_ok q"
    and "ds_life st' = ds_life st \<or> ds_life st' = Interrupt (ds_life st)"
  shows "life_step\<^sup>*\<^sup>* (life_view st) (life_view (goto_pc i r st'))"
proof -
  note g = life_view_goto[OF assms(1, 2), of r]
  have ret: "drained_ok q \<Longrightarrow> lr_returned (life_view st)" using assms(1) by (auto simp: life_view_def at_pc_def)
  have same: "life_view (goto_pc i r st') = (life_view st)\<lparr>lr_l := ds_life st'\<rparr>"
    using g assms(3-6) ret by (intro life_run.equality) (auto simp: life_view_def)
  from assms(7) show ?thesis
  proof
    assume "ds_life st' = ds_life st"
    then have "life_view (goto_pc i r st') = life_view st" using same by (simp add: life_view_def)
    then show ?thesis by simp
  next
    assume "ds_life st' = Interrupt (ds_life st)"
    then have "life_view (goto_pc i r st') = (life_view st)\<lparr>lr_l := Interrupt (lr_l (life_view st))\<rparr>" using same by (simp add: life_view_def)
    then show ?thesis using life_step.interrupt by (metis r_into_rtranclp)
  qed
qed

lemma sim_pass:
  assumes inv: "drain_inv first closes st" and at: "at_pc st i (Waiting w)" and woken: "\<And>ch. w = Some ch \<Longrightarrow> woken (ds_life st) ch"
    and pass: "Wait_pass (ds_life st) = (r, l')"
  shows "life_step (life_view st) (life_view (goto_pc i (case r of None \<Rightarrow> Finishing True | Some ch \<Rightarrow> Waiting (Some ch)) (st\<lparr>ds_life := l'\<rparr>)))"
    (is "life_step _ ?s")
proof -
  have g: "?s = pass_result (life_view st) (lr_waiting (life_view st) - waits_on (Waiting w))"
    using life_view_goto[OF at, of "st\<lparr>ds_life := l'\<rparr>"] pass
    by (intro life_run.equality) (auto simp: pass_result_def life_view_def split: option.splits)
  have "l_closed (lr_l (life_view st))" using inv at by (auto simp: drain_inv_def at_pc_def life_view_def)
  with g show ?thesis
  proof (cases w)
    case None
    with g \<open>l_closed (lr_l (life_view st))\<close> show ?thesis by (simp add: life_step.wait_enter)
  next
    case (Some ch)
    then have "woken (lr_l (life_view st)) ch" using woken by (simp add: life_view_def)
    with g Some at show ?thesis by (simp add: life_step.wait_wake waits_member)
  qed
qed

lemma sim_expired:
  assumes at: "at_pc st i (Waiting (Some ch))"
  shows "life_step (life_view st) (life_view (goto_pc i (Finishing False) (st\<lparr>ds_life := Interrupt (ds_life st)\<rparr>)))" (is "life_step _ ?s")
proof -
  have "?s = (life_view st)\<lparr>lr_l := Interrupt (lr_l (life_view st)), lr_waiting := lr_waiting (life_view st) - {#ch#}\<rparr>"
    using life_view_goto[OF at, of "st\<lparr>ds_life := Interrupt (ds_life st)\<rparr>" "Finishing False"]
    by (intro life_run.equality) (auto simp: life_view_def)
  with life_step.wait_expired[OF waits_member[OF at]] show ?thesis by simp
qed

context drain_protocol
begin

lemma sim_step:
  assumes "shutdown_step p a st st'" and "drain_inv first closes st"
  shows "life_step\<^sup>*\<^sup>* (life_view st) (life_view st')"
  using assms
proof (induction rule: shutdown_step.induct)
  case (owner st i subs st1)
  then show ?case by (intro sim_move[OF owner(1)]) (auto simp: enter split: option.splits)
next
  case (later st i st1)
  then show ?case by (intro sim_move[OF later(1)]) (auto simp: enter split: option.splits)
next
  case (force_first st i own)
  with core_fields[OF core_kept(1)[of st]] show ?case by (intro sim_move[OF force_first(1)]) (simp_all add: life_forced)
next
  case (force_second st i own)
  with core_fields[OF core_kept(2)[of st]] show ?case by (intro sim_move[OF force_second(1)]) (simp_all add: life_forced)
next
  case (finish st i ok)
  with core_fields[OF core_kept(3)[of st]] show ?case by (intro sim_move[OF finish(1)]) (simp_all add: life_forced)
next
  case (flush st i ok)
  with core_fields[OF flush_default_simps(2)[of st]] show ?case by (intro sim_move[OF flush(1)]) simp_all
next
  case (wait_idle st i w l')
  from sim_pass[OF wait_idle(4, 1) wait_idle(2, 3)] show ?case by (simp add: r_into_rtranclp)
next
  case (wait_blocks st i w ch' l')
  from sim_pass[OF wait_blocks(4, 1) wait_blocks(2, 3)] show ?case by (simp add: r_into_rtranclp)
next
  case (wait_expired st i ch)
  from sim_expired[OF wait_expired(1)] show ?case by (rule r_into_rtranclp)
next
  case (call st)
  have "life_view (st\<lparr>ds_life := BeginShutdown (ds_life st), ds_callers := ds_callers st @ [\<lparr>cl_pc = Entering, cl_expired = False\<rparr>]\<rparr>)
      = (life_view st)\<lparr>lr_l := BeginShutdown (lr_l (life_view st))\<rparr>" by (simp add: life_view_def)
  with life_step.begin_shutdown show ?case by (metis r_into_rtranclp)
next
  case (expires i st)
  let ?st = "st\<lparr>ds_callers := (ds_callers st)[i := (ds_callers st ! i)\<lparr>cl_expired := True\<rparr>]\<rparr>"
  have pcs: "map cl_pc (ds_callers ?st) = map cl_pc (ds_callers st)"
    using expires(1) by (simp add: map_update list_update_same_conv)
  have w: "lr_waiting (life_view x) = sum_list (map waits_on (map cl_pc (ds_callers x)))"
    "lr_returned (life_view x) \<longleftrightarrow> (\<exists>q \<in> set (map cl_pc (ds_callers x)). drained_ok q)" for x
    by (simp_all add: life_view_def comp_def)
  have "life_view ?st = life_view st"
    by (rule life_run.equality) (simp_all only: w pcs, simp_all add: life_view_def)
  then show ?case by simp
next
  case (subscribed st r st1)
  then have "life_view (st1\<lparr>ds_made := Suc (ds_made st), ds_accepted := (if r = None then ds_made st # ds_accepted st else ds_accepted st)\<rparr>) = life_view st"
    by (auto simp: register life_view_def split: if_splits)
  then show ?case by simp
next
  case (admitted nested st l')
  have "life_step (life_view st) ((life_view st)\<lparr>lr_l := l', lr_live := Suc (lr_live (life_view st))\<rparr>)"
    using admitted(1) by (intro life_step.admit) (simp add: life_view_def)
  then show ?case by (simp add: life_view_def r_into_rtranclp)
next
  case (tracked st l')
  have "life_step (life_view st) ((life_view st)\<lparr>lr_l := l', lr_live := Suc (lr_live (life_view st))\<rparr>)"
    using tracked(1) by (intro life_step.track) (simp add: life_view_def)
  then show ?case by (simp add: life_view_def r_into_rtranclp)
next
  case (released st)
  have "life_step (life_view st) ((life_view st)\<lparr>lr_l := release (lr_l (life_view st)), lr_live := lr_live (life_view st) - 1\<rparr>)"
    using released(1) by (intro life_step.released) (simp add: life_view_def)
  then show ?case by (simp add: life_view_def r_into_rtranclp)
next
  case (ended s st)
  then show ?case by (simp add: life_view_def)
next
  case (signalled st t every k level now v t')
  then show ?case by (simp add: life_view_def)
qed ((erule sim_move); simp)+

lemma sim_reach: "shutdown_reach p st \<Longrightarrow> life_reach (life_view st)"
proof (induction rule: shutdown_reach.induct)
  case (init lg)
  have "life_view (drain_init lg) = life_init" by (simp add: life_view_def drain_init_def life_init_def)
  then show ?case by (simp add: life_reach.init)
next
  case (step st a st')
  have "life_step\<^sup>*\<^sup>* (life_view st) (life_view st')" by (rule sim_step[OF step(2) inv_reach[OF step(1)]])
  then show ?case using step(3) by (induction rule: rtranclp_induct) (auto intro: life_reach.step)
qed

lemma refused_reach: "shutdown_reach p st \<Longrightarrow> \<not> pr_fallible p \<Longrightarrow> ds_refused st = []"
proof (induction rule: shutdown_reach.induct)
  case (init lg)
  then show ?case by (simp add: drain_init_def)
next
  case (step st a st')
  from step(2, 3) step(4) show ?case
    by (cases rule: shutdown_step.cases)
      (auto simp: enter register core_fields[OF core_kept(1)] core_fields[OF core_kept(2)] core_fields[OF core_kept(3)]
        core_fields[OF flush_default_simps(2)] split: option.splits if_splits)
qed

text \<open>Once a Wait returned nil, nothing is in flight and nothing ever will be.\<close>

lemma quiet:
  assumes "shutdown_reach p st" and "l_done (ds_life st)" and "(\<lambda>x y. \<exists>a. shutdown_step p a x y)\<^sup>*\<^sup>* st st'"
  shows "ds_live st' = 0"
proof -
  have "life_inv (life_view st)" using sim_reach[OF assms(1)] by (rule life_inv_reach)
  then have zero: "lr_live (life_view st) = 0" using assms(2) by (simp add: life_inv_defs life_view_def)
  have "shutdown_reach p st' \<and> life_step\<^sup>*\<^sup>* (life_view st) (life_view st')"
    using assms(3)
  proof (induction rule: rtranclp_induct)
    case base
    show ?case using assms(1) by simp
  next
    case (step y z)
    then obtain a where a: "shutdown_step p a y z" by blast
    with step(3) have "life_step\<^sup>*\<^sup>* (life_view y) (life_view z)" using sim_step inv_reach by blast
    with step(3) a show ?case by (auto intro: shutdown_reach.step)
  qed
  with closed_for_good[of "life_view st" "life_view st'"] assms(2) zero show ?thesis by (simp add: life_view_def)
qed

end

section \<open>Progress\<close>

text \<open>The steps a caller has left, once it owns the drain or waits for it.\<close>

fun remaining :: "pc \<Rightarrow> nat" where
  "remaining (Returned _) = 0" | "remaining (Flushing _) = 1" | "remaining (Finishing _) = 2"
| "remaining (Waiting (Some _)) = 3" | "remaining (Waiting None) = 4" | "remaining (DrainDone _) = 5"
| "remaining (Forcing _ True) = 6" | "remaining (Forcing _ False) = 7" | "remaining Later = 8" | "remaining Polling = 9"
| "remaining (Awaiting ws) = 10 + length ws" | "remaining (Draining todo ws) = 11 + 2 * length todo + length ws"
| "remaining Entering = 0"

text \<open>
  Nothing is left to wait for: the context of the caller expired, or the owner drained (or can
  drain) everything and no unit is in flight.
\<close>

definition ready :: "nat \<Rightarrow> drain_state \<Rightarrow> bool" where
  "ready i st \<longleftrightarrow> cl_expired (ds_callers st ! i)
     \<or> set (ds_draining st) \<union> set (ds_subs st) \<subseteq> set (ds_ended st) \<and> ds_live st = 0
       \<and> (at_pc st i Polling \<or> at_pc st i Later \<longrightarrow> ds_drained st = Some True)"

lemma callers_goto: "i < length (ds_callers st) \<Longrightarrow> cl_expired (ds_callers (goto_pc i q st) ! i) = cl_expired (ds_callers st ! i)"
  by (simp add: goto_pc_def)

lemma ready_goto:
  assumes "ready i st" and "at_pc st i q" and "ds_callers st' = ds_callers st" and "ds_live st' = ds_live st"
    and "set (ds_draining st') \<union> set (ds_subs st') \<subseteq> set (ds_draining st) \<union> set (ds_subs st)" and "ds_ended st' = ds_ended st"
    and "r = Polling \<or> r = Later \<longrightarrow> q = Polling \<and> ds_drained st' = ds_drained st"
  shows "ready i (goto_pc i r st')"
proof -
  have i: "i < length (ds_callers st')" using assms(2, 3) by auto
  show ?thesis using assms at_pc_goto[OF i, of r] by (auto simp: ready_def callers_goto[OF i])
qed

fun gave_up :: "pc \<Rightarrow> bool" where
  "gave_up (Forcing _ _) = True" | "gave_up (DrainDone ok) = (\<not> ok)" | "gave_up (Finishing ok) = (\<not> ok)"
| "gave_up (Flushing ok) = (\<not> ok)" | "gave_up (Returned ok) = (\<not> ok)" | "gave_up _ = False"

text \<open>A caller that is not in Wait, and one that is, has a step of its own that brings it closer.\<close>

definition closer :: "proto \<Rightarrow> nat \<Rightarrow> pc \<Rightarrow> drain_state \<Rightarrow> bool" where
  "closer p i q st \<longleftrightarrow> (\<exists>st' r. shutdown_step p (Some i) st st' \<and> at_pc st' i r \<and> r \<noteq> Entering \<and> remaining r < remaining q \<and> ready i st')"

lemma closerI:
  assumes "shutdown_step p (Some i) st (goto_pc i r st')" and "at_pc st i q" and "ready i st" and "ds_callers st' = ds_callers st"
    and "ds_live st' = ds_live st" and "set (ds_draining st') \<union> set (ds_subs st') \<subseteq> set (ds_draining st) \<union> set (ds_subs st)"
    and "ds_ended st' = ds_ended st" and "r = Polling \<or> r = Later \<longrightarrow> q = Polling \<and> ds_drained st' = ds_drained st"
    and "r \<noteq> Entering" and "remaining r < remaining q"
  shows "closer p i q st"
proof -
  have i: "i < length (ds_callers st')" using assms(2, 4) by auto
  have "at_pc (goto_pc i r st') i r" by (simp add: at_pc_goto[OF i])
  with assms(1, 9, 10) ready_goto[OF assms(3, 2, 4-8)] show ?thesis unfolding closer_def by blast
qed

lemma closer_wait:
  assumes at: "at_pc st i (Waiting w)" and ready: "ready i st" and inv: "life_inv (life_view st)"
  shows "closer p i (Waiting w) st"
proof (cases w)
  case None
  obtain r l' where pass: "Wait_pass (ds_life st) = (r, l')" by force
  from at None have "closer p i (Waiting None) st"
  proof (cases r)
    case None
    with pass at \<open>w = None\<close> show ?thesis
      by (intro closerI[OF shutdown_step.wait_idle at[unfolded \<open>w = None\<close>] ready]) auto
  next
    case (Some ch)
    with pass at \<open>w = None\<close> show ?thesis
      by (intro closerI[OF shutdown_step.wait_blocks at[unfolded \<open>w = None\<close>] ready]) auto
  qed
  with None show ?thesis by simp
next
  case (Some ch)
  note at = at[unfolded Some]
  show ?thesis
  proof (cases "cl_expired (ds_callers st ! i)")
    case True
    with at ready show ?thesis unfolding Some by (intro closerI[OF shutdown_step.wait_expired[OF at True] at]) auto
  next
    case False
    with ready have "lr_live (life_view st) = 0" by (simp add: ready_def life_view_def)
    from drained_wakes[OF inv this waits_member[OF at]]
    have "woken (ds_life st) ch" "fst (Wait_pass (ds_life st)) = None" by (simp_all add: life_view_def)
    moreover obtain r l' where "Wait_pass (ds_life st) = (r, l')" by force
    ultimately show ?thesis using ready unfolding Some
      by (intro closerI[OF shutdown_step.wait_idle[OF at] at]) auto
  qed
qed

context drain_protocol
begin

lemma closer_step:
  assumes inv: "drain_inv first closes st" and linv: "life_inv (life_view st)" and at: "at_pc st i q" and ready: "ready i st"
    and q: "q \<noteq> Entering" "\<And>ok. q \<noteq> Returned ok"
  shows "closer p i q st"
proof (cases q)
  case (Draining todo ws)
  note at = at[unfolded Draining]
  show ?thesis
  proof (cases todo)
    case Nil
    show ?thesis unfolding Draining Nil using ready at[unfolded Nil]
      by (intro closerI[OF shutdown_step.drain_called]) auto
  next
    case (Cons s todo')
    show ?thesis unfolding Draining Cons using ready at[unfolded Cons]
      by (intro closerI[OF shutdown_step.drain_started]) auto
  qed
next
  case (Awaiting ws)
  note at = at[unfolded Awaiting]
  show ?thesis
  proof (cases ws)
    case Nil
    show ?thesis unfolding Awaiting Nil using ready at[unfolded Nil] by (intro closerI[OF shutdown_step.await_none]) auto
  next
    case (Cons s ws')
    note at = at[unfolded Cons]
    have "s \<in> set (ds_draining st)" using at_facts(1)[OF inv at] by simp
    then consider "s \<in> set (ds_ended st)" | "cl_expired (ds_callers st ! i)" using ready by (auto simp: ready_def)
    then show ?thesis
    proof cases
      case 1
      then show ?thesis unfolding Awaiting Cons using ready at by (intro closerI[OF shutdown_step.await_closed]) auto
    next
      case 2
      then show ?thesis unfolding Awaiting Cons using ready at by (intro closerI[OF shutdown_step.await_expired]) auto
    qed
  qed
next
  case (Forcing own second)
  note at = at[unfolded Forcing]
  show ?thesis
  proof (cases second)
    case False
    show ?thesis unfolding Forcing using ready at False core_fields[OF core_kept(1)[of st]]
      by (intro closerI[OF shutdown_step.force_first]) simp_all
  next
    case True
    show ?thesis unfolding Forcing using ready at True core_fields[OF core_kept(2)[of st]]
      by (intro closerI[OF shutdown_step.force_second]) simp_all
  qed
next
  case (DrainDone ok)
  then show ?thesis using ready at by (intro closerI[OF shutdown_step.drain_end]) auto
next
  case Polling
  then show ?thesis using ready at by (intro closerI[OF shutdown_step.poll]) (auto split: if_splits)
next
  case Later
  then consider "ds_drained st = Some True" | "cl_expired (ds_callers st ! i)" using ready at by (auto simp: ready_def)
  then show ?thesis
  proof cases
    case 1
    then show ?thesis using Later ready at by (intro closerI[OF shutdown_step.later_drained]) auto
  next
    case 2
    then show ?thesis using Later ready at by (intro closerI[OF shutdown_step.later_expired]) auto
  qed
next
  case (Waiting w)
  then show ?thesis using closer_wait[of st i w p] at ready linv by simp
next
  case (Finishing ok)
  then show ?thesis using ready at core_fields[OF core_kept(3)[of st]] by (intro closerI[OF shutdown_step.finish]) simp_all
next
  case (Flushing ok)
  then show ?thesis using ready at core_fields[OF flush_default_simps(2)[of st]]
    by (intro closerI[OF shutdown_step.flush]) simp_all
qed (use q in auto)

lemma returns_from:
  assumes "shutdown_reach p st" and "at_pc st i q" and "q \<noteq> Entering" and "ready i st"
  shows "\<exists>st' ok. (shutdown_step p (Some i))\<^sup>*\<^sup>* st st' \<and> at_pc st' i (Returned ok)"
  using assms
proof (induction q arbitrary: st rule: measure_induct_rule[of remaining])
  case (less q)
  show ?case
  proof (cases "\<exists>ok. q = Returned ok")
    case True
    with less(3) show ?thesis by blast
  next
    case False
    have "life_inv (life_view st)" using sim_reach[OF less(2)] by (rule life_inv_reach)
    from closer_step[OF inv_reach[OF less(2)] this less(3) less(5) less(4)] False
    obtain st' r where r: "shutdown_step p (Some i) st st'" "at_pc st' i r" "r \<noteq> Entering" "remaining r < remaining q" "ready i st'"
      unfolding closer_def by blast
    from less(1)[OF r(4) shutdown_reach.step[OF less(2) r(1)] r(2, 3, 5)] r(1) show ?thesis
      by (meson converse_rtranclp_into_rtranclp)
  qed
qed

text \<open>A caller whose context has not expired and that did not give up does not give up on its own.\<close>

lemma patient_step:
  assumes "shutdown_step p (Some i) st st'" and "at_pc st i q" and "\<not> gave_up q" and "\<not> cl_expired (ds_callers st ! i)"
  shows "\<exists>r. at_pc st' i r \<and> \<not> gave_up r \<and> \<not> cl_expired (ds_callers st' ! i)"
proof -
  from assms(1) show ?thesis using assms(2-)
    by (cases rule: shutdown_step.cases)
      (auto simp: at_pc_def goto_pc_def enter core_fields[OF core_kept(3)] core_fields[OF flush_default_simps(2)] split: option.splits)
qed

lemma patient_steps:
  assumes "(shutdown_step p (Some i))\<^sup>*\<^sup>* st st'" and "at_pc st i q" and "\<not> gave_up q" and "\<not> cl_expired (ds_callers st ! i)"
    and "at_pc st' i (Returned ok)"
  shows ok
proof -
  from assms(1) have "\<exists>r. at_pc st' i r \<and> \<not> gave_up r \<and> \<not> cl_expired (ds_callers st' ! i)"
    by (induction rule: rtranclp_induct) (use assms(2-4) patient_step in blast)+
  with assms(5) show ?thesis by (auto simp: at_pc_def)
qed

lemma returns:
  assumes reach: "shutdown_reach p st" and at: "at_pc st i q"
    and end': "cl_expired (ds_callers st ! i) \<or> set (ds_accepted st) \<subseteq> set (ds_ended st) \<and> ds_live st = 0
      \<and> (ds_drained st = Some False \<longrightarrow> owner_pc q)"
  shows "\<exists>st' ok. (shutdown_step p (Some i))\<^sup>*\<^sup>* st st' \<and> at_pc st' i (Returned ok)"
proof -
  note facts = at_facts[OF inv_reach[OF reach] at]
  have acc: "set (ds_accepted st) = set (ds_draining st) \<union> set (ds_subs st)" using facts(2) by (auto simp: globals_ok_def)
  show ?thesis
  proof (cases "q = Entering")
    case False
    have "ready i st" using end' facts(1) at acc by (auto simp: ready_def at_pc_def)
    from returns_from[OF reach at False this] show ?thesis .
  next
    case True
    obtain r st' where run: "pr_enter p st = (r, st')" by force
    let ?q = "case r of Some subs \<Rightarrow> Draining subs [] | None \<Rightarrow> if pr_polls p then Polling else Later"
    have step: "shutdown_step p (Some i) st (goto_pc i ?q st')"
      using shutdown_step.owner[of st i p] shutdown_step.later[of st i p] at True run by (cases r) auto
    have same: "ds_callers st' = ds_callers st" "i < length (ds_callers st')" using run at by (auto simp: enter split: option.splits)
    then have q: "at_pc (goto_pc i ?q st') i ?q" by (simp add: at_pc_goto)
    have "ready i (goto_pc i ?q st')"
      using end' acc run same True unfolding ready_def callers_goto[OF same(2)] at_pc_goto[OF same(2)]
      by (auto simp: enter split: option.splits if_splits)
    from returns_from[OF shutdown_reach.step[OF reach step] q _ this] step show ?thesis
      by (auto split: option.splits if_splits intro: converse_rtranclp_into_rtranclp)
  qed
qed

end

section \<open>Properties\<close>

text \<open>One subscription that already ended, and one caller that just began.\<close>

definition shutdown_start :: drain_state where
  "shutdown_start = (drain_init None)\<lparr>ds_life := zero_lifecycle\<lparr>l_closed := True\<rparr>, ds_subs := [0], ds_made := 1, ds_accepted := [0],
     ds_ended := [0], ds_callers := [\<lparr>cl_pc = Entering, cl_expired = False\<rparr>]\<rparr>"

lemma start_at: "at_pc shutdown_start 0 Entering" "\<not> cl_expired (ds_callers shutdown_start ! 0)"
  by (simp_all add: shutdown_start_def at_pc_def)

context drain_protocol
begin

lemma start_reach: "shutdown_reach p shutdown_start"
proof -
  let ?one = "(drain_init None)\<lparr>ds_subs := [0], ds_made := 1, ds_accepted := [0]\<rparr>"
  have "shutdown_step p None (drain_init None) ?one"
    using shutdown_step.subscribed[of p "drain_init None" None "(drain_init None)\<lparr>ds_subs := [0]\<rparr>"] register
    by (simp add: drain_init_def Closing_def zero_lifecycle_def)
  moreover have "shutdown_step p None ?one (?one\<lparr>ds_ended := [0]\<rparr>)"
    using shutdown_step.ended[of 0 ?one p] by (simp add: drain_init_def)
  moreover have "shutdown_step p None (?one\<lparr>ds_ended := [0]\<rparr>) shutdown_start"
    using shutdown_step.call[of p "?one\<lparr>ds_ended := [0]\<rparr>"]
    by (simp add: shutdown_start_def drain_init_def BeginShutdown_def zero_lifecycle_def)
  ultimately show ?thesis by (meson shutdown_reach.intros)
qed

lemma start_returns: "\<exists>st. shutdown_reach p st \<and> at_pc st 0 (Returned True)"
proof -
  have "\<exists>st ok. (shutdown_step p (Some 0))\<^sup>*\<^sup>* shutdown_start st \<and> at_pc st 0 (Returned ok)"
    by (rule returns[OF start_reach start_at(1)]) (simp add: shutdown_start_def drain_init_def)
  then obtain st ok where st: "(shutdown_step p (Some 0))\<^sup>*\<^sup>* shutdown_start st" "at_pc st 0 (Returned ok)" by blast
  have ok using patient_steps[OF st(1) start_at(1) _ start_at(2) st(2)] by simp
  moreover have "shutdown_reach p st"
    using st(1) by (induction rule: rtranclp_induct) (auto intro: start_reach shutdown_reach.step)
  ultimately show ?thesis using st(2) by auto
qed

end

text \<open>
  C7. Shutdown drains before it reports success. On the NATS and on the JetStream bus, in every
  interleaving of Shutdown callers, subscriptions, deliveries and expiring contexts, a caller
  that returned nil leaves nothing in flight, now and after any further steps; and unless
  another caller's deadline interrupted the bus, every subscription whose Subscribe returned nil
  reported closed, or (NATS only) refused to drain and was reported. No subscription escapes
  the drain by racing with Shutdown.
\<close>

theorem shutdown_nil_drained:
  assumes "p = nats_proto \<or> p = js_proto" and "shutdown_reach p st" and "at_pc st i (Returned True)"
  shows "(l_forced (ds_life st) \<or> (\<forall>s \<in> set (ds_accepted st). s \<in> set (ds_ended st) \<or> s \<in> set (ds_refused st)))
    \<and> (p = js_proto \<longrightarrow> ds_refused st = []) \<and> ds_live st = 0
    \<and> (\<forall>st'. (\<lambda>x y. \<exists>a. shutdown_step p a x y)\<^sup>*\<^sup>* st st' \<longrightarrow> ds_live st' = 0)"
proof -
  obtain first closes where inv: "drain_inv first closes st"
    using assms(1, 2) nats.inv_reach js.inv_reach by blast
  note facts = at_facts[OF inv assms(3)]
  have "l_forced (ds_life st) \<or> settled st" "set (ds_accepted st) = set (ds_draining st)"
    using facts(1, 2) by (auto simp: globals_ok_def)
  moreover have "l_done (ds_life st)" using facts(1) by simp
  then have "ds_live st' = 0" if "(\<lambda>x y. \<exists>a. shutdown_step p a x y)\<^sup>*\<^sup>* st st'" for st'
    using assms(1, 2) nats.quiet[of st st'] js.quiet[of st st'] that by auto
  moreover have "p = js_proto \<longrightarrow> ds_refused st = []" using js.refused_reach[of st] assms(2) by (auto simp: js_proto_def)
  ultimately show ?thesis by (auto simp: settled_def)
qed

theorem shutdown_nil_drained_witness:
  "\<exists>st. shutdown_reach js_proto st \<and> at_pc st 0 (Returned True) \<and> ds_live st = 0 \<and> ds_refused st = []"
proof -
  obtain st where "shutdown_reach js_proto st" "at_pc st 0 (Returned True)" using js.start_returns by blast
  with shutdown_nil_drained[OF _ this] show ?thesis by auto
qed

text \<open>
  C8. The connection is closed last and once. On the NATS bus the connection is closed at most
  once; it is open as long as an accepted subscription is still draining or a unit is in flight,
  unless an expired deadline forced the end; and every Shutdown that returned, with nil or with
  an error, left it closed.
\<close>

theorem connection_closed_last:
  assumes "shutdown_reach nats_proto st"
  shows "ds_closes st \<le> 1 \<and> (at_pc st i (Returned ok) \<longrightarrow> ds_closes st = 1)
    \<and> (ds_closes st = 1 \<longrightarrow> l_forced (ds_life st)
        \<or> ds_live st = 0 \<and> (\<forall>s \<in> set (ds_accepted st). s \<in> set (ds_ended st) \<or> s \<in> set (ds_refused st)))"
proof (intro conjI impI)
  note inv = nats.inv_reach[OF assms]
  then have g: "globals_ok st" by (simp add: drain_inv_def)
  then show "ds_closes st \<le> 1" by (simp add: globals_ok_def closes_ok_def)
  show "ds_closes st = 1" if "at_pc st i (Returned ok)"
    using at_facts(1)[OF inv that] g by (auto simp: globals_ok_def closes_ok_def)
  assume "ds_closes st = 1"
  then have "l_forced (ds_life st) \<or> ds_drained st = Some True \<and> l_done (ds_life st)"
    using g by (auto simp: globals_ok_def closes_ok_def split: if_splits)
  moreover have "ds_live st = 0" if "l_done (ds_life st)" using nats.quiet[OF assms that] by blast
  ultimately show "l_forced (ds_life st) \<or> ds_live st = 0 \<and> (\<forall>s \<in> set (ds_accepted st). s \<in> set (ds_ended st) \<or> s \<in> set (ds_refused st))"
    using g by (auto simp: globals_ok_def settled_def)
qed

theorem connection_closed_last_witness:
  "\<exists>st. shutdown_reach nats_proto st \<and> at_pc st 0 (Returned True) \<and> ds_closes st = 1"
proof -
  obtain st where "shutdown_reach nats_proto st" "at_pc st 0 (Returned True)" using nats.start_returns by blast
  with connection_closed_last[OF this(1), of 0 True] show ?thesis by auto
qed

text \<open>
  C9. Shutdown always returns. A caller of Shutdown whose context expired returns by its own
  steps alone, wherever it is; and so does a caller whose context did not expire once every
  accepted subscription ended, no unit is in flight and no other caller is in the drain: unless
  it had given up before, its result is nil.
\<close>

theorem shutdown_returns:
  assumes "p = nats_proto \<or> p = js_proto" and "shutdown_reach p st" and "at_pc st i q"
    and "cl_expired (ds_callers st ! i) \<or> set (ds_accepted st) \<subseteq> set (ds_ended st) \<and> ds_live st = 0
      \<and> (ds_drained st = Some False \<longrightarrow> owner_pc q)"
  shows "\<exists>st' ok. (shutdown_step p (Some i))\<^sup>*\<^sup>* st st' \<and> at_pc st' i (Returned ok)
    \<and> (\<not> cl_expired (ds_callers st ! i) \<and> \<not> gave_up q \<longrightarrow> ok)"
  using assms(1)
proof
  assume p: "p = nats_proto"
  with nats.returns[OF _ assms(3, 4)] assms(2) nats.patient_steps[OF _ assms(3)] show ?thesis by blast
next
  assume p: "p = js_proto"
  with js.returns[OF _ assms(3, 4)] assms(2) js.patient_steps[OF _ assms(3)] show ?thesis by blast
qed

theorem shutdown_returns_witness:
  "\<exists>st'. (shutdown_step nats_proto (Some 0))\<^sup>*\<^sup>* shutdown_start st' \<and> at_pc st' 0 (Returned True)"
  using shutdown_returns[OF _ nats.start_reach start_at(1)] start_at(2)
  by (fastforce simp: shutdown_start_def drain_init_def)

end
