(* ===== verification/Subscriptions.thy ===== *)
theory Subscriptions
  imports Shutdown_Drain Jetstream_Publish
begin

text \<open>
  Subscribing on each transport: Subscribe of the JetStream bus and of the NATS bus down to the
  registration Shutdown drains (jetstream/bus.go, nats/bus.go), the error handler of a consumer,
  and RegisterSubscribers of the three buses (local-bus.go too). While a broker call runs, the
  rest of the bus goes on: a call of the client is a function on the state of the bus.
\<close>

section \<open>Subscribers\<close>

text \<open>
  A subscriber: its name, the options of a SubscribeOptionsProvider, and its events in the order
  the iteration over the map takes.
\<close>

record 'h subscriber =
  sb_Name :: string
  sb_SubscribeOptions :: "subscribe_option list option"
  sb_Events :: "(string \<times> 'h) list"

definition subscriber_calls :: "'h subscriber \<Rightarrow> (string \<times> 'h \<times> subscribe_option list) list" where
  "subscriber_calls s =
     (let opts = WithHandlerName (sb_Name s) # (case sb_SubscribeOptions s of None \<Rightarrow> [] | Some os \<Rightarrow> os)
      in map (\<lambda>(evtName, handler). (evtName, handler, opts)) (sb_Events s))"

text \<open>The two loops of RegisterSubscribers, which stop at the first error.\<close>

fun register_all :: "(string \<Rightarrow> 'h \<Rightarrow> subscribe_option list \<Rightarrow> 's \<Rightarrow> error option \<times> 's) \<Rightarrow> (string \<times> 'h \<times> subscribe_option list) list \<Rightarrow>
    's \<Rightarrow> error option \<times> 's" where
  "register_all Subscribe [] st = (None, st)"
| "register_all Subscribe ((evtName, handler, opts) # rest) st =
     (case Subscribe evtName handler opts st of
        (Some err, st1) \<Rightarrow> (Some err, st1)
      | (None, st1) \<Rightarrow> register_all Subscribe rest st1)"

definition RegisterSubscribers :: "(string \<Rightarrow> 'h \<Rightarrow> subscribe_option list \<Rightarrow> 's \<Rightarrow> error option \<times> 's) \<Rightarrow> 'h subscriber list \<Rightarrow>
    's \<Rightarrow> error option \<times> 's" where
  "RegisterSubscribers Subscribe subs = register_all Subscribe (concat (map subscriber_calls subs))"

definition LocalBus_RegisterSubscribers :: "'u local_bus \<Rightarrow> (ctx \<Rightarrow> event \<Rightarrow> ('u, error option) comp) subscriber list \<Rightarrow>
    'u world \<Rightarrow> error option \<times> 'u world" where
  "LocalBus_RegisterSubscribers B = RegisterSubscribers (LocalBus_Subscribe B)"

section \<open>Subscribe\<close>

text \<open>The registration in the list Shutdown drains, as the machine of Shutdown takes it.\<close>

definition registered :: "(nat \<Rightarrow> drain_state \<Rightarrow> sentinel option \<times> drain_state) \<Rightarrow> drain_state \<Rightarrow> error option \<times> drain_state" where
  "registered reg st = (case reg (ds_made st) st of (r, st') \<Rightarrow>
     (map_option Sentinel r, st'\<lparr>ds_made := Suc (ds_made st),
        ds_accepted := (if r = None then ds_made st # ds_accepted st else ds_accepted st)\<rparr>))"

record js_broker =
  bk_CreateOrUpdateConsumer :: "consumer_config \<Rightarrow> drain_state \<Rightarrow> error option \<times> drain_state"
  bk_Consume :: "consumer_config \<Rightarrow> drain_state \<Rightarrow> error option \<times> drain_state"

definition js_Subscribe :: "js_broker \<Rightarrow> string \<Rightarrow> 'h \<Rightarrow> subscribe_option list \<Rightarrow> drain_state \<Rightarrow> error option \<times> drain_state" where
  "js_Subscribe K subject handler opts st =
     (case subscribe_check (Closing (ds_life st)) subject (ApplyOptions opts) of
        Inl err \<Rightarrow> (Some err, st)
      | Inr cc \<Rightarrow>
          (case bk_CreateOrUpdateConsumer K cc st of
             (Some err, st1) \<Rightarrow> (Some err, st1)
           | (None, st1) \<Rightarrow>
               (case bk_Consume K cc st1 of
                  (Some err, st2) \<Rightarrow> (Some err, st2)
                | (None, st2) \<Rightarrow> registered js_register st2)))"

definition nats_Subscribe :: "(string \<Rightarrow> drain_state \<Rightarrow> error option \<times> drain_state) \<Rightarrow> string \<Rightarrow> 'h \<Rightarrow> subscribe_option list \<Rightarrow>
    drain_state \<Rightarrow> error option \<times> drain_state" where
  "nats_Subscribe connSubscribe subject handler opts st =
     (if Closing (ds_life st) then (Some (Sentinel ErrBusClosed), st)
      else (case connSubscribe subject st of
          (Some err, st1) \<Rightarrow> (Some err, st1)
        | (None, st1) \<Rightarrow> registered trackSub st1))"

text \<open>The name the handler runs under on the NATS bus.\<close>

definition nats_handler_name :: "string \<Rightarrow> subscribe_option list \<Rightarrow> string" where
  "nats_handler_name subject opts = (let cfg = ApplyOptions opts in if so_HandlerName cfg = [] then subject else so_HandlerName cfg)"

definition js_RegisterSubscribers :: "js_broker \<Rightarrow> 'h subscriber list \<Rightarrow> drain_state \<Rightarrow> error option \<times> drain_state" where
  "js_RegisterSubscribers K = RegisterSubscribers (js_Subscribe K)"

definition nats_RegisterSubscribers :: "(string \<Rightarrow> drain_state \<Rightarrow> error option \<times> drain_state) \<Rightarrow> 'h subscriber list \<Rightarrow> drain_state \<Rightarrow> error option \<times> drain_state" where
  "nats_RegisterSubscribers connSubscribe = RegisterSubscribers (nats_Subscribe connSubscribe)"

definition consumeErr :: "'u js_bus \<Rightarrow> ctx \<Rightarrow> string \<Rightarrow> string \<Rightarrow> error \<Rightarrow> 'u world \<Rightarrow> 'u world" where
  "consumeErr B c handlerName subject err =
     emit (WithObserver c (Some (jb_observer B))) (InternalError
       \<lparr>ie_Component = ComponentTransport, ie_Op = OpConsume, ie_Handler = handlerName, ie_Subject = subject, ie_Err = Some err\<rparr>)"

section \<open>Lemmas\<close>

definition bus_steps :: "proto \<Rightarrow> drain_state \<Rightarrow> drain_state \<Rightarrow> bool" where
  "bus_steps p = (\<lambda>x y. \<exists>a. shutdown_step p a x y)\<^sup>*\<^sup>*"

definition runs_bus :: "proto \<Rightarrow> (drain_state \<Rightarrow> 'a \<times> drain_state) \<Rightarrow> bool" where
  "runs_bus p f \<longleftrightarrow> (\<forall>st. bus_steps p st (snd (f st)))"

lemma bus_steps_trans: "bus_steps p x y \<Longrightarrow> bus_steps p y z \<Longrightarrow> bus_steps p x z"
  by (auto simp: bus_steps_def)

lemma bus_steps_refl [simp]: "bus_steps p x x"
  by (simp add: bus_steps_def)

lemma bus_steps_reach: "bus_steps p st st' \<Longrightarrow> shutdown_reach p st \<Longrightarrow> shutdown_reach p st'"
  unfolding bus_steps_def by (induction rule: rtranclp_induct) (auto intro: shutdown_reach.step)

lemma runs_busD: "runs_bus p f \<Longrightarrow> f st = (r, st') \<Longrightarrow> bus_steps p st st'"
  unfolding runs_bus_def by (metis snd_conv)

lemma registered_step: "registered (pr_register p) st = (r, st') \<Longrightarrow> bus_steps p st st'"
  by (auto simp: registered_def bus_steps_def intro!: r_into_rtranclp exI shutdown_step.subscribed split: prod.splits)

text \<open>Subscriptions are only ever added.\<close>

lemma core_accepted:
  assumes "core st' = core st"
  shows "ds_accepted st' = ds_accepted st"
  using core_fields(6)[OF assms] .

context drain_protocol
begin

lemma accepted_step: "shutdown_step p a st st' \<Longrightarrow> length (ds_accepted st) \<le> length (ds_accepted st')"
  by (induction rule: shutdown_step.induct)
    (auto simp: enter register core_accepted[OF core_kept(1)] core_accepted[OF core_kept(2)] core_accepted[OF core_kept(3)]
      core_accepted[OF flush_default_simps(2)] split: option.splits if_splits)

lemma accepted_steps: "bus_steps p st st' \<Longrightarrow> length (ds_accepted st) \<le> length (ds_accepted st')"
  unfolding bus_steps_def by (induction rule: rtranclp_induct) (auto dest: accepted_step)

lemma registered_ok: "registered (pr_register p) st = (None, st') \<Longrightarrow> length (ds_accepted st') = Suc (length (ds_accepted st))"
  by (auto simp: registered_def split: prod.splits)

text \<open>A Subscribe that runs on the bus and, when it returns nil, added its subscription.\<close>

lemma register_all_runs:
  assumes sub: "\<And>n h opts st r st'. Subscribe n h opts st = (r, st') \<Longrightarrow>
      bus_steps p st st' \<and> (r = None \<longrightarrow> length (ds_accepted st) < length (ds_accepted st'))"
  shows "register_all Subscribe todo st = (r, st') \<Longrightarrow>
      bus_steps p st st' \<and> (r = None \<longrightarrow> length (ds_accepted st) + length todo \<le> length (ds_accepted st'))"
proof (induction todo arbitrary: st)
  case (Cons call todo)
  obtain n h opts where call: "call = (n, h, opts)" by (metis surj_pair)
  obtain r1 st1 where one: "Subscribe n h opts st = (r1, st1)" by force
  from sub[OF one] Cons call one show ?case
    by (cases r1) (fastforce dest: bus_steps_trans)+
qed simp

end

lemma js_Subscribe_runs:
  assumes "\<And>cc. runs_bus js_proto (bk_CreateOrUpdateConsumer K cc)" and "\<And>cc. runs_bus js_proto (bk_Consume K cc)"
    and "js_Subscribe K subject handler opts st = (r, st')"
  shows "bus_steps js_proto st st' \<and> (r = None \<longrightarrow> length (ds_accepted st) < length (ds_accepted st'))"
proof (cases "subscribe_check (Closing (ds_life st)) subject (ApplyOptions opts)")
  case (Inl err)
  with assms(3) show ?thesis by (auto simp: js_Subscribe_def)
next
  case (Inr cc)
  obtain r1 st1 where one: "bk_CreateOrUpdateConsumer K cc st = (r1, st1)" by force
  obtain r2 st2 where two: "bk_Consume K cc st1 = (r2, st2)" by force
  have s1: "bus_steps js_proto st st1" using runs_busD[OF assms(1) one] .
  have s2: "bus_steps js_proto st st2" using bus_steps_trans[OF s1 runs_busD[OF assms(2) two]] .
  show ?thesis
  proof (cases "r1 = None \<and> r2 = None")
    case False
    then have "r \<noteq> None" "st' = st1 \<or> st' = st2" using assms(3) Inr one two by (auto simp: js_Subscribe_def split: option.splits)
    with s1 s2 show ?thesis by auto
  next
    case True
    then have "registered (pr_register js_proto) st2 = (r, st')" using assms(3) Inr one two by (simp add: js_Subscribe_def js_proto_def)
    from bus_steps_trans[OF s2 registered_step[OF this]] js.registered_ok[of st2 st'] this js.accepted_steps[OF s2] show ?thesis by auto
  qed
qed

lemma nats_Subscribe_runs:
  assumes "\<And>s. runs_bus nats_proto (conn s)" and "nats_Subscribe conn subject handler opts st = (r, st')"
  shows "bus_steps nats_proto st st' \<and> (r = None \<longrightarrow> length (ds_accepted st) < length (ds_accepted st'))"
proof (cases "Closing (ds_life st)")
  case True
  with assms(2) show ?thesis by (auto simp: nats_Subscribe_def)
next
  case False
  obtain r1 st1 where one: "conn subject st = (r1, st1)" by force
  have s1: "bus_steps nats_proto st st1" using runs_busD[OF assms(1) one] .
  show ?thesis
  proof (cases r1)
    case (Some err)
    then have "r \<noteq> None" "st' = st1" using assms(2) False one by (auto simp: nats_Subscribe_def)
    with s1 show ?thesis by auto
  next
    case None
    then have "registered (pr_register nats_proto) st1 = (r, st')" using assms(2) False one by (simp add: nats_Subscribe_def nats_proto_def)
    from bus_steps_trans[OF s1 registered_step[OF this]] nats.registered_ok[of st1 st'] this nats.accepted_steps[OF s1] show ?thesis by auto
  qed
qed

lemma calls_length: "length (concat (map subscriber_calls subs)) = (\<Sum>s\<leftarrow>subs. length (sb_Events s))"
  by (induction subs) (simp_all add: subscriber_calls_def Let_def)

lemma closed_register:
  assumes "\<And>n h opts. Subscribe n h opts st = (Some err, st)" and "\<exists>s \<in> set subs. sb_Events s \<noteq> []"
  shows "RegisterSubscribers Subscribe subs st = (Some err, st)"
proof -
  from assms(2) have "concat (map subscriber_calls subs) \<noteq> []" by (auto simp: subscriber_calls_def Let_def)
  with assms(1) show ?thesis by (cases "concat (map subscriber_calls subs)") (auto simp: RegisterSubscribers_def)
qed

section \<open>Properties\<close>

text \<open>What RegisterSubscribers promises over the machine of Shutdown.\<close>

definition register_spec :: "proto \<Rightarrow> 'h subscriber list \<Rightarrow> drain_state \<Rightarrow> error option \<Rightarrow> drain_state \<Rightarrow> bool" where
  "register_spec p subs st r st' \<longleftrightarrow> bus_steps p st st'
     \<and> (r = None \<longrightarrow> length (ds_accepted st) + (\<Sum>s\<leftarrow>subs. length (sb_Events s)) \<le> length (ds_accepted st'))
     \<and> (Closing (ds_life st) \<and> (\<exists>s \<in> set subs. sb_Events s \<noteq> []) \<longrightarrow> r = Some (Sentinel ErrBusClosed) \<and> st' = st)"


definition calm_broker :: js_broker where
  "calm_broker = \<lparr>bk_CreateOrUpdateConsumer = (\<lambda>cc st. (None, st)), bk_Consume = (\<lambda>cc st. (None, st))\<rparr>"

definition order_subscriber :: "unit subscriber" where
  "order_subscriber = \<lparr>sb_Name = ''orders'', sb_SubscribeOptions = Some [WithStream ''S'', WithMaxDeliver 5],
     sb_Events = [(''order.created'', ()), (''order.paid'', ())]\<rparr>"


end
