(* ===== verification/Jetstream_Emit.thy ===== *)
theory Jetstream_Emit
  imports Jetstream_Publish Dlq_Stream
begin

text \<open>
  Emit of the JetStream bus (jetstream/bus.go), with the message id the stream deduplicates by,
  and the defaults of NewBus. The broker client and the encoder are arguments; tracing spans
  and debug logs are left out.
\<close>

section \<open>NewBus\<close>

record js_options =
  jo_CircuitOpenDelay :: duration
  jo_RateLimitDelay :: duration
  jo_ShutdownTimeout :: duration
  jo_PublishRetry :: PublishRetryPolicy

definition NewBus_options :: "js_options \<Rightarrow> js_options" where
  "NewBus_options o' = o'\<lparr>
     jo_CircuitOpenDelay := (if jo_CircuitOpenDelay o' = 0 then 30 * Second else jo_CircuitOpenDelay o'),
     jo_RateLimitDelay := (if jo_RateLimitDelay o' = 0 then 5 * Second else jo_RateLimitDelay o'),
     jo_ShutdownTimeout := (if jo_ShutdownTimeout o' \<le> 0 then DefaultShutdownTimeout else jo_ShutdownTimeout o'),
     jo_PublishRetry := normalized (jo_PublishRetry o')\<rparr>"

definition js_invoker :: "'u invoker option \<Rightarrow> 'u invoker" where
  "js_invoker i = (case i of None \<Rightarrow> Chain_Invoke [] | Some f \<Rightarrow> f)"

section \<open>Emit\<close>

record 'u js_backend =
  jk_PublishMsg :: "nats_msg \<Rightarrow> ctx \<Rightarrow> ('u, error + bool) comp"
  jk_Encode :: "ctx \<Rightarrow> event \<Rightarrow> metadata \<Rightarrow> ('u, error + string) comp"
  jk_rand :: "int \<Rightarrow> 'u world \<Rightarrow> int"
  jk_Deadline :: "ctx \<Rightarrow> time option"
  jk_idGen :: "'u id_source option"
  jk_inherit :: "string list"
  jk_pubRetry :: PublishRetryPolicy

definition js_client_of :: "'u js_backend \<Rightarrow> nats_msg \<Rightarrow> 'u js_client" where
  "js_client_of J m = \<lparr>jc_PublishMsg = jk_PublishMsg J m, jc_rand = jk_rand J, jc_Deadline = jk_Deadline J\<rparr>"

definition js_resolve :: "'u id_source \<Rightarrow> 'u js_backend \<Rightarrow> ctx \<Rightarrow> event \<Rightarrow> 'u emit_options \<Rightarrow> 'u world \<Rightarrow> metadata \<times> 'u world" where
  "js_resolve NewID J c e cfg = ResolveOutbound NewID c e (cfg\<lparr>eo_IDGenerator := jk_idGen J, eo_InheritHeaders := jk_inherit J\<rparr>)"

definition emit_msg :: "string \<Rightarrow> string \<Rightarrow> string \<Rightarrow> nats_msg" where
  "emit_msg subject data ident = \<lparr>nm_Subject = subject, nm_Reply = [], nm_Data = data, nm_Header = header_set MsgIDHeader ident []\<rparr>"

definition js_emit_body :: "'u env \<Rightarrow> 'u id_source \<Rightarrow> 'u js_backend \<Rightarrow> ctx \<Rightarrow> event \<Rightarrow> 'u emit_option list \<Rightarrow> ('u, error option) comp" where
  "js_emit_body E NewID J c e opts w =
     (let cfg = ApplyEmitOptions e opts in
      case js_resolve NewID J c e cfg w of (md, w1) \<Rightarrow>
      case jk_Encode J c e md w1 of
        (Panics v st, w2) \<Rightarrow> (Panics v st, w2)
      | (Ret (Inl err), w2) \<Rightarrow> (Ret (Some err), w2)
      | (Ret (Inr data), w2) \<Rightarrow>
          (case js_publish E (js_client_of J (emit_msg (eo_Subject cfg) data (md_ID md))) (jk_pubRetry J) c w2 of
             (Panics v st, w3) \<Rightarrow> (Panics v st, w3)
           | (Ret (attempts, Inl err), w3) \<Rightarrow> (Ret (Some err), w3)
           | (Ret (attempts, Inr dup), w3) \<Rightarrow> (Ret None, w3)))"

definition js_Emit :: "'u env \<Rightarrow> 'u id_source \<Rightarrow> 'u js_bus \<Rightarrow> 'u js_backend \<Rightarrow> ctx \<Rightarrow> event \<Rightarrow> 'u emit_option list \<Rightarrow> ('u, error option) comp" where
  "js_Emit E NewID B J c e opts w =
     (case Admit (cx_lifecycle c = Some (jb_marker B)) (js_life B w) of
        Inl s \<Rightarrow> (Ret (Some (Sentinel s)), w)
      | Inr l \<Rightarrow> (case js_emit_body E NewID J c e opts (js_set_life B l w) of
          (r, w1) \<Rightarrow> (r, js_set_life B (release (js_life B w1)) w1)))"

section \<open>Deduplication\<close>

definition msg_id :: "nats_msg \<Rightarrow> string" where
  "msg_id m = header_get (nm_Header m) MsgIDHeader"

lemma emit_msg_simps [simp]: "msg_id (emit_msg subject data ident) = ident" "nm_Subject (emit_msg subject data ident) = subject"
  by (simp_all add: msg_id_def emit_msg_def header_get_def header_set_def)

text \<open>The stream stored the message, or it did not because it holds one with the same id.\<close>

definition stores :: "nats_msg \<Rightarrow> nats_msg list \<Rightarrow> nats_msg list \<Rightarrow> bool" where
  "stores m xs ys \<longleftrightarrow> ys = xs \<or> msg_id m \<notin> msg_id ` set xs \<and> ys = xs @ [m]"

lemma stores_refl [simp]: "stores m xs xs"
  by (simp add: stores_def)

lemma stores_trans: "stores m xs ys \<Longrightarrow> stores m ys zs \<Longrightarrow> stores m xs zs"
  by (auto simp: stores_def)

text \<open>
  What the server documents: a message whose Nats-Msg-Id the stream holds is not stored again,
  and an acknowledgement, of a duplicate too, means the stream holds the id. A failed publish
  may have stored the message, when only its acknowledgement was lost.
\<close>

definition dedup_stream :: "'u js_backend \<Rightarrow> ('u \<Rightarrow> nats_msg list) \<Rightarrow> bool" where
  "dedup_stream J stored \<longleftrightarrow> (\<forall>m c w r w'. jk_PublishMsg J m c w = (r, w') \<longrightarrow> stores m (stored (w_user w)) (stored (w_user w'))
     \<and> (\<forall>dup. r = Ret (Inr dup) \<longrightarrow> msg_id m \<in> msg_id ` set (stored (w_user w'))))"

definition keeps_stream :: "('u \<Rightarrow> nats_msg list) \<Rightarrow> ('u world \<Rightarrow> 'a \<times> 'u world) \<Rightarrow> bool" where
  "keeps_stream stored f \<longleftrightarrow> (\<forall>w r w'. f w = (r, w') \<longrightarrow> stored (w_user w') = stored (w_user w))"

lemma timeout_user: "w_user (stop t w) = w_user w" "with_timeout c w = (x, w') \<Longrightarrow> w_user w' = w_user w"
  by (auto simp: stop_def with_timeout_def fire_def)

lemma publish_once_client:
  assumes "publish_once (js_client_of J m) p c w = (r, w')"
  obtains c1 w1 w2 where "jk_PublishMsg J m c1 w1 = (r, w2)" "w_user w1 = w_user w" "w_user w' = w_user w2"
proof (cases "pr_AttemptTimeout p > 0")
  case True
  obtain a t w1 where t: "with_timeout c w = ((a, t), w1)" by (metis surj_pair)
  obtain r2 w2 where run: "jk_PublishMsg J m a w1 = (r2, w2)" by force
  show thesis
  proof (rule that[of a w1 w2])
    show "jk_PublishMsg J m a w1 = (r, w2)" "w_user w' = w_user w2"
      using assms True t run by (auto simp: publish_once_def js_client_of_def timeout_user split: result.splits)
    show "w_user w1 = w_user w" using t by (rule timeout_user)
  qed
next
  case False
  with assms show thesis by (intro that[of c w w']) (auto simp: publish_once_def js_client_of_def)
qed

lemma publish_once_stores:
  assumes "dedup_stream J stored" and "publish_once (js_client_of J m) p c w = (r, w')"
  shows "stores m (stored (w_user w)) (stored (w_user w'))" "r = Ret (Inr dup) \<Longrightarrow> msg_id m \<in> msg_id ` set (stored (w_user w'))"
proof -
  obtain c1 w1 w2 where run: "jk_PublishMsg J m c1 w1 = (r, w2)" "w_user w1 = w_user w" "w_user w' = w_user w2"
    using publish_once_client[OF assms(2)] .
  show "stores m (stored (w_user w)) (stored (w_user w'))" using assms(1) run unfolding dedup_stream_def by metis
  show "msg_id m \<in> msg_id ` set (stored (w_user w'))" if "r = Ret (Inr dup)"
    using assms(1) run that unfolding dedup_stream_def by metis
qed

lemma publish_from_stores:
  assumes J: "dedup_stream J stored" and E: "\<And>d. keeps_stream stored (e_wait E c d)"
  shows "publish_from E (js_client_of J m) p c attempt lastErr w = (r, w') \<Longrightarrow>
    stores m (stored (w_user w)) (stored (w_user w')) \<and> (\<forall>n dup. r = Ret (n, Inr dup) \<longrightarrow> msg_id m \<in> msg_id ` set (stored (w_user w')))"
proof (induction "nat (pr_MaxAttempts p - int attempt)" arbitrary: attempt lastErr w rule: less_induct)
  case less
  show ?case
  proof (cases "ctx_Err c w")
    case (Some cerr)
    with less.prems show ?thesis by (subst (asm) publish_from.simps) auto
  next
    case None
    obtain po w1 where po: "publish_once (js_client_of J m) p c w = (po, w1)" by force
    note once = publish_once_stores[OF J po]
    show ?thesis
    proof (cases "\<exists>err delay w2. int attempt < pr_MaxAttempts p
        \<and> e_wait E c delay w1 = (True, w2) \<and> publish_from E (js_client_of J m) p c (Suc attempt) (Some err) w2 = (r, w')")
      case True
      then obtain err delay w2 where again: "int attempt < pr_MaxAttempts p" "e_wait E c delay w1 = (True, w2)"
        "publish_from E (js_client_of J m) p c (Suc attempt) (Some err) w2 = (r, w')" by blast
      have "stored (w_user w2) = stored (w_user w1)" using E[of delay] again(2) unfolding keeps_stream_def by blast
      with less.hyps[OF _ again(3)] again(1) once(1) show ?thesis by (auto intro: stores_trans)
    next
      case False
      have "stored (w_user w') = stored (w_user w1) \<and> (\<forall>n dup. r = Ret (n, Inr dup) \<longrightarrow> po = Ret (Inr dup))"
        using less.prems False None po E
        by (subst (asm) publish_from.simps)
          (auto simp: Let_def keeps_stream_def split: result.splits sum.splits if_splits prod.splits bool.splits)
      then show ?thesis using once by auto
    qed
  qed
qed

text \<open>The id the caller chose, with WithID or the Id method of the event.\<close>

definition chosen_id :: "event \<Rightarrow> 'u emit_options \<Rightarrow> string" where
  "chosen_id e cfg = (if eo_ID cfg = [] then (case ev_Id e of None \<Rightarrow> [] | Some i \<Rightarrow> i) else eo_ID cfg)"

lemma resolve_explicit: "chosen_id e cfg \<noteq> [] \<Longrightarrow> md_ID (fst (js_resolve NewID J c e cfg w)) = chosen_id e cfg"
  by (auto simp: js_resolve_def ResolveOutbound_def resolve_id_def chosen_id_def Let_def split: prod.splits if_splits)

lemma resolve_id_world:
  assumes "resolve_id NewID e opts w = (i, w')"
  obtains w1 where "w1 = w \<or> (\<exists>g x. eo_IDGenerator opts = Some g \<and> g w = (x, w1))" "w' = w1 \<or> (\<exists>x. NewID w1 = (x, w'))"
proof -
  let ?id0 = "if eo_ID opts = [] then (case ev_Id e of None \<Rightarrow> [] | Some i \<Rightarrow> i) else eo_ID opts"
  obtain id1 w1 where one: "(if ?id0 = [] then (case eo_IDGenerator opts of None \<Rightarrow> (?id0, w) | Some f \<Rightarrow> f w) else (?id0, w)) = (id1, w1)"
    by (meson surj_pair)
  have "w1 = w \<or> (\<exists>g x. eo_IDGenerator opts = Some g \<and> g w = (x, w1))"
    using one by (cases "?id0 = []"; cases "eo_IDGenerator opts") auto
  moreover have "w' = w1 \<or> (\<exists>x. NewID w1 = (x, w'))"
    using assms unfolding resolve_id_def Let_def one by (cases "id1 = []") auto
  ultimately show thesis by (rule that)
qed

lemma resolve_keeps:
  assumes "keeps_stream stored NewID" and "\<And>g. jk_idGen J = Some g \<Longrightarrow> keeps_stream stored g"
  shows "keeps_stream stored (js_resolve NewID J c e cfg)"
  unfolding keeps_stream_def
proof (intro allI impI)
  fix w md w' assume "js_resolve NewID J c e cfg w = (md, w')"
  then obtain i where "resolve_id NewID e (cfg\<lparr>eo_IDGenerator := jk_idGen J, eo_InheritHeaders := jk_inherit J\<rparr>) w = (i, w')"
    by (auto simp: js_resolve_def ResolveOutbound_def Let_def split: prod.splits)
  then obtain w1 where "w1 = w \<or> (\<exists>g x. jk_idGen J = Some g \<and> g w = (x, w1))" "w' = w1 \<or> (\<exists>x. NewID w1 = (x, w'))"
    by (rule resolve_id_world) auto
  then show "stored (w_user w') = stored (w_user w)" using assms unfolding keeps_stream_def by metis
qed

text \<open>The body of Emit stores the message of its id at most once.\<close>

lemma emit_body_stores:
  assumes J: "dedup_stream J stored" and E: "\<And>d. keeps_stream stored (e_wait E c d)"
    and N: "keeps_stream stored NewID" "\<And>g. jk_idGen J = Some g \<Longrightarrow> keeps_stream stored g"
    and enc: "\<And>md. keeps_stream stored (jk_Encode J c e md)"
    and run: "js_emit_body E NewID J c e opts w = (r, w')"
  shows "\<exists>m. stores m (stored (w_user w)) (stored (w_user w')) \<and> nm_Subject m = eo_Subject (ApplyEmitOptions e opts)
    \<and> msg_id m = md_ID (fst (js_resolve NewID J c e (ApplyEmitOptions e opts) w))
    \<and> (r = Ret None \<longrightarrow> msg_id m \<in> msg_id ` set (stored (w_user w')))"
proof -
  let ?cfg = "ApplyEmitOptions e opts"
  obtain md w1 where res: "js_resolve NewID J c e ?cfg w = (md, w1)" by force
  obtain x w2 where e: "jk_Encode J c e md w1 = (x, w2)" by force
  have same: "stored (w_user w2) = stored (w_user w)"
    using resolve_keeps[OF N, of J c e ?cfg] enc[of md] res e unfolding keeps_stream_def by metis
  show ?thesis
  proof (cases "\<exists>data. x = Ret (Inr data)")
    case False
    then have "w' = w2" "r \<noteq> Ret None" using run res e
      by (auto simp: js_emit_body_def Let_def split: result.splits sum.splits)
    with same show ?thesis
      by (intro exI[of _ "emit_msg (eo_Subject ?cfg) [] (md_ID md)"]) (simp add: res)
  next
    case True
    then obtain data where x: "x = Ret (Inr data)" ..
    let ?m = "emit_msg (eo_Subject ?cfg) data (md_ID md)"
    obtain y w3 where pub: "js_publish E (js_client_of J ?m) (jk_pubRetry J) c w2 = (y, w3)" by force
    have w': "w' = w3" "r = Ret None \<Longrightarrow> \<exists>n dup. y = Ret (n, Inr dup)" using run res e x pub
      by (auto simp: js_emit_body_def Let_def split: result.splits sum.splits prod.splits)
    from publish_from_stores[OF J E pub[unfolded js_publish_def]] same w' show ?thesis
      by (intro exI[of _ ?m]) (auto simp: res)
  qed
qed

section \<open>Properties\<close>


text \<open>A stream whose first acknowledgement is lost: the retry is acknowledged as a duplicate.\<close>

definition lossy_backend :: "(lifecycle \<times> nats_msg list) js_backend" where
  "lossy_backend = \<lparr>jk_PublishMsg = (\<lambda>m c w.
       if msg_id m \<in> msg_id ` set (snd (w_user w)) then (Ret (Inr True), w)
       else (Ret (Inl (Sentinel (Foreign NatsErrTimeout))), w\<lparr>w_user := (fst (w_user w), snd (w_user w) @ [m])\<rparr>)),
     jk_Encode = (\<lambda>c e md w. (Ret (Inr (ev_Payload e)), w)), jk_rand = (\<lambda>n w. 0), jk_Deadline = (\<lambda>c. None),
     jk_idGen = None, jk_inherit = [], jk_pubRetry = default_publish\<rparr>"

definition lossy_bus :: "(lifecycle \<times> nats_msg list) js_bus" where
  "lossy_bus = \<lparr>jb_observer = 7, jb_dlq = None, jb_invoker = js_invoker None,
     jb_Decode = (\<lambda>c data w. (Ret (Some c, Inr sample_event), w)), jb_circuitOpenDelay = 30 * Second,
     jb_rateLimitDelay = 5 * Second, jb_source = 0, jb_marker = 0, jb_getLife = fst,
     jb_putLife = (\<lambda>l u. (l, snd u)), jb_getGuard = (\<lambda>u. False), jb_putGuard = (\<lambda>g u. u)\<rparr>"

definition lossy_run :: "error option result \<times> (lifecycle \<times> nats_msg list) world" where
  "lossy_run = js_Emit timer_env (\<lambda>w. (''g'', w)) lossy_bus lossy_backend Background sample_event [] (sample_world (zero_lifecycle, []))"


end
