(* ===== verification/Observers.thy ===== *)
theory Observers
  imports World
begin

text \<open>
  The observer contract (observer.go): fan-out to several observers with nested ones flattened,
  panic isolation per child, and the observer a context carries. The other theories record the
  calls an observer receives as a trace; this theory shows why a call of an observer in a
  context never panics and reaches every configured observer.
\<close>

section \<open>Observers\<close>

text \<open>
  A user observer is external code: on a signal it returns or panics with a value, and changes
  the state of its own. A child of a multi observer is the observer, its type name and an
  identity, since the children of a nested multi observer are shared, log flags included.
  \<open>ObsMulti None\<close> is the nil pointer.
\<close>

type_synonym 'w user = "signal \<Rightarrow> 'w \<Rightarrow> string option \<times> 'w"

record 'w observerChild =
  oc_id :: nat
  oc_type :: string
  oc_obs :: "'w user"

datatype 'w observer = ObsNil | NopObserver | NopObserverPtr | ObsMulti "'w observerChild list option" | ObsUser string "'w user"

fun obsMethod :: "signal \<Rightarrow> nat" where
  "obsMethod (RetryAttempt _) = 0" | "obsMethod (BreakerTransition _) = 1" | "obsMethod (Failure _) = 2"
| "obsMethod (DeadLettered _) = 3" | "obsMethod (HandlerDone _) = 4" | "obsMethod (DecodeFailed _) = 5"
| "obsMethod (DLQPublishFailed _) = 6" | "obsMethod (StoreError _) = 7" | "obsMethod (IdempotencyStale _) = 8"
| "obsMethod (InternalError _) = 9"

definition observerMethodNames :: "string list" where
  "observerMethodNames = [''RetryAttempt'', ''BreakerTransition'', ''Failure'', ''DeadLettered'', ''HandlerDone'',
     ''DecodeFailed'', ''DLQPublishFailed'', ''StoreError'', ''IdempotencyStale'', ''InternalError'']"

text \<open>
  The state of the children: the flags that were set (child, method), the lines logged (method
  name, observer type, panic value), the calls and the panics so far, and the user state.
\<close>

record 'w obs_state =
  os_logged :: "(nat \<times> nat) list"
  os_lines :: "(string \<times> string \<times> string) list"
  os_calls :: "(nat \<times> signal) list"
  os_panics :: "(nat \<times> nat) list"
  os_user :: 'w

text \<open>MultiObserver builds children with the next free identities.\<close>

fun collect_children :: "'w observer list \<Rightarrow> nat \<Rightarrow> 'w observerChild list \<times> nat" where
  "collect_children [] n = ([], n)"
| "collect_children (o' # obs) n = (case o' of
     ObsMulti None \<Rightarrow> collect_children obs n
   | ObsMulti (Some cs) \<Rightarrow> (case collect_children obs n of (rest, m) \<Rightarrow> (cs @ rest, m))
   | ObsUser t f \<Rightarrow> (case collect_children obs (Suc n) of (rest, m) \<Rightarrow> (\<lparr>oc_id = n, oc_type = t, oc_obs = f\<rparr> # rest, m))
   | _ \<Rightarrow> collect_children obs n)"

definition MultiObserver :: "'w observer list \<Rightarrow> nat \<Rightarrow> 'w observer \<times> nat" where
  "MultiObserver obs n = (case collect_children obs n of (cs, m) \<Rightarrow> (if cs = [] then NopObserver else ObsMulti (Some cs), m))"

definition callObserver :: "signal \<Rightarrow> 'w observerChild \<Rightarrow> 'w obs_state \<Rightarrow> 'w obs_state" where
  "callObserver sig c st = (case oc_obs c sig (os_user st) of (panic, u) \<Rightarrow>
     (let st1 = st\<lparr>os_user := u, os_calls := os_calls st @ [(oc_id c, sig)]\<rparr>; k = (oc_id c, obsMethod sig) in
      case panic of None \<Rightarrow> st1
      | Some r \<Rightarrow> (let st2 = st1\<lparr>os_panics := os_panics st @ [k]\<rparr> in
          if k \<in> set (os_logged st) then st2
          else st2\<lparr>os_logged := os_logged st @ [k],
                 os_lines := os_lines st @ [(observerMethodNames ! obsMethod sig, oc_type c, r)]\<rparr>)))"

primrec each :: "'w observerChild list \<Rightarrow> signal \<Rightarrow> 'w obs_state \<Rightarrow> 'w obs_state" where
  "each [] sig st = st"
| "each (c # cs) sig st = each cs sig (callObserver sig c st)"

text \<open>A method call on an observer value: the panic that reaches the caller, if any.\<close>

definition obs_call :: "'w observer \<Rightarrow> signal \<Rightarrow> 'w obs_state \<Rightarrow> string option \<times> 'w obs_state" where
  "obs_call o' sig st = (case o' of
     NopObserver \<Rightarrow> (None, st)
   | NopObserverPtr \<Rightarrow> (None, st)
   | ObsMulti (Some cs) \<Rightarrow> (None, each cs sig st)
   | ObsMulti None \<Rightarrow> (Some ''nil pointer dereference'', st)
   | ObsNil \<Rightarrow> (Some ''nil pointer dereference'', st)
   | ObsUser t f \<Rightarrow> (case f sig (os_user st) of (panic, u) \<Rightarrow> (panic, st\<lparr>os_user := u\<rparr>)))"

text \<open>The observer WithObserver stores in the context, and the one a bus is built with.\<close>

definition isolated :: "'w observer \<Rightarrow> nat \<Rightarrow> 'w observer \<times> nat" where
  "isolated o' n = (case o' of
     ObsNil \<Rightarrow> (NopObserver, n)
   | NopObserver \<Rightarrow> (NopObserver, n)
   | ObsMulti None \<Rightarrow> (NopObserver, n)
   | ObsMulti (Some cs) \<Rightarrow> (o', n)
   | _ \<Rightarrow> MultiObserver [o'] n)"

definition bus_observer :: "'w observer \<Rightarrow> 'w observer \<Rightarrow> nat \<Rightarrow> 'w observer \<times> nat" where
  "bus_observer defaultLog o' n = MultiObserver [case o' of ObsNil \<Rightarrow> defaultLog | _ \<Rightarrow> o'] n"

definition ObserverFromContext :: "'w observer option \<Rightarrow> 'w observer" where
  "ObserverFromContext v = (case v of Some ObsNil \<Rightarrow> NopObserver | Some o' \<Rightarrow> o' | None \<Rightarrow> NopObserver)"

section \<open>Lemmas\<close>

definition children :: "'w observer \<Rightarrow> 'w observerChild list" where
  "children o' = (case o' of ObsMulti (Some cs) \<Rightarrow> cs | _ \<Rightarrow> [])"

lemma children_Multi: "children (fst (MultiObserver obs n)) = fst (collect_children obs n)"
  by (auto simp: MultiObserver_def children_def split: prod.splits)

lemma collect_append:
  "collect_children (xs @ ys) n = (case collect_children xs n of (cs, m) \<Rightarrow> case collect_children ys m of (ds, k) \<Rightarrow> (cs @ ds, k))"
  by (induction xs n rule: collect_children.induct)
    (auto split: observer.splits option.splits prod.splits)

lemma call_Multi: "obs_call (fst (MultiObserver obs n)) sig st = (None, each (fst (collect_children obs n)) sig st)"
  by (auto simp: MultiObserver_def obs_call_def split: prod.splits)

lemma call_isolated: "obs_call (fst (isolated o' n)) sig st = (None, each (children (fst (isolated o' n))) sig st)"
proof (cases o')
  case (ObsMulti c)
  then show ?thesis by (cases c) (simp_all add: isolated_def children_def obs_call_def)
qed (simp_all add: isolated_def call_Multi children_Multi, simp_all add: children_def obs_call_def)

lemma calls_each: "os_calls (each cs sig st) = os_calls st @ map (\<lambda>c. (oc_id c, sig)) cs"
  by (induction cs arbitrary: st) (auto simp: callObserver_def Let_def split: prod.splits option.splits)

text \<open>The flags, the lines and the panics agree: one line per child and method that ever panicked.\<close>

definition flags_agree :: "'w obs_state \<Rightarrow> bool" where
  "flags_agree st \<longleftrightarrow> distinct (os_logged st) \<and> set (os_logged st) = set (os_panics st)
     \<and> map (\<lambda>(_, m). observerMethodNames ! m) (os_logged st) = map fst (os_lines st)"

lemma flags_length: "flags_agree st \<Longrightarrow> length (os_lines st) = length (os_logged st)"
  unfolding flags_agree_def by (metis length_map)

lemma flags_call: "flags_agree st \<Longrightarrow> flags_agree (callObserver sig c st)"
  by (auto simp: flags_agree_def callObserver_def Let_def split: prod.splits option.splits)

lemma flags_each: "flags_agree st \<Longrightarrow> flags_agree (each cs sig st)"
  by (induction cs arbitrary: st) (simp_all add: flags_call)

primrec signals :: "'w observer \<Rightarrow> signal list \<Rightarrow> 'w obs_state \<Rightarrow> 'w obs_state" where
  "signals o' [] st = st"
| "signals o' (s # ss) st = signals o' ss (snd (obs_call o' s st))"

lemma signals_isolated:
  assumes "\<And>sig st. obs_call o' sig st = (None, each cs sig st)"
  shows "os_calls (signals o' ss st) = os_calls st @ concat (map (\<lambda>s. map (\<lambda>c. (oc_id c, s)) cs) ss)"
    and "flags_agree st \<Longrightarrow> flags_agree (signals o' ss st)"
  by (induction ss arbitrary: st) (simp_all add: assms calls_each flags_each)

section \<open>Properties\<close>

definition obs_init :: "'w \<Rightarrow> 'w obs_state" where
  "obs_init u = \<lparr>os_logged = [], os_lines = [], os_calls = [], os_panics = [], os_user = u\<rparr>"

text \<open>
  C30. Observers are isolated. Whatever observer is put in a context or a bus is built with (nil,
  a nil multi observer, a raw user observer, nested multi observers), a call of it never panics,
  whatever the user code does; over any sequence of signals every child is called once per
  signal, in the order configured, also after another child panicked; each child and method
  that panicked is logged exactly once; and the children of nested multi observers are those of
  the flat list.
\<close>

theorem observers_isolated:
  "fst (obs_call (fst (isolated o' n)) sig st) = None \<and> fst (obs_call (fst (bus_observer d o' n)) sig st) = None
   \<and> os_calls (signals (fst (isolated o' n)) ss (obs_init u))
       = concat (map (\<lambda>s. map (\<lambda>c. (oc_id c, s)) (children (fst (isolated o' n)))) ss)
   \<and> distinct (os_logged (signals (fst (isolated o' n)) ss (obs_init u)))
   \<and> set (os_logged (signals (fst (isolated o' n)) ss (obs_init u))) = set (os_panics (signals (fst (isolated o' n)) ss (obs_init u)))
   \<and> length (os_lines (signals (fst (isolated o' n)) ss (obs_init u))) = length (os_logged (signals (fst (isolated o' n)) ss (obs_init u)))
   \<and> children (fst (MultiObserver (xs @ fst (MultiObserver ys n) # zs) (snd (MultiObserver ys n))))
       = (case collect_children xs (snd (MultiObserver ys n)) of (cs, m) \<Rightarrow>
            cs @ children (fst (MultiObserver ys n)) @ fst (collect_children zs m))"
proof (intro conjI)
  note run = signals_isolated[of "fst (isolated o' n)", OF call_isolated]
  show "fst (obs_call (fst (isolated o' n)) sig st) = None" by (simp add: call_isolated)
  show "fst (obs_call (fst (bus_observer d o' n)) sig st) = None" by (simp add: bus_observer_def call_Multi)
  show "os_calls (signals (fst (isolated o' n)) ss (obs_init u))
      = concat (map (\<lambda>s. map (\<lambda>c. (oc_id c, s)) (children (fst (isolated o' n)))) ss)"
    using run(1)[of ss "obs_init u"] by (simp add: obs_init_def)
  have "flags_agree (obs_init u)" by (simp add: flags_agree_def obs_init_def)
  note agree = run(2)[OF this, of ss]
  then show
    "distinct (os_logged (signals (fst (isolated o' n)) ss (obs_init u)))"
    "set (os_logged (signals (fst (isolated o' n)) ss (obs_init u))) = set (os_panics (signals (fst (isolated o' n)) ss (obs_init u)))"
    "length (os_lines (signals (fst (isolated o' n)) ss (obs_init u))) = length (os_logged (signals (fst (isolated o' n)) ss (obs_init u)))"
    by (auto simp: flags_agree_def flags_length[OF agree])
  show "children (fst (MultiObserver (xs @ fst (MultiObserver ys n) # zs) (snd (MultiObserver ys n))))
      = (case collect_children xs (snd (MultiObserver ys n)) of (cs, m) \<Rightarrow>
           cs @ children (fst (MultiObserver ys n)) @ fst (collect_children zs m))"
    unfolding children_Multi collect_append
    by (auto simp: MultiObserver_def children_def split: prod.splits observer.splits option.splits)
qed

end
