(* ===== verification/Metrics.thy ===== *)
theory Metrics
  imports Log_Observer
begin

text \<open>
  The metrics observers (prometheus/observer.go, telemetry/observer.go): the metric calls each
  signal leads to, the breaker gauge that follows the sequence numbers of transitions, and the
  span events of the telemetry observer. A call of the Prometheus or OpenTelemetry SDK is a
  value; what the SDK does with it is not modelled. The lemmas show that both observers
  record the same metrics, that the counters are exact, and that the gauge does not depend on
  the order transitions are delivered in.
\<close>

section \<open>Metric calls\<close>

type_synonym labels = "(string \<times> string) list"

datatype metric_call = Inc string labels | ObserveSeconds string labels duration | SetGauge string labels int

record span_event =
  se_name :: string
  se_attrs :: "(string \<times> attr_value) list"

definition gauge_value :: "BreakerState \<Rightarrow> int option" where
  "gauge_value s = (case s of BreakerClosed \<Rightarrow> Some 0 | BreakerOpen \<Rightarrow> Some 1 | BreakerHalfOpen \<Rightarrow> Some 2 | BreakerUnknown \<Rightarrow> None)"

type_synonym breakerKey = "string \<times> 64 word"

text \<open>The critical section of the gauge: the table of sequence numbers, and the value to write.\<close>

definition gauge_step :: "breaker_transition \<Rightarrow> (breakerKey \<rightharpoonup> 64 word) \<Rightarrow> int option \<times> (breakerKey \<rightharpoonup> 64 word)" where
  "gauge_step t lastSeq = (case gauge_value (bt_To t) of
     None \<Rightarrow> (None, lastSeq)
   | Some v \<Rightarrow> (let key = (bt_Handler t, bt_BreakerID t) in
       case lastSeq key of
         Some latest \<Rightarrow> if bt_Seq t \<le> latest then (None, lastSeq) else (Some v, lastSeq(key \<mapsto> bt_Seq t))
       | None \<Rightarrow> (Some v, lastSeq(key \<mapsto> bt_Seq t))))"

section \<open>The Prometheus observer\<close>

record prom =
  pm_lastSeq :: "breakerKey \<rightharpoonup> 64 word"
  pm_calls :: "metric_call list"

definition prom_add :: "metric_call list \<Rightarrow> prom \<Rightarrow> prom" where
  "prom_add cs o' = o'\<lparr>pm_calls := pm_calls o' @ cs\<rparr>"

definition prom_BreakerTransition :: "breaker_transition \<Rightarrow> prom \<Rightarrow> prom" where
  "prom_BreakerTransition t o' =
     (let o1 = prom_add [Inc ''eventbus_breaker_transitions_total'' [(''handler'', bt_Handler t), (''from'', breaker_text (bt_From t)),
            (''to'', breaker_text (bt_To t)), (''reason'', breaker_reason_text (bt_Reason t))]] o' in
      case gauge_step t (pm_lastSeq o1) of
        (None, m) \<Rightarrow> o1\<lparr>pm_lastSeq := m\<rparr>
      | (Some v, m) \<Rightarrow> prom_add [SetGauge ''eventbus_breaker_state'' [(''handler'', bt_Handler t)] v] (o1\<lparr>pm_lastSeq := m\<rparr>))"

fun prom_signal :: "signal \<Rightarrow> prom \<Rightarrow> prom" where
  "prom_signal (RetryAttempt i) o' = prom_add [Inc ''eventbus_retry_attempts_total''
     [(''handler'', ra_Handler i), (''event'', ra_Event i), (''reason'', class_text (ra_Class i))]] o'"
| "prom_signal (Failure f) o' = o'"
| "prom_signal (DeadLettered i) o' = prom_add [Inc ''eventbus_dlq_records_total''
     [(''handler'', dl_Handler i), (''event'', dl_Event i), (''reason'', dl_Reason i)]] o'"
| "prom_signal (DLQPublishFailed f) o' = prom_add [Inc ''eventbus_dlq_publish_errors_total''
     [(''handler'', pf_Handler f), (''event'', pf_Event f)]] o'"
| "prom_signal (DecodeFailed f) o' = prom_add [Inc ''eventbus_decode_failures_total'' [(''reason'', df_Reason f)]] o'"
| "prom_signal (StoreError e) o' = prom_add [Inc ''eventbus_store_errors_total''
     [(''handler'', se_Handler e), (''store'', se_Store e), (''op'', se_Op e)]] o'"
| "prom_signal (IdempotencyStale s) o' = prom_add [Inc ''eventbus_idempotency_stale_total'' [(''handler'', is_Handler s)]] o'"
| "prom_signal (InternalError e) o' = prom_add [Inc ''eventbus_internal_errors_total''
     [(''component'', component_text (ie_Component e)), (''op'', op_text (ie_Op e))]] o'"
| "prom_signal (HandlerDone r) o' = (let ls = [(''handler'', hr_Handler r), (''event'', hr_Event r), (''outcome'', outcome_text (hr_Outcome r))]
     in prom_add [ObserveSeconds ''eventbus_handler_duration_seconds'' ls (hr_Duration r), Inc ''eventbus_handler_total'' ls] o')"
| "prom_signal (BreakerTransition t) o' = prom_BreakerTransition t o'"

section \<open>The telemetry observer\<close>

text \<open>
  \<open>ot_metrics\<close> says that a MeterProvider was configured; \<open>ot_span\<close> that the context of the signal
  has a recording span. \<open>errType\<close> is the value of the error.type attribute for an error.
\<close>

record otel =
  ot_metrics :: bool
  ot_breakerSeq :: "breakerKey \<rightharpoonup> 64 word"
  ot_calls :: "metric_call list"
  ot_events :: "span_event list"

definition addEvent :: "bool \<Rightarrow> string \<Rightarrow> (string \<times> attr_value) list \<Rightarrow> otel \<Rightarrow> otel" where
  "addEvent recording name attrs o' = (if \<not> recording then o' else o'\<lparr>ot_events := ot_events o' @ [\<lparr>se_name = name, se_attrs = attrs\<rparr>]\<rparr>)"

definition otel_add :: "metric_call list \<Rightarrow> otel \<Rightarrow> otel" where
  "otel_add cs o' = (if ot_metrics o' then o'\<lparr>ot_calls := ot_calls o' @ cs\<rparr> else o')"

definition recordBreakerState :: "breaker_transition \<Rightarrow> otel \<Rightarrow> otel" where
  "recordBreakerState t o' = (case gauge_step t (ot_breakerSeq o') of
     (None, m) \<Rightarrow> o'\<lparr>ot_breakerSeq := m\<rparr>
   | (Some v, m) \<Rightarrow> otel_add [SetGauge ''eventbus.breaker.state'' [(''handler'', bt_Handler t)] v] (o'\<lparr>ot_breakerSeq := m\<rparr>))"

fun otel_signal :: "(error option \<Rightarrow> string) \<Rightarrow> bool \<Rightarrow> signal \<Rightarrow> otel \<Rightarrow> otel" where
  "otel_signal errType rec (RetryAttempt i) o' = otel_add [Inc ''eventbus.retry.attempts''
       [(''handler'', ra_Handler i), (''event'', ra_Event i), (''reason'', class_text (ra_Class i))]]
     (addEvent rec ''eventbus.retry.attempt'' [(''eventbus.handler'', VString (ra_Handler i)), (''eventbus.retry.attempt'', VInt (ra_Attempt i)),
        (''eventbus.retry.class'', VString (class_text (ra_Class i))), (''eventbus.retry.delay_ms'', VInt (Milliseconds (ra_Delay i))),
        (''error.type'', VString (errType (ra_Err i)))] o')"
| "otel_signal errType rec (BreakerTransition t) o' =
     (let o1 = addEvent rec ''eventbus.breaker.transition'' [(''eventbus.handler'', VString (bt_Handler t)),
            (''eventbus.breaker.from'', VString (breaker_text (bt_From t))), (''eventbus.breaker.to'', VString (breaker_text (bt_To t))),
            (''eventbus.breaker.reason'', VString (breaker_reason_text (bt_Reason t))), (''eventbus.breaker.failures'', VInt (bt_Failures t)),
            (''eventbus.breaker.seq'', VInt (sint (bt_Seq t)))] o' in
      if ot_metrics o1
      then recordBreakerState t (otel_add [Inc ''eventbus.breaker.transitions'' [(''handler'', bt_Handler t), (''from'', breaker_text (bt_From t)),
            (''to'', breaker_text (bt_To t)), (''reason'', breaker_reason_text (bt_Reason t))]] o1)
      else o1)"
| "otel_signal errType rec (Failure f) o' = o'"
| "otel_signal errType rec (DeadLettered i) o' = otel_add [Inc ''eventbus.dlq.records''
       [(''handler'', dl_Handler i), (''event'', dl_Event i), (''reason'', dl_Reason i)]]
     (addEvent rec ''eventbus.dead_lettered'' [(''eventbus.handler'', VString (dl_Handler i)), (''eventbus.reason'', VString (dl_Reason i)),
        (''eventbus.delivery_count'', VInt (d_Count (dl_Delivery i)))] o')"
| "otel_signal errType rec (HandlerDone r) o' = (let ls = [(''handler'', hr_Handler r), (''event'', hr_Event r), (''outcome'', outcome_text (hr_Outcome r))]
     in otel_add [ObserveSeconds ''eventbus.handler.duration'' ls (hr_Duration r), Inc ''eventbus.handler'' ls] o')"
| "otel_signal errType rec (DecodeFailed f) o' = otel_add [Inc ''eventbus.decode.failures'' [(''reason'', df_Reason f)]] o'"
| "otel_signal errType rec (DLQPublishFailed f) o' = otel_add [Inc ''eventbus.dlq.publish.errors''
       [(''handler'', pf_Handler f), (''event'', pf_Event f)]]
     (addEvent rec ''eventbus.dlq.publish_failed'' [(''eventbus.handler'', VString (pf_Handler f)), (''eventbus.reason'', VString (pf_Reason f)),
        (''error.type'', VString (errType (pf_Err f)))] o')"
| "otel_signal errType rec (StoreError e) o' = otel_add [Inc ''eventbus.store.errors''
       [(''handler'', se_Handler e), (''store'', se_Store e), (''op'', se_Op e)]]
     (addEvent rec ''eventbus.store.error'' [(''eventbus.handler'', VString (se_Handler e)), (''eventbus.store'', VString (se_Store e)),
        (''eventbus.op'', VString (se_Op e)), (''error.type'', VString (errType (se_Err e)))] o')"
| "otel_signal errType rec (IdempotencyStale s) o' = otel_add [Inc ''eventbus.idempotency.stale'' [(''handler'', is_Handler s)]]
     (addEvent rec ''eventbus.idempotency.stale'' [(''eventbus.handler'', VString (is_Handler s))] o')"
| "otel_signal errType rec (InternalError e) o' = otel_add [Inc ''eventbus.internal.errors''
       [(''component'', component_text (ie_Component e)), (''op'', op_text (ie_Op e))]]
     (addEvent rec ''eventbus.internal_error'' [(''eventbus.component'', VString (component_text (ie_Component e))),
        (''eventbus.op'', VString (op_text (ie_Op e)))] o')"

section \<open>Runs\<close>

definition prom_init :: prom where "prom_init = \<lparr>pm_lastSeq = Map.empty, pm_calls = []\<rparr>"

definition otel_init :: "bool \<Rightarrow> otel" where
  "otel_init metrics = \<lparr>ot_metrics = metrics, ot_breakerSeq = Map.empty, ot_calls = [], ot_events = []\<rparr>"

definition prom_run :: "signal list \<Rightarrow> prom" where
  "prom_run ss = fold prom_signal ss prom_init"

definition otel_run :: "(error option \<Rightarrow> string) \<Rightarrow> bool \<Rightarrow> (bool \<times> signal) list \<Rightarrow> otel" where
  "otel_run errType metrics ss = fold (\<lambda>(rec, s). otel_signal errType rec s) ss (otel_init metrics)"

text \<open>The documented translation of OpenTelemetry names: dots become underscores, and the kind adds a suffix.\<close>

definition underscores :: "string \<Rightarrow> string" where
  "underscores = map (\<lambda>c. if c = CHR ''.'' then CHR ''_'' else c)"

fun translated :: "metric_call \<Rightarrow> metric_call" where
  "translated (Inc n ls) = Inc (underscores n @ ''_total'') ls"
| "translated (ObserveSeconds n ls d) = ObserveSeconds (underscores n @ ''_seconds'') ls d"
| "translated (SetGauge n ls v) = SetGauge (underscores n) ls v"

section \<open>Lemmas\<close>

lemma same_metrics_step:
  assumes "ot_metrics o'" and "ot_breakerSeq o' = pm_lastSeq q" and "map translated (ot_calls o') = pm_calls q"
  shows "ot_metrics (otel_signal errType rec s o') \<and> ot_breakerSeq (otel_signal errType rec s o') = pm_lastSeq (prom_signal s q)
    \<and> map translated (ot_calls (otel_signal errType rec s o')) = pm_calls (prom_signal s q)"
  using assms
  by (cases s) (auto simp: otel_add_def addEvent_def prom_add_def prom_BreakerTransition_def recordBreakerState_def underscores_def Let_def
      split: prod.splits option.splits)

lemma same_metrics:
  "ot_metrics o' \<Longrightarrow> ot_breakerSeq o' = pm_lastSeq q \<Longrightarrow> map translated (ot_calls o') = pm_calls q \<Longrightarrow>
   map translated (ot_calls (fold (\<lambda>(rec, s). otel_signal errType rec s) ss o')) = pm_calls (fold prom_signal (map snd ss) q)"
proof (induction ss arbitrary: o' q)
  case (Cons x ss)
  obtain rec s where x: "x = (rec, s)" by force
  from same_metrics_step[OF Cons.prems, of errType rec s] Cons.IH x show ?case by simp
qed simp

lemma no_metrics: "\<not> ot_metrics o' \<Longrightarrow> ot_calls (fold (\<lambda>(rec, s). otel_signal errType rec s) ss o') = ot_calls o'"
proof (induction ss arbitrary: o')
  case (Cons x ss)
  obtain rec s where x: "x = (rec, s)" by force
  have "\<not> ot_metrics (otel_signal errType rec s o') \<and> ot_calls (otel_signal errType rec s o') = ot_calls o'"
    using Cons.prems by (cases s) (auto simp: otel_add_def addEvent_def Let_def)
  with Cons.IH x show ?case by simp
qed simp

text \<open>The counter a signal increments; a Failure increments none.\<close>

definition counters :: "metric_call list \<Rightarrow> (string \<times> labels) list" where
  "counters cs = List.map_filter (\<lambda>c. case c of Inc n ls \<Rightarrow> Some (n, ls) | _ \<Rightarrow> None) cs"

definition counter_of :: "signal \<Rightarrow> (string \<times> labels) list" where
  "counter_of s = counters (pm_calls (prom_signal s prom_init))"

lemma counters_append [simp]: "counters (xs @ ys) = counters xs @ counters ys"
  by (induction xs) (auto simp: counters_def List.map_filter_simps split: metric_call.splits)

lemma counters_signal: "counters (pm_calls (prom_signal s q)) = counters (pm_calls q) @ counter_of s"
  by (cases s)
    (auto simp: counter_of_def counters_def prom_add_def prom_init_def prom_BreakerTransition_def List.map_filter_simps Let_def
      List.map_filter_def split: prod.splits option.splits)

lemma counters_run: "counters (pm_calls (fold prom_signal ss q)) = counters (pm_calls q) @ concat (map counter_of ss)"
  by (induction ss arbitrary: q) (simp_all add: counters_signal)

text \<open>The value of the breaker gauge of a handler after some calls.\<close>

fun gauge_after :: "string \<Rightarrow> metric_call list \<Rightarrow> int option \<Rightarrow> int option" where
  "gauge_after h [] g = g"
| "gauge_after h (SetGauge n ls v # cs) g = gauge_after h cs (if ls = [(''handler'', h)] then Some v else g)"
| "gauge_after h (_ # cs) g = gauge_after h cs g"

definition gauge_of :: "string \<Rightarrow> metric_call list \<Rightarrow> int option" where
  "gauge_of h cs = gauge_after h cs None"

lemma gauge_after_append: "gauge_after h (xs @ ys) g = gauge_after h ys (gauge_after h xs g)"
  by (induction h xs g rule: gauge_after.induct) auto

lemma gauge_add: "pm_calls (prom_add cs q) = pm_calls q @ cs" "pm_lastSeq (prom_add cs q) = pm_lastSeq q"
  by (simp_all add: prom_add_def)

text \<open>
  The transitions of a handler seen so far, with a known state: the table holds the largest
  sequence number among them, and the gauge the state of that transition.
\<close>

definition seen :: "string \<Rightarrow> signal list \<Rightarrow> breaker_transition set" where
  "seen h ss = {t. BreakerTransition t \<in> set ss \<and> bt_Handler t = h \<and> bt_To t \<noteq> BreakerUnknown}"

definition gauge_inv :: "string \<Rightarrow> 64 word \<Rightarrow> signal list \<Rightarrow> prom \<Rightarrow> bool" where
  "gauge_inv h b ss q \<longleftrightarrow> (case pm_lastSeq q (h, b) of
     None \<Rightarrow> seen h ss = {}
   | Some m \<Rightarrow> (\<forall>t \<in> seen h ss. bt_Seq t \<le> m) \<and> (\<exists>t \<in> seen h ss. bt_Seq t = m \<and> gauge_of h (pm_calls q) = gauge_value (bt_To t)))"

lemma seen_snoc: "seen h (ss @ [s]) = seen h ss \<union> (case s of BreakerTransition t \<Rightarrow>
    if bt_Handler t = h \<and> bt_To t \<noteq> BreakerUnknown then {t} else {} | _ \<Rightarrow> {})"
  by (auto simp: seen_def split: signal.splits)

lemma quiet_signal:
  assumes "case s of BreakerTransition t \<Rightarrow> bt_Handler t \<noteq> h \<or> bt_To t = BreakerUnknown | _ \<Rightarrow> True"
  shows "pm_lastSeq (prom_signal s q) (h, b) = pm_lastSeq q (h, b) \<and> gauge_of h (pm_calls (prom_signal s q)) = gauge_of h (pm_calls q)"
  using assms by (cases s)
    (auto simp: gauge_of_def gauge_add gauge_after_append prom_BreakerTransition_def gauge_step_def gauge_value_def Let_def split: option.splits BreakerState.splits)

lemma gauge_inv_step:
  assumes inv: "gauge_inv h b ss q" and id: "\<And>t. s = BreakerTransition t \<Longrightarrow> bt_Handler t = h \<Longrightarrow> bt_BreakerID t = b"
  shows "gauge_inv h b (ss @ [s]) (prom_signal s q)"
proof (cases "case s of BreakerTransition t \<Rightarrow> bt_Handler t \<noteq> h \<or> bt_To t = BreakerUnknown | _ \<Rightarrow> True")
  case True
  then have "seen h (ss @ [s]) = seen h ss" by (auto simp: seen_snoc split: signal.splits)
  with quiet_signal[OF True, of q b] inv show ?thesis by (simp add: gauge_inv_def cong: option.case_cong)
next
  case False
  then obtain t where t: "s = BreakerTransition t" "bt_Handler t = h" "bt_To t \<noteq> BreakerUnknown" by (cases s) auto
  then obtain v where v: "gauge_value (bt_To t) = Some v" by (cases "bt_To t") (auto simp: gauge_value_def)
  have seen: "seen h (ss @ [s]) = insert t (seen h ss)" using t by (simp add: seen_snoc)
  show ?thesis
  proof (cases "pm_lastSeq q (h, b)")
    case None
    with inv have "seen h ss = {}" by (simp add: gauge_inv_def)
    with None t v id seen show ?thesis
      by (simp add: gauge_inv_def prom_BreakerTransition_def gauge_step_def gauge_add gauge_of_def gauge_after_append Let_def)
  next
    case (Some m)
    with inv have m: "\<forall>x \<in> seen h ss. bt_Seq x \<le> m" "\<exists>x \<in> seen h ss. bt_Seq x = m \<and> gauge_of h (pm_calls q) = gauge_value (bt_To x)"
      by (auto simp: gauge_inv_def)
    show ?thesis
    proof (cases "bt_Seq t \<le> m")
      case True
      with Some t v id seen m show ?thesis
        by (auto simp: gauge_inv_def prom_BreakerTransition_def gauge_step_def gauge_add gauge_of_def gauge_after_append Let_def)
    next
      case False
      with Some t v id seen m(1) show ?thesis
        by (auto simp: gauge_inv_def prom_BreakerTransition_def gauge_step_def gauge_add gauge_of_def gauge_after_append Let_def)
    qed
  qed
qed

lemma gauge_inv_run:
  assumes "\<And>t. BreakerTransition t \<in> set ss \<Longrightarrow> bt_Handler t = h \<Longrightarrow> bt_BreakerID t = b"
  shows "gauge_inv h b ss (prom_run ss)"
  using assms
proof (induction ss rule: rev_induct)
  case Nil
  show ?case by (simp add: gauge_inv_def prom_run_def prom_init_def seen_def)
next
  case (snoc s ss)
  then have "gauge_inv h b ss (prom_run ss)" by simp
  from gauge_inv_step[OF this, of s] snoc.prems show ?case by (simp add: prom_run_def)
qed

text \<open>
  When the transitions of a handler come from one breaker, the gauge shows the state of the
  transition with the largest number, in whatever order they are delivered.
\<close>

lemma gauge_follows_newest:
  assumes "BreakerTransition t \<in> set ss" and "bt_To t \<noteq> BreakerUnknown"
    and "\<forall>t'. BreakerTransition t' \<in> set ss \<and> bt_Handler t' = bt_Handler t \<longrightarrow> bt_BreakerID t' = bt_BreakerID t
      \<and> bt_Seq t' \<le> bt_Seq t \<and> (bt_Seq t' = bt_Seq t \<longrightarrow> bt_To t' = bt_To t)"
  shows "gauge_of (bt_Handler t) (pm_calls (prom_run ss)) = gauge_value (bt_To t)"
proof -
  have inv: "gauge_inv (bt_Handler t) (bt_BreakerID t) ss (prom_run ss)" using assms(3) by (intro gauge_inv_run) auto
  have t: "t \<in> seen (bt_Handler t) ss" using assms(1, 2) by (simp add: seen_def)
  with inv obtain m where m: "pm_lastSeq (prom_run ss) (bt_Handler t, bt_BreakerID t) = Some m" by (auto simp: gauge_inv_def split: option.splits)
  with inv obtain x where x: "x \<in> seen (bt_Handler t) ss" "bt_Seq x = m" "gauge_of (bt_Handler t) (pm_calls (prom_run ss)) = gauge_value (bt_To x)"
    "bt_Seq t \<le> m" using t by (auto simp: gauge_inv_def)
  then have "bt_Seq x \<le> bt_Seq t" "bt_Seq x = bt_Seq t \<longrightarrow> bt_To x = bt_To t" using assms(3) by (auto simp: seen_def)
  with x show ?thesis by (metis order_antisym)
qed

text \<open>The gauge depends on the labels and values of the calls, so both observers show the same one.\<close>

lemma gauge_after_translated: "gauge_after h (map translated cs) g = gauge_after h cs g"
  by (induction h cs g rule: gauge_after.induct) auto

lemma same_gauge: "gauge_of h (ot_calls (otel_run errType True ss)) = gauge_of h (pm_calls (prom_run (map snd ss)))"
proof -
  have "map translated (ot_calls (otel_run errType True ss)) = pm_calls (prom_run (map snd ss))"
    unfolding otel_run_def prom_run_def by (rule same_metrics) (simp_all add: otel_init_def prom_init_def)
  then show ?thesis unfolding gauge_of_def by (metis gauge_after_translated)
qed

section \<open>Properties\<close>

text \<open>
  The two metrics observers agree and their counters are exact. For every sequence of
  signals, the metric calls of the telemetry observer with a MeterProvider, under the documented
  translation of names, are exactly those of the Prometheus observer, labels and order
  included, with or without a recording span; without a MeterProvider it makes none. The
  counters of the Prometheus observer are increased once per signal, and not for a Failure,
  which HandlerDone already counts.
\<close>

lemma metrics_agree:
  "map translated (ot_calls (otel_run errType True ss)) = pm_calls (prom_run (map snd ss)) \<and> ot_calls (otel_run errType False ss) = []
   \<and> counters (pm_calls (prom_run sigs)) = concat (map counter_of sigs) \<and> length (counter_of s) = (if is_Failure s then 0 else 1)"
proof (intro conjI)
  show "map translated (ot_calls (otel_run errType True ss)) = pm_calls (prom_run (map snd ss))"
    unfolding otel_run_def prom_run_def by (rule same_metrics) (simp_all add: otel_init_def prom_init_def)
  show "ot_calls (otel_run errType False ss) = []"
    unfolding otel_run_def by (subst no_metrics) (simp_all add: otel_init_def)
  show "counters (pm_calls (prom_run sigs)) = concat (map counter_of sigs)"
    unfolding prom_run_def counters_run by (simp add: prom_init_def counters_def List.map_filter_simps)
  show "length (counter_of s) = (if is_Failure s then 0 else 1)"
    by (cases s) (auto simp: counter_of_def counters_def prom_add_def prom_init_def prom_BreakerTransition_def List.map_filter_simps Let_def
        split: prod.splits option.splits)
qed

end
