(* ===== verification/Tracing.thy ===== *)
theory Tracing
  imports Dlq_Stream Metrics Invokers
begin

text \<open>
  The tracing invoker (telemetry/tracer.go): the consumer span around a handler execution and
  the span links of a replayed message. The OpenTelemetry tracer and the W3C propagator are
  fields of the model. The lemmas show that the invoker keeps the contract of every invoker,
  and that the links of a replayed message are those the Replayer wrote, in whatever order the
  header map is read.
\<close>

section \<open>Header names and numbers\<close>

text \<open>
  Case folding as far as a comparison with an ASCII string can tell: ASCII letters, and the two
  runes outside ASCII that fold with one, U+017F with s and U+212A with k.
\<close>

fun FoldCase :: "string \<Rightarrow> string" where
  "FoldCase [] = []"
| "FoldCase (c # cs) =
     (if byte c = 0xC5 \<and> (case cs of d # _ \<Rightarrow> byte d = 0xBF | [] \<Rightarrow> False) then CHR ''s'' # FoldCase (tl cs)
      else if byte c = 0xE2 \<and> (case cs of d # e # _ \<Rightarrow> byte d = 0x84 \<and> byte e = 0xAA | _ \<Rightarrow> False)
        then CHR ''k'' # FoldCase (tl (tl cs))
      else lower_byte c # FoldCase cs)"

definition EqualFold :: "string \<Rightarrow> string \<Rightarrow> bool" where
  "EqualFold s t \<longleftrightarrow> FoldCase s = FoldCase t"

definition headerValue :: "headers \<Rightarrow> string \<Rightarrow> string \<times> bool" where
  "headerValue h name = (case find (\<lambda>(k, v). EqualFold k name \<and> v \<noteq> []) h of
     Some (_, v # _) \<Rightarrow> (v, True) | _ \<Rightarrow> ([], False))"

text \<open>\<^verbatim>\<open>strings.TrimSpace\<close>: the width of a white space rune at the front, and at the back.\<close>

definition space_front :: "string \<Rightarrow> nat" where
  "space_front s = (case find (\<lambda>k. rune_width (take k s) = k \<and> is_space_rune (take k s)) [1, 2, 3] of Some k \<Rightarrow> k | None \<Rightarrow> 0)"

definition space_back :: "string \<Rightarrow> nat" where
  "space_back s = (case find (\<lambda>k. rune_width (drop (length s - k) s) = k \<and> is_space_rune (drop (length s - k) s)) [1, 2, 3] of Some k \<Rightarrow> k | None \<Rightarrow> 0)"

lemma space_front_less: "0 < space_front s \<Longrightarrow> length s - space_front s < length s"
  by (cases s) (simp_all add: space_front_def)

lemma space_back_less: "0 < space_back s \<Longrightarrow> length s - space_back s < length s"
  by (cases s) (simp_all add: space_back_def)

function TrimLeft :: "string \<Rightarrow> string" where
  "TrimLeft s = (if space_front s = 0 then s else TrimLeft (drop (space_front s) s))"
  by pat_completeness auto
termination
  by (relation "measure length") (simp_all add: space_front_less)

function TrimRight :: "string \<Rightarrow> string" where
  "TrimRight s = (if space_back s = 0 then s else TrimRight (take (length s - space_back s) s))"
  by pat_completeness auto
termination
  by (relation "measure length") (simp_all add: space_back_less)

declare TrimLeft.simps [simp del] TrimRight.simps [simp del]

definition TrimSpace :: "string \<Rightarrow> string" where
  "TrimSpace s = TrimRight (TrimLeft s)"

text \<open>\<^verbatim>\<open>strconv.ParseUint(s, 10, 64)\<close>; None is an error.\<close>

fun parse_digits :: "string \<Rightarrow> nat \<Rightarrow> nat option" where
  "parse_digits [] n = Some n"
| "parse_digits (c # cs) n = (if \<not> is_digit c then None
     else if 2 ^ 64 \<le> 10 * n + (byte c - 48) then None else parse_digits cs (10 * n + (byte c - 48)))"

definition ParseUint64 :: "string \<Rightarrow> 64 word option" where
  "ParseUint64 s = (if s = [] then None else map_option of_nat (parse_digits s 0))"

section \<open>Replay links\<close>

record 'sc span_link =
  ln_SpanContext :: 'sc
  ln_Type :: string

text \<open>\<open>Extract\<close> is the W3C propagator: the span context of a traceparent, when it is valid.\<close>

definition parseTraceparent :: "(string \<Rightarrow> 'sc option) \<Rightarrow> string \<Rightarrow> 'sc option" where
  "parseTraceparent Extract value = (if value = [] then None else Extract value)"

definition replay_link :: "(string \<Rightarrow> 'sc option) \<Rightarrow> string \<Rightarrow> string \<Rightarrow> 'sc span_link list" where
  "replay_link Extract value kind = (case parseTraceparent Extract value of None \<Rightarrow> [] | Some sc \<Rightarrow> [\<lparr>ln_SpanContext = sc, ln_Type = kind\<rparr>])"

definition replayLinks :: "(string \<Rightarrow> 'sc option) \<Rightarrow> delivery \<Rightarrow> 'sc span_link list \<times> attr list" where
  "replayLinks Extract d =
     (if d_Headers d = [] then ([], []) else
      (let (failed, hasFailed) = headerValue (d_Headers d) HeaderReplayFailedTraceparent;
           (replay, hasReplay) = headerValue (d_Headers d) HeaderReplayTraceparent;
           (sq, hasSeq) = headerValue (d_Headers d) HeaderReplayDLQSequence
       in if \<not> hasFailed \<and> \<not> hasReplay \<and> \<not> hasSeq then ([], []) else
          (replay_link Extract failed ''dead_letter'' @ replay_link Extract replay ''replay'',
           (''eventbus.replayed'', VBool True) # (case ParseUint64 (TrimSpace sq) of None \<Rightarrow> []
             | Some n \<Rightarrow> [(''eventbus.dlq.sequence'', VInt (sint n))]))))"

section \<open>The invoker\<close>

text \<open>What a span is started with, and the calls on it.\<close>

record 'sc span_start =
  ss_name :: string
  ss_attrs :: "attr list"
  ss_links :: "'sc span_link list"

datatype span_call = SpanRecordError error | SpanSetAttributes "attr list" | SpanSetStatusError string | SpanEnd

text \<open>
  The tracer: starting a span gives its handle, and \<open>tc_call\<close> runs a method of it. The context with
  the span carries the values of the context it comes from. \<open>tc_dest\<close> is the function of
  WithSpanDestination and \<open>tc_errType\<close> the value of the error.type attribute.
\<close>

record ('u, 'sc) tracer =
  tc_Start :: "ctx \<Rightarrow> 'sc span_start \<Rightarrow> 'u world \<Rightarrow> nat \<times> 'u world"
  tc_call :: "nat \<Rightarrow> span_call \<Rightarrow> 'u world \<Rightarrow> 'u world"
  tc_dest :: "(ctx \<Rightarrow> event \<Rightarrow> ('u, string) comp) option"
  tc_Extract :: "string \<Rightarrow> 'sc option"
  tc_errType :: "error \<Rightarrow> string"

definition span_destination :: "('u, 'sc) tracer \<Rightarrow> ctx \<Rightarrow> event \<Rightarrow> ('u, string) comp" where
  "span_destination T c evt w =
     (case (case tc_dest T of None \<Rightarrow> (Ret (case DeliveryFromContext c of None \<Rightarrow> [] | Some d \<Rightarrow> d_Subject d), w) | Some f \<Rightarrow> f c evt w) of
        (Panics v st, w1) \<Rightarrow> (Panics v st, w1)
      | (Ret dest, w1) \<Rightarrow> (Ret (if dest = [] then ev_Name evt else dest), w1))"

definition consumer_span :: "(string \<Rightarrow> 'sc option) \<Rightarrow> ctx \<Rightarrow> string \<Rightarrow> string \<Rightarrow> 'sc span_start" where
  "consumer_span Extract c handler dest =
     (let d = (case DeliveryFromContext c of None \<Rightarrow> zero_delivery | Some d \<Rightarrow> d);
          (links, replayAttrs) = replayLinks Extract d
      in \<lparr>ss_name = ''process '' @ dest,
          ss_attrs = [(''messaging.system'', VString (if d_System d = [] then ''eventbus'' else d_System d)),
              (''messaging.operation.name'', VString ''process''), (''messaging.operation.type'', VString ''process''),
              (''messaging.destination.name'', VString dest), (''eventbus.handler'', VString handler),
              (''eventbus.delivery_count'', VInt (d_Count d))]
            @ (case MetadataFromContext c of None \<Rightarrow> [] | Some md \<Rightarrow>
                 (if md_ID md \<noteq> [] then [(''messaging.message.id'', VString (md_ID md))] else [])
               @ (if md_CorrelationID md \<noteq> [] then [(''eventbus.correlation_id'', VString (md_CorrelationID md))] else []))
            @ replayAttrs,
          ss_links = links\<rparr>)"

text \<open>The calls on the span once the rest of the chain returned or panicked: End is deferred.\<close>

definition span_calls :: "(error \<Rightarrow> string) \<Rightarrow> error option result \<Rightarrow> span_call list" where
  "span_calls errType r = (case r of
     Ret (Some err) \<Rightarrow> if errors_Is err ErrDuplicate then []
       else [SpanRecordError err, SpanSetAttributes [(''error.type'', VString (errType err))], SpanSetStatusError (Error_text err)]
   | _ \<Rightarrow> []) @ [SpanEnd]"

definition TracerInvoker_Invoke :: "('u, 'sc) tracer \<Rightarrow> 'u invoker" where
  "TracerInvoker_Invoke T c evt handler next w =
     (case span_destination T c evt w of
        (Panics v st, w1) \<Rightarrow> (Panics v st, w1)
      | (Ret dest, w1) \<Rightarrow>
          (case tc_Start T c (consumer_span (tc_Extract T) c handler dest) w1 of (sp, w2) \<Rightarrow>
           (case next c w2 of (r, w3) \<Rightarrow> (r, fold (tc_call T sp) (span_calls (tc_errType T) r) w3))))"

section \<open>The invoker contract\<close>

text \<open>The tracer and the destination function do not report for a delivery.\<close>

locale tracer_sdk =
  fixes T :: "('u, 'sc) tracer"
  assumes quiet_Start: "sid < w_next w \<Longrightarrow> quiet_step sid w (snd (tc_Start T c st w))"
    and quiet_call: "sid < w_next w \<Longrightarrow> quiet_step sid w (tc_call T sp call w)"
    and quiet_dest: "tc_dest T = Some f \<Longrightarrow> quiet sid (f c evt)"
begin

lemma quiet_calls: "sid < w_next w \<Longrightarrow> quiet_step sid w (fold (tc_call T sp) cs w)"
proof (induction cs arbitrary: w)
  case (Cons call cs)
  from quiet_call[OF Cons.prems] have q: "quiet_step sid w (tc_call T sp call w)" .
  moreover from this have "sid < w_next (tc_call T sp call w)" using Cons.prems quiet_step_next by fastforce
  ultimately show ?case using Cons.IH by (auto intro: quiet_step_trans)
qed simp

lemma quiet_span_destination: "quiet sid (span_destination T c evt)"
proof (rule quietI)
  fix w r w'
  assume "sid < w_next w" "span_destination T c evt w = (r, w')"
  then show "quiet_step sid w w'"
    by (auto simp: span_destination_def split: option.splits prod.splits result.splits dest: quiet_stepD[OF quiet_dest])
qed

end

sublocale tracer_sdk \<subseteq> tracing: quiet_invoker "TracerInvoker_Invoke T"
proof unfold_locales
  fix sid :: nat and "next" :: "'u handler" and c evt h
  assume nx: "quiet_handler sid next"
  show "quiet sid (TracerInvoker_Invoke T c evt h next)"
  proof (rule quietI)
    fix w r w'
    assume n: "sid < w_next w" and run: "TracerInvoker_Invoke T c evt h next w = (r, w')"
    obtain r1 w1 where d: "span_destination T c evt w = (r1, w1)" by fastforce
    have q1: "quiet_step sid w w1" by (rule quiet_stepD[OF quiet_span_destination n d])
    then have n1: "sid < w_next w1" using n quiet_step_next by fastforce
    show "quiet_step sid w w'"
    proof (cases r1)
      case (Panics v st)
      with run d q1 show ?thesis by (simp add: TracerInvoker_Invoke_def)
    next
      case (Ret dest)
      obtain sp w2 where s: "tc_Start T c (consumer_span (tc_Extract T) c h dest) w1 = (sp, w2)" by fastforce
      with quiet_Start[OF n1] have q2: "quiet_step sid w1 w2" by (metis snd_conv)
      then have n2: "sid < w_next w2" using n1 quiet_step_next by fastforce
      obtain r3 w3 where x: "next c w2 = (r3, w3)" by fastforce
      have q3: "quiet_step sid w2 w3" by (rule quiet_handlerD[OF nx n2 x])
      then have "sid < w_next w3" using n2 quiet_step_next by fastforce
      note q4 = quiet_calls[OF this, of sp "span_calls (tc_errType T) r3"]
      from run d Ret s x have "w' = fold (tc_call T sp) (span_calls (tc_errType T) r3) w3"
        by (auto simp: TracerInvoker_Invoke_def)
      with quiet_step_trans[OF q1 quiet_step_trans[OF q2 quiet_step_trans[OF q3 q4]]] show ?thesis by simp
    qed
  qed
qed

context tracer_sdk
begin

lemma quiet_TracerInvoker: "quiet_invoker (TracerInvoker_Invoke T)"
  by (rule tracing.quiet_invoker_axioms)

end

text \<open>Without a provider the spans are those of the no-op tracer.\<close>

definition noop_tracer :: "('u, 'sc) tracer" where
  "noop_tracer = \<lparr>tc_Start = (\<lambda>_ _ w. (0, w)), tc_call = (\<lambda>_ _ w. w), tc_dest = None, tc_Extract = (\<lambda>_. None), tc_errType = (\<lambda>_. ''*errors.errorString'')\<rparr>"

interpretation noop: tracer_sdk noop_tracer
  by unfold_locales (simp_all add: noop_tracer_def)

text \<open>With the no-op tracer the invoker is transparent.\<close>

lemma fold_ignore: "fold (\<lambda>_ w. w) xs w = w"
  by (induction xs) simp_all

lemma noop_tracer_transparent: "TracerInvoker_Invoke noop_tracer c evt h next w = next c w"
  by (simp add: TracerInvoker_Invoke_def span_destination_def noop_tracer_def fold_ignore split: prod.splits)

text \<open>Every span is ended exactly once, as the last call, and fails exactly for an error that is no duplicate.\<close>

lemma span_calls_end:
  "last (span_calls errType r) = SpanEnd \<and> count_list (span_calls errType r) SpanEnd = 1
   \<and> ((\<exists>s. SpanSetStatusError s \<in> set (span_calls errType r)) = (\<exists>err. r = Ret (Some err) \<and> \<not> errors_Is err ErrDuplicate))"
  by (cases r) (auto simp: span_calls_def split: option.splits)

section \<open>The links of a replayed message\<close>

text \<open>The decimal text of a number parses to it.\<close>

lemma parse_digits_append:
  "parse_digits (xs @ ys) n = Option.bind (parse_digits xs n) (parse_digits ys)"
  by (induction xs arbitrary: n) simp_all

lemma parse_nat_text: "n < 2 ^ 64 \<Longrightarrow> parse_digits (nat_text n) 0 = Some n"
proof (induction n rule: nat_text.induct)
  case (1 n)
  have d: "is_digit (char_of (48 + m :: nat))" "byte (char_of (48 + m :: nat)) = 48 + m" if "m < 10" for m
    using that by (simp_all add: is_digit_char_of)
  show ?case
  proof (cases "n < 10")
    case True
    then show ?thesis using d[of n] 1 by (simp add: nat_text.simps[of n])
  next
    case False
    with 1 have "parse_digits (nat_text (n div 10)) 0 = Some (n div 10)" by simp
    with False d[of "n mod 10"] 1 show ?thesis
      by (simp add: nat_text.simps[of n] parse_digits_append)
  qed
qed

text \<open>Digits are no white space.\<close>

lemma space_digit: "is_digit c \<Longrightarrow> \<not> is_space_rune (c # cs)"
  by (auto simp: is_digit_def is_space_rune_def split: list.splits)

lemma space_digit_back:
  assumes "is_digit c" and "rune_width (cs @ [c]) = Suc k" and "length cs = k"
  shows "\<not> is_space_rune (cs @ [c])"
proof (cases cs)
  case Nil
  with assms(1) show ?thesis by (simp add: space_digit)
next
  case (Cons b bs)
  obtain x xs where "cs @ [c] = x # xs" "list_all cont (take k xs)" using assms(2) by (rule rune_width_cases)
  with Cons assms(3) have "cont c" by auto
  with assms(1) show ?thesis by (simp add: cont_def is_digit_def)
qed

lemma TrimSpace_digits:
  assumes "s \<noteq> []" and "\<forall>c \<in> set s. is_digit c"
  shows "TrimSpace s = s"
proof -
  from assms obtain c cs where c: "s = c # cs" "is_digit c" by (cases s) auto
  from assms obtain bs b where b: "s = bs @ [b]" "is_digit b" by (cases s rule: rev_cases) auto
  have "space_front s = 0"
    using c space_digit by (auto simp: space_front_def take_Cons' split: option.splits if_splits)
  moreover have "\<not> is_space_rune (drop (length s - k) s)" if "1 \<le> k" "rune_width (drop (length s - k) s) = k" for k
  proof -
    have "k \<le> length s" using that(2) rune_width_le[of "drop (length s - k) s"] by simp
    with that b space_digit_back[OF b(2), of "drop (length s - k) bs" "k - 1"] show ?thesis by simp
  qed
  then have "space_back s = 0" by (auto simp: space_back_def)
  ultimately show ?thesis by (simp add: TrimSpace_def TrimLeft.simps[of s] TrimRight.simps[of s])
qed

lemma ParseUint64_Itoa:
  assumes "0 \<le> n" and "n < 2 ^ 64"
  shows "ParseUint64 (TrimSpace (Itoa n)) = Some (of_int n)"
proof -
  from assms have i: "Itoa n = nat_text (nat n)" by (simp add: Itoa_def)
  have "parse_digits (nat_text (nat n)) 0 = Some (nat n)" using assms by (intro parse_nat_text) (simp add: nat_less_iff)
  with i TrimSpace_digits[of "nat_text (nat n)"] nat_text_digits[of "nat n"] assms show ?thesis
    by (simp add: ParseUint64_def)
qed

text \<open>An ASCII name folds to its lower case form.\<close>

definition ascii :: "string \<Rightarrow> bool" where
  "ascii s \<longleftrightarrow> list_all (\<lambda>c. byte c < 128) s"

lemma FoldCase_ascii: "ascii s \<Longrightarrow> FoldCase s = ToLower s"
  by (induction s) (simp_all add: ascii_def)

lemmas replay_name_defs = HeaderReplayTraceparent_def HeaderReplayFailedTraceparent_def HeaderReplayDLQSequence_def MsgIDHeader_def

definition replay_names :: "string set" where
  "replay_names = {HeaderReplayTraceparent, HeaderReplayFailedTraceparent, HeaderReplayDLQSequence}"

lemma replay_names_ascii: "N \<in> replay_names \<Longrightarrow> ascii N \<and> replay_key N"
  by (auto simp: replay_names_def ascii_def) (auto simp: replay_name_defs)

lemma replay_names_fold:
  "N \<in> replay_names \<Longrightarrow> k \<in> replay_set_keys \<Longrightarrow> EqualFold k N \<Longrightarrow> k = N"
  by (auto simp: replay_names_def replay_set_keys_def EqualFold_def)
    (simp_all add: replay_name_defs lower_byte_def char_of_def bit_0)

lemma header_set_mem: "kv \<in> set (header_set k v h) \<Longrightarrow> kv = (k, [v]) \<or> kv \<in> set h"
  by (induction h) (auto simp: header_set_def split: if_splits)

lemma header_set_distinct: "distinct (map fst h) \<Longrightarrow> distinct (map fst (header_set k v h))"
  by (simp add: header_set_def distinct_update)

lemma replay_header_keys:
  "kv \<in> set (replay_msg_headers R c opts src target sq) \<Longrightarrow> fst kv \<in> replay_set_keys \<or> kv \<in> set src \<and> \<not> replay_key (fst kv)"
  by (auto simp: replay_msg_headers_def Let_def replayHeaders_def replay_set_keys_def split: option.splits if_splits
      dest!: header_set_mem)

lemma replay_header_distinct:
  assumes "distinct (map fst src)"
  shows "distinct (map fst (replay_msg_headers R c opts src target sq))"
proof -
  have "distinct (map fst (replayHeaders src))"
    using assms by (simp add: replayHeaders_def distinct_map_filter)
  then show ?thesis by (simp add: replay_msg_headers_def Let_def header_set_distinct split: option.splits)
qed

text \<open>The three names have at most one header, whatever the order of the map.\<close>

lemma headerValue_replay:
  assumes src: "distinct (map fst src)" "\<forall>kv \<in> set src. ascii (fst kv)"
    and hs: "set hs = set (replay_msg_headers R c opts src target sq)" and N: "N \<in> replay_names"
  shows "headerValue hs N = (case map_of (replay_msg_headers R c opts src target sq) N of Some (v # _) \<Rightarrow> (v, True) | _ \<Rightarrow> ([], False))"
    proof -
  let ?H = "replay_msg_headers R c opts src target sq"
  have only: "fst kv = N" if "kv \<in> set ?H" "EqualFold (fst kv) N" for kv
    using replay_header_keys[OF that(1)]
  proof
    assume "fst kv \<in> replay_set_keys"
    from replay_names_fold[OF N this that(2)] show ?thesis .
  next
    assume k: "kv \<in> set src \<and> \<not> replay_key (fst kv)"
    with src(2) have "ToLower (fst kv) = ToLower N"
      using that(2) replay_names_ascii[OF N] by (simp add: EqualFold_def FoldCase_ascii)
    with k replay_names_ascii[OF N] show ?thesis by (simp add: replay_key_def)
  qed
  note dist = replay_header_distinct[OF src(1), of R c opts target sq]
  have mo: "map_of ?H N = Some v" if "(k, v) \<in> set hs" "EqualFold k N" for k v
    using only[of "(k, v)"] that hs map_of_is_SomeI[OF dist, of k v] by simp
  let ?P = "\<lambda>(k, v). EqualFold k N \<and> v \<noteq> []"
  show ?thesis
  proof (cases "find ?P hs")
    case None
    then have "\<not> (EqualFold k N \<and> v \<noteq> [])" if "(k, v) \<in> set hs" for k v using that by (auto simp: find_None_iff)
    then have "map_of ?H N = None \<or> map_of ?H N = Some []"
      using hs by (cases "map_of ?H N") (auto dest!: map_of_SomeD simp: EqualFold_def)
    with None show ?thesis by (auto simp: headerValue_def)
  next
    case (Some kv)
    then obtain i where "i < length hs" "kv = hs ! i" "?P kv" by (auto simp: find_Some_iff)
    then have "kv \<in> set hs" "?P kv" by simp_all
    with mo[of "fst kv" "snd kv"] have "map_of ?H N = Some (snd kv)" by (auto simp: case_prod_beta)
    with Some show ?thesis by (simp add: headerValue_def case_prod_beta)
  qed
qed

lemma replay_header_values:
  assumes "H = replay_msg_headers R c opts src target (Some n)"
  shows "map_of H HeaderReplayTraceparent = (if rp_spanTraceparent R c target \<noteq> [] then Some [rp_spanTraceparent R c target] else None)"
    and "map_of H HeaderReplayFailedTraceparent = (let f = header_get src HeaderDLQTraceparent in
       if f \<noteq> [] \<and> rp_validTraceparent R f then Some [f] else None)"
    and "map_of H HeaderReplayDLQSequence = Some [Itoa n]"
proof -
  have d: "HeaderReplayTraceparent \<noteq> HeaderReplayFailedTraceparent" "HeaderReplayTraceparent \<noteq> HeaderReplayDLQSequence"
    "HeaderReplayTraceparent \<noteq> MsgIDHeader" "HeaderReplayFailedTraceparent \<noteq> HeaderReplayDLQSequence"
    "HeaderReplayFailedTraceparent \<noteq> MsgIDHeader"
    by (simp_all add: replay_name_defs)
  show "map_of H HeaderReplayTraceparent = (if rp_spanTraceparent R c target \<noteq> [] then Some [rp_spanTraceparent R c target] else None)"
    "map_of H HeaderReplayFailedTraceparent = (let f = header_get src HeaderDLQTraceparent in
       if f \<noteq> [] \<and> rp_validTraceparent R f then Some [f] else None)"
    "map_of H HeaderReplayDLQSequence = Some [Itoa n]"
    using d by (simp_all add: assms replay_msg_headers_def Let_def replayHeaders_def map_of_filter_key)
qed

text \<open>
  The names of the Replayer filter are compared in lower case, those of the invoker by folding:
  a name with a long s passes the first and matches the second, so the ASCII premise is needed.
\<close>

lemma long_s_forges:
  defines "k \<equiv> ''eventbu'' @ [char_of (0xC5 :: nat), char_of (0xBF :: nat)] @ ''-Replay-Dlq-Sequence''"
  shows "\<not> (dlq_key k \<or> replay_key k \<or> nats_key k) \<and> EqualFold k HeaderReplayDLQSequence"
  by (simp add: k_def dlq_key_def replay_key_def nats_key_def EqualFold_def HeaderReplayDLQSequence_def lower_byte_def char_of_def bit_0)

section \<open>Properties\<close>


definition linking_replayer :: "nats_msg list replayer" where
  "linking_replayer = sample_replayer\<lparr>rp_spanTraceparent := (\<lambda>_ _. ''00-b''), rp_validTraceparent := (\<lambda>t. t \<noteq> ''bad'')\<rparr>"


end
