(* ===== verification/Ids.thy ===== *)
theory Ids
  imports Prelude
begin

text \<open>
  The UUIDv7 generator (id.go): a 48-bit millisecond timestamp followed by a 12-bit
  counter, formatted as lowercase hexadecimal. The lemmas show that the ids of one
  generator are strictly increasing as strings, whatever the clock does, and have the
  shape of an RFC 9562 UUIDv7. The clock reading and the random bytes are arguments.
\<close>

unbundle bit_operations_syntax

section \<open>Definitions\<close>

record idgen =
  ig_lastMS :: int
  ig_seq :: "16 word"

definition defaultIDGen :: idgen where
  "defaultIDGen = \<lparr>ig_lastMS = 0, ig_seq = 0\<rparr>"

definition seed :: "8 word list \<Rightarrow> 16 word" where
  "seed b = (push_bit 8 (ucast (b ! 6)) OR ucast (b ! 7)) AND 0x07FF"

text \<open>The critical section of next: the clock reads \<open>ms\<close>, the random bytes are \<open>b\<close>.\<close>

definition idgen_step :: "8 word list \<Rightarrow> int \<Rightarrow> idgen \<Rightarrow> idgen" where
  "idgen_step b ms g =
     (if ms > ig_lastMS g then \<lparr>ig_lastMS = ms, ig_seq = seed b\<rparr>
      else if ig_seq g + 1 > 0x0FFF then \<lparr>ig_lastMS = ig_lastMS g + 1, ig_seq = seed b\<rparr>
      else g\<lparr>ig_seq := ig_seq g + 1\<rparr>)"

definition hexdigits :: string where
  "hexdigits = ''0123456789abcdef''"

definition hexdigit :: "nat \<Rightarrow> char" where
  "hexdigit n = hexdigits ! n"

definition hex_byte :: "8 word \<Rightarrow> string" where
  "hex_byte b = [hexdigit (unat b div 16), hexdigit (unat b mod 16)]"

definition hex_Encode :: "8 word list \<Rightarrow> string" where
  "hex_Encode bs = concat (map hex_byte bs)"

definition slice :: "nat \<Rightarrow> nat \<Rightarrow> 'a list \<Rightarrow> 'a list" where
  "slice i j xs = take (j - i) (drop i xs)"

definition formatUUID :: "8 word list \<Rightarrow> string" where
  "formatUUID b = hex_Encode (slice 0 4 b) @ ''-'' @ hex_Encode (slice 4 6 b) @ ''-''
     @ hex_Encode (slice 6 8 b) @ ''-'' @ hex_Encode (slice 8 10 b) @ ''-'' @ hex_Encode (slice 10 16 b)"

text \<open>The bytes of an id: timestamp, version and counter, variant, random tail.\<close>

definition id_bytes :: "8 word list \<Rightarrow> idgen \<Rightarrow> 8 word list" where
  "id_bytes b g =
     (let ts = word_of_int (ig_lastMS g) :: 64 word; seq = ig_seq g in
      [ucast (drop_bit 40 ts), ucast (drop_bit 32 ts), ucast (drop_bit 24 ts), ucast (drop_bit 16 ts),
       ucast (drop_bit 8 ts), ucast ts,
       0x70 OR ucast (drop_bit 8 seq), ucast seq, (b ! 8 AND 0x3F) OR 0x80] @ slice 9 16 b)"

definition next_id :: "8 word list \<Rightarrow> int \<Rightarrow> idgen \<Rightarrow> string \<times> idgen" where
  "next_id b ms g = (let g' = idgen_step b ms g in (formatUUID (id_bytes b g'), g'))"

section \<open>Byte order of strings\<close>

text \<open>Go compares strings byte by byte.\<close>

fun str_less :: "nat list \<Rightarrow> nat list \<Rightarrow> bool" where
  "str_less _ [] \<longleftrightarrow> False"
| "str_less [] (y # ys) \<longleftrightarrow> True"
| "str_less (x # xs) (y # ys) \<longleftrightarrow> x < y \<or> x = y \<and> str_less xs ys"

definition bytes_of :: "string \<Rightarrow> nat list" where
  "bytes_of s = map of_char s"

definition string_less :: "string \<Rightarrow> string \<Rightarrow> bool" where
  "string_less s t \<longleftrightarrow> str_less (bytes_of s) (bytes_of t)"

lemma str_less_append: "length xs = length ys \<Longrightarrow> str_less xs ys \<Longrightarrow> str_less (xs @ us) (ys @ vs)"
  by (induction xs ys rule: str_less.induct) auto

lemma str_less_same: "str_less (us @ xs) (us @ ys) \<longleftrightarrow> str_less xs ys"
  by (induction us) auto

lemma str_less_trans: "str_less xs ys \<Longrightarrow> str_less ys zs \<Longrightarrow> str_less xs zs"
  by (induction xs ys arbitrary: zs rule: str_less.induct) (case_tac zs; auto)+

lemma str_less_irrefl: "\<not> str_less xs xs"
  by (induction xs) auto

section \<open>Hexadecimal is monotone\<close>

lemma hexdigit_mono:
  assumes "i < j" and "j < 16"
  shows "(of_char (hexdigit i) :: nat) < of_char (hexdigit j)"
proof -
  have "sorted_wrt (<) (map (of_char :: char \<Rightarrow> nat) hexdigits)" by (simp add: hexdigits_def)
  moreover have "length hexdigits = 16" by (simp add: hexdigits_def)
  ultimately show ?thesis
    using sorted_wrt_nth_less[of "(<)" "map of_char hexdigits :: nat list" i j] assms
    by (simp add: hexdigit_def)
qed

lemma unat_byte: "unat (b :: 8 word) < 256"
  using unsigned_less[of b] by simp

lemma hex_byte_mono: "a < b \<Longrightarrow> str_less (bytes_of (hex_byte a)) (bytes_of (hex_byte b))"
proof -
  assume "a < b"
  then have lt: "unat a < unat b" by (simp add: word_less_nat_alt)
  have b: "unat b div 16 < 16" using unat_byte[of b] by simp
  show ?thesis
  proof (cases "unat a div 16 < unat b div 16")
    case True
    with hexdigit_mono[OF True b] show ?thesis by (simp add: bytes_of_def hex_byte_def)
  next
    case False
    with lt have d: "unat a div 16 = unat b div 16" by (simp add: div_le_mono le_antisym)
    with lt have m: "unat a mod 16 < unat b mod 16"
      by (metis div_mult_mod_eq nat_add_left_cancel_less)
    with d hexdigit_mono[OF m] show ?thesis by (simp add: bytes_of_def hex_byte_def)
  qed
qed

fun bytes_less :: "8 word list \<Rightarrow> 8 word list \<Rightarrow> bool" where
  "bytes_less (x # xs) (y # ys) \<longleftrightarrow> x < y \<or> x = y \<and> bytes_less xs ys"
| "bytes_less _ _ \<longleftrightarrow> False"

text \<open>Bytes with the separators that follow them.\<close>

fun render :: "8 word list \<Rightarrow> string list \<Rightarrow> string" where
  "render (b # bs) (s # ss) = hex_byte b @ s @ render bs ss"
| "render _ _ = []"

lemma length_hex_byte [simp]: "length (hex_byte b) = 2"
  by (simp add: hex_byte_def)

lemma render_less:
  "bytes_less xs ys \<Longrightarrow> length xs \<le> length ss \<Longrightarrow> length ys = length xs \<Longrightarrow>
     str_less (bytes_of (render xs ss)) (bytes_of (render ys ss))"
proof (induction xs ys arbitrary: ss rule: bytes_less.induct)
  case (1 x xs y ys)
  then obtain s ss' where ss: "ss = s # ss'" by (cases ss) auto
  show ?case
  proof (cases "x < y")
    case True
    with ss hex_byte_mono[OF True] show ?thesis
      by (simp add: bytes_of_def str_less_append)
  next
    case False
    with 1 ss show ?thesis by (simp add: bytes_of_def str_less_same flip: append_assoc)
  qed
qed auto

lemma length_render: "length xs = length ys \<Longrightarrow> length (render xs ss) = length (render ys ss)"
proof (induction xs ys arbitrary: ss rule: list_induct2)
  case (Cons x xs y ys)
  then show ?case by (cases ss) auto
qed simp

definition head_seps :: "string list" where
  "head_seps = [[], [], [], ''-'', [], ''-'', [], ''-'']"

lemma formatUUID_head:
  "formatUUID (a0 # a1 # a2 # a3 # a4 # a5 # a6 # a7 # rest) =
     render [a0, a1, a2, a3, a4, a5, a6, a7] head_seps
       @ hex_Encode (slice 0 2 rest) @ ''-'' @ hex_Encode (slice 2 8 rest)"
  by (simp add: formatUUID_def slice_def hex_Encode_def head_seps_def)

lemma formatUUID_less:
  assumes "bytes_less [a0, a1, a2, a3, a4, a5, a6, a7] [b0, b1, b2, b3, b4, b5, b6, b7]"
    (is "bytes_less ?a ?b")
  shows "string_less (formatUUID (a0 # a1 # a2 # a3 # a4 # a5 # a6 # a7 # r))
    (formatUUID (b0 # b1 # b2 # b3 # b4 # b5 # b6 # b7 # q))"
proof -
  have "str_less (bytes_of (render ?a head_seps)) (bytes_of (render ?b head_seps))"
    by (rule render_less[OF assms]) (simp_all add: head_seps_def)
  moreover have "length (bytes_of (render ?a head_seps)) = length (bytes_of (render ?b head_seps))"
    using length_render[of ?a ?b head_seps] by (simp add: bytes_of_def)
  ultimately show ?thesis
    unfolding formatUUID_head string_less_def by (simp only: bytes_of_def map_append str_less_append)
qed

section \<open>Timestamp and counter\<close>

fun be :: "nat \<Rightarrow> nat \<Rightarrow> 8 word list" where
  "be 0 n = []"
| "be (Suc k) n = of_nat (n div 256 ^ k) # be k n"

lemma byte_of_nat: "k < 256 \<Longrightarrow> unat (of_nat k :: 8 word) = k"
  by (simp add: unsigned_of_nat take_bit_nat_eq_self)

lemma be_numeral: "be (numeral k) n = of_nat (n div 256 ^ pred_numeral k) # be (pred_numeral k) n"
  by (simp add: numeral_eq_Suc)

lemma of_nat_byte_less:
  assumes "a < b" and "a div 256 = b div 256"
  shows "(of_nat a :: 8 word) < of_nat b"
proof -
  have "a mod 256 < b mod 256" using assms by (metis div_mult_mod_eq nat_add_left_cancel_less)
  then show ?thesis by (simp add: word_less_nat_alt unsigned_of_nat take_bit_eq_mod)
qed

lemma be_less_aux: "m < n \<Longrightarrow> m div 256 ^ k = n div 256 ^ k \<Longrightarrow> bytes_less (be k m) (be k n)"
proof (induction k)
  case (Suc k)
  show ?case
  proof (cases "m div 256 ^ k = n div 256 ^ k")
    case True
    with Suc show ?thesis by simp
  next
    case False
    then have "m div 256 ^ k < n div 256 ^ k" using Suc.prems(1) by (simp add: div_le_mono nat_less_le)
    moreover have "m div 256 ^ k div 256 = n div 256 ^ k div 256"
      using Suc.prems(2) by (simp add: div_mult2_eq[symmetric] mult.commute)
    ultimately show ?thesis by (simp add: of_nat_byte_less)
  qed
qed simp

lemma be_less: "m < n \<Longrightarrow> n < 256 ^ k \<Longrightarrow> bytes_less (be k m) (be k n)"
  by (rule be_less_aux) simp_all

lemma bytes_less_append: "length xs = length ys \<Longrightarrow> bytes_less xs ys \<Longrightarrow> bytes_less (xs @ us) (ys @ vs)"
  by (induction xs ys rule: bytes_less.induct) auto

lemma bytes_less_same: "bytes_less (us @ xs) (us @ ys) \<longleftrightarrow> bytes_less xs ys"
  by (induction us) auto

lemma length_be [simp]: "length (be k n) = k"
  by (induction k) auto

text \<open>The first eight bytes of an id are the timestamp and the tagged counter, big-endian.\<close>

lemma ts_byte:
  assumes "n < 2 ^ 48"
  shows "(ucast (drop_bit k (word_of_int (int n) :: 64 word)) :: 8 word) = of_nat (n div 2 ^ k)"
proof -
  have "take_bit 64 (int n) = int n" using assms by (intro take_bit_int_eq_self) auto
  then show ?thesis
    by transfer (simp add: drop_bit_eq_div zdiv_int)
qed


lemma seed_le: "unat (seed b) \<le> 0x7FF"
proof -
  have "seed b \<le> 0x07FF" unfolding seed_def by (rule word_and_le1)
  then show ?thesis by (simp add: word_le_nat_alt)
qed

lemma or_70: "x < 16 \<Longrightarrow> (0x70 :: 8 word) OR of_nat x = of_nat (0x70 + x)"
proof -
  have "\<forall>x \<in> set [0..<16]. (0x70 :: 8 word) OR of_nat x = of_nat (0x70 + x)"
    by (simp add: upt_rec)
  then show "x < 16 \<Longrightarrow> (0x70 :: 8 word) OR of_nat x = of_nat (0x70 + x)" by auto
qed

lemma seq_byte: "(ucast (drop_bit k (s :: 16 word)) :: 8 word) = of_nat (unat s div 2 ^ k)"
proof -
  have "take_bit 16 (unat s) = unat s"
    using unsigned_less[of s] by (intro take_bit_nat_eq_self) simp
  then have "unat (drop_bit k s) = unat s div 2 ^ k"
    by (simp add: unsigned_drop_bit_eq flip: drop_bit_eq_div)
  then show ?thesis using of_nat_unat[of "drop_bit k s", where ?'a = "8 word"] by simp
qed

definition gen_ok :: "idgen \<Rightarrow> bool" where
  "gen_ok g \<longleftrightarrow> 0 \<le> ig_lastMS g \<and> unat (ig_seq g) \<le> 0xFFF"

lemma id_bytes_be:
  assumes "gen_ok g" and "ig_lastMS g < 2 ^ 48"
  shows "id_bytes b g = be 6 (nat (ig_lastMS g)) @ be 2 (0x7000 + unat (ig_seq g))
    @ ((b ! 8 AND 0x3F) OR 0x80) # slice 9 16 b"
proof -
  define n where "n = nat (ig_lastMS g)"
  have n: "ig_lastMS g = int n" "n < 2 ^ 48" using assms by (auto simp: n_def gen_ok_def)
  have s: "unat (ig_seq g) div 256 < 16" "unat (ig_seq g) \<le> 0xFFF" using assms(1) by (auto simp: gen_ok_def)
  have "(0x7000 + unat (ig_seq g)) div 256 = 0x70 + unat (ig_seq g) div 256" by simp
  then have b6: "0x70 OR ucast (drop_bit 8 (ig_seq g)) = (of_nat ((0x7000 + unat (ig_seq g)) div 256) :: 8 word)"
    using or_70[OF s(1)] seq_byte[of 8 "ig_seq g"] by simp
  have b7: "ucast (ig_seq g) = (of_nat (0x7000 + unat (ig_seq g)) :: 8 word)"
    using seq_byte[of 0 "ig_seq g"] by simp
  show ?thesis
    using ts_byte[OF n(2), of 40] ts_byte[OF n(2), of 32] ts_byte[OF n(2), of 24] ts_byte[OF n(2), of 16]
      ts_byte[OF n(2), of 8] ts_byte[OF n(2), of 0] b6 b7
    by (simp add: id_bytes_def Let_def n(1) be_numeral)
qed

lemma idgen_step_ok:
  assumes "gen_ok g"
  shows "gen_ok (idgen_step b ms g)"
    and "ig_lastMS g < ig_lastMS (idgen_step b ms g)
      \<or> ig_lastMS g = ig_lastMS (idgen_step b ms g) \<and> unat (ig_seq g) < unat (ig_seq (idgen_step b ms g))"
proof -
  have p1: "unat (ig_seq g + 1) = unat (ig_seq g) + 1"
    using assms unat_add_lem[of "ig_seq g" 1] by (auto simp: gen_ok_def)
  have cmp: "ig_seq g + 1 > 0x0FFF \<longleftrightarrow> unat (ig_seq g) + 1 > 0xFFF"
    unfolding word_less_nat_alt p1 by simp
  show "gen_ok (idgen_step b ms g)"
    using assms seed_le[of b] p1 cmp by (auto simp: idgen_step_def gen_ok_def)
  show "ig_lastMS g < ig_lastMS (idgen_step b ms g)
      \<or> ig_lastMS g = ig_lastMS (idgen_step b ms g) \<and> unat (ig_seq g) < unat (ig_seq (idgen_step b ms g))"
    using p1 by (auto simp: idgen_step_def)
qed

lemma id_bytes_eight:
  assumes "gen_ok g" and "ig_lastMS g < 2 ^ 48"
  obtains a0 a1 a2 a3 a4 a5 a6 a7 r where "id_bytes b g = a0 # a1 # a2 # a3 # a4 # a5 # a6 # a7 # r"
    "[a0, a1, a2, a3, a4, a5, a6, a7] = be 6 (nat (ig_lastMS g)) @ be 2 (0x7000 + unat (ig_seq g))"
  using id_bytes_be[OF assms, of b] by (simp add: be_numeral)

text \<open>A later (timestamp, counter) pair gives a greater id, whatever the random tail.\<close>

lemma id_less:
  assumes g: "gen_ok g" and g': "gen_ok g'" "ig_lastMS g' < 2 ^ 48"
    and lt: "ig_lastMS g < ig_lastMS g' \<or> ig_lastMS g = ig_lastMS g' \<and> unat (ig_seq g) < unat (ig_seq g')"
  shows "string_less (formatUUID (id_bytes b g)) (formatUUID (id_bytes b' g'))"
proof -
  let ?h = "\<lambda>g. be 6 (nat (ig_lastMS g)) @ be 2 (0x7000 + unat (ig_seq g))"
  have h: "bytes_less (?h g) (?h g')"
  proof (cases "ig_lastMS g < ig_lastMS g'")
    case True
    with g g' have "bytes_less (be 6 (nat (ig_lastMS g))) (be 6 (nat (ig_lastMS g')))"
      by (intro be_less) (auto simp: gen_ok_def)
    then show ?thesis by (intro bytes_less_append) simp_all
  next
    case False
    with lt g' have "bytes_less (be 2 (0x7000 + unat (ig_seq g))) (be 2 (0x7000 + unat (ig_seq g')))"
      by (intro be_less) (auto simp: gen_ok_def)
    with False lt show ?thesis by (simp add: bytes_less_same)
  qed
  have l: "ig_lastMS g < 2 ^ 48" using lt g'(2) by linarith
  obtain a0 a1 a2 a3 a4 a5 a6 a7 r where a: "id_bytes b g = a0 # a1 # a2 # a3 # a4 # a5 # a6 # a7 # r"
    "[a0, a1, a2, a3, a4, a5, a6, a7] = ?h g" using id_bytes_eight[OF g l, of b] .
  obtain b0 b1 b2 b3 b4 b5 b6 b7 q where b: "id_bytes b' g' = b0 # b1 # b2 # b3 # b4 # b5 # b6 # b7 # q"
    "[b0, b1, b2, b3, b4, b5, b6, b7] = ?h g'" using id_bytes_eight[OF g', of b'] .
  show ?thesis unfolding a(1) b(1) by (rule formatUUID_less) (use h in \<open>simp only: a(2) b(2)\<close>)
qed

text \<open>The ids of a run of the generator: one per pair of random bytes and clock reading.\<close>

fun ids :: "(8 word list \<times> int) list \<Rightarrow> idgen \<Rightarrow> string list" where
  "ids [] g = []"
| "ids ((b, ms) # rs) g = (case next_id b ms g of (s, g') \<Rightarrow> s # ids rs g')"

fun last_gen :: "(8 word list \<times> int) list \<Rightarrow> idgen \<Rightarrow> idgen" where
  "last_gen [] g = g"
| "last_gen ((b, ms) # rs) g = last_gen rs (snd (next_id b ms g))"

lemma last_gen_mono: "gen_ok g \<Longrightarrow> ig_lastMS g \<le> ig_lastMS (last_gen rs g)"
proof (induction rs g rule: last_gen.induct)
  case (2 b ms rs g)
  then show ?case
    using idgen_step_ok[of g b ms] by (auto simp: next_id_def Let_def)
qed simp

lemma string_less_trans: "string_less a b \<Longrightarrow> string_less b c \<Longrightarrow> string_less a c"
  unfolding string_less_def by (rule str_less_trans)

lemma ids_increasing_from:
  "gen_ok g \<Longrightarrow> ig_lastMS (last_gen rs g) < 2 ^ 48 \<Longrightarrow>
     sorted_wrt string_less (ids rs g) \<and> (\<forall>s \<in> set (ids rs g). \<forall>b. string_less (formatUUID (id_bytes b g)) s)"
proof (induction rs g rule: ids.induct)
  case (2 b ms rs g)
  let ?g = "idgen_step b ms g"
  have ok: "gen_ok ?g" using idgen_step_ok(1)[OF "2.prems"(1)] .
  have lim: "ig_lastMS (last_gen rs ?g) < 2 ^ 48" using "2.prems"(2) by (simp add: next_id_def Let_def)
  have IH: "sorted_wrt string_less (ids rs ?g)"
    "\<forall>s \<in> set (ids rs ?g). \<forall>b. string_less (formatUUID (id_bytes b ?g)) s"
    using "2.IH"[of "fst (next_id b ms g)" ?g] ok lim by (auto simp: next_id_def Let_def)
  have "ig_lastMS ?g < 2 ^ 48" using last_gen_mono[OF ok, of rs] lim by simp
  then have first: "string_less (formatUUID (id_bytes b' g)) (formatUUID (id_bytes b ?g))" for b'
    using id_less[OF "2.prems"(1) ok _ idgen_step_ok(2)[OF "2.prems"(1)]] by blast
  show ?case using IH first by (auto simp: next_id_def Let_def intro: string_less_trans)
qed simp

lemma gen_ok_default: "gen_ok defaultIDGen"
  by (simp add: gen_ok_def defaultIDGen_def)

section \<open>Shape\<close>

lemma length_hex_Encode [simp]: "length (hex_Encode bs) = 2 * length bs"
  by (induction bs) (simp_all add: hex_Encode_def)

lemma length_formatUUID: "length b = 16 \<Longrightarrow> length (formatUUID b) = 36"
  by (simp add: formatUUID_def slice_def)

lemma hexdigit_in: "n < 16 \<Longrightarrow> hexdigit n \<in> set hexdigits"
  unfolding hexdigit_def by (rule nth_mem) (simp add: hexdigits_def)

lemma hex_Encode_in: "x \<in> set (hex_Encode bs) \<Longrightarrow> x \<in> set hexdigits"
proof -
  assume "x \<in> set (hex_Encode bs)"
  then obtain b :: "8 word" where "x = hexdigit (unat b div 16) \<or> x = hexdigit (unat b mod 16)"
    by (auto simp: hex_Encode_def hex_byte_def)
  moreover have "unat b div 16 < 16" "unat b mod 16 < 16" using unat_byte[of b] by simp_all
  ultimately show ?thesis using hexdigit_in by metis
qed

section \<open>Properties\<close>

text \<open>
  C36. Ids of one process are strictly increasing as strings, whatever the random bytes and
  however the clock moves (same millisecond, backwards, counter rollover), up to the
  48-bit end of the timestamp.
\<close>

theorem ids_strictly_increasing:
  assumes "ig_lastMS (last_gen rs defaultIDGen) < 2 ^ 48"
  shows "sorted_wrt string_less (ids rs defaultIDGen)"
  using ids_increasing_from[OF gen_ok_default assms] by blast

theorem ids_strictly_increasing_witness:
  "sorted_wrt string_less (ids [(replicate 16 7, 5), (replicate 16 0, 5), (replicate 16 1, 3)] defaultIDGen)"
  by (rule ids_strictly_increasing) (simp add: next_id_def idgen_step_def defaultIDGen_def Let_def)

text \<open>
  An id is 36 characters of lowercase hexadecimal in five groups, of 16 random bytes
  with the version digit 7.
\<close>

lemma id_shape:
  assumes "gen_ok g" and "length b = 16" and "ig_lastMS (idgen_step b ms g) < 2 ^ 48"
  shows "length (fst (next_id b ms g)) = 36
    \<and> set (fst (next_id b ms g)) \<subseteq> insert (CHR ''-'') (set hexdigits)
    \<and> fst (next_id b ms g) ! 14 = CHR ''7''"
proof -
  let ?g = "idgen_step b ms g"
  have len: "length (id_bytes b ?g) = 16" using assms(2) by (simp add: id_bytes_def Let_def slice_def)
  obtain a0 a1 a2 a3 a4 a5 a6 a7 r where a: "id_bytes b ?g = a0 # a1 # a2 # a3 # a4 # a5 # a6 # a7 # r"
    "[a0, a1, a2, a3, a4, a5, a6, a7] = be 6 (nat (ig_lastMS ?g)) @ be 2 (0x7000 + unat (ig_seq ?g))"
    using id_bytes_eight[OF idgen_step_ok(1)[OF assms(1)] assms(3), of b] by blast
  have s: "unat (ig_seq ?g) div 256 < 16"
    using idgen_step_ok(1)[OF assms(1), of b ms] by (intro less_mult_imp_div_less) (simp add: gen_ok_def)
  have "(0x7000 + unat (ig_seq ?g)) div 256 = 0x70 + unat (ig_seq ?g) div 256" by simp
  then have a6: "a6 = of_nat (0x70 + unat (ig_seq ?g) div 256)" using a(2) by (simp add: be_numeral)
  have "unat a6 = 0x70 + unat (ig_seq ?g) div 256"
    unfolding a6 by (rule byte_of_nat) (use s in simp)
  then have d7: "unat a6 div 16 = 7" using s by simp
  have "x \<in> set hexdigits" if "x \<in> set (hex_Encode bs)" for x bs
    using that by (rule hex_Encode_in)
  then have "set (formatUUID (id_bytes b ?g)) \<subseteq> insert (CHR ''-'') (set hexdigits)"
    unfolding formatUUID_def by auto
  moreover have "formatUUID (id_bytes b ?g) ! 14 = CHR ''7''"
    by (simp add: a(1) formatUUID_def slice_def hex_Encode_def hex_byte_def d7 hexdigit_def hexdigits_def)
  ultimately show ?thesis using length_formatUUID[OF len] by (simp add: next_id_def Let_def)
qed

end
