(* ===== verification/Registry.thy ===== *)
theory Registry
  imports Failure_Model Metadata
begin

text \<open>
  The JSON registry (json/registry.go, registry.go): registration of factories and
  upcasters, encoding of an envelope and the decode loop that upcasts a payload to the
  latest version. The byte formats are the codec's business: \<^verbatim>\<open>encoding/json\<close> works by
  reflection on user types, so marshalling and unmarshalling are arguments, as are the
  OpenTelemetry propagator and span. An upcaster is user code: it may change the
  registry while it runs.
\<close>

section \<open>Definitions\<close>

record envelope =
  env_Name :: string
  env_Version :: int
  env_Timestamp :: time
  env_ID :: string
  env_CorrelationID :: string
  env_CausationID :: string
  env_Headers :: "(string \<times> string) list"
  env_TraceID :: string
  env_SpanID :: string
  env_Payload :: string

record 'u upcaster =
  up_EventName :: string
  up_FromVersion :: int
  up_ToVersion :: int
  up_Upcast :: "ctx \<Rightarrow> string \<Rightarrow> ('u, string \<times> error option) comp"

text \<open>A factory returns a prototype or nil; a nil factory can be registered too.\<close>

type_synonym factory = "event option"

record 'u registry =
  reg_factories :: "string \<times> int \<Rightarrow> factory option option"
  reg_upcasters :: "string \<times> int \<Rightarrow> 'u upcaster option"
  reg_latest :: "string \<Rightarrow> int option"

definition NewRegistry :: "'u registry" where
  "NewRegistry = \<lparr>reg_factories = Map.empty, reg_upcasters = Map.empty, reg_latest = Map.empty\<rparr>"

text \<open>Reading a missing key of a Go map of integers gives 0.\<close>

definition latest_of :: "'u registry \<Rightarrow> string \<Rightarrow> int" where
  "latest_of r name = (case reg_latest r name of None \<Rightarrow> 0 | Some v \<Rightarrow> v)"

definition Register :: "string \<Rightarrow> factory option \<Rightarrow> int \<Rightarrow> 'u registry \<Rightarrow> 'u registry" where
  "Register name factory version0 r =
     (let version = (if version0 \<le> 0 then 1 else version0);
          r1 = r\<lparr>reg_factories := (reg_factories r)((name, version) \<mapsto> factory)\<rparr>
      in if latest_of r1 name < version
         then r1\<lparr>reg_latest := (reg_latest r1)(name \<mapsto> version)\<rparr> else r1)"

definition RegisterUpcaster :: "'u upcaster \<Rightarrow> 'u registry \<Rightarrow> 'u registry" where
  "RegisterUpcaster u r =
     (if up_FromVersion u \<le> 0 \<and> up_ToVersion u \<le> 1 then r
      else (let from = (if up_FromVersion u \<le> 0 then 1 else up_FromVersion u)
            in r\<lparr>reg_upcasters := (reg_upcasters r)((up_EventName u, from) \<mapsto> u)\<rparr>))"

text \<open>
  The codec: \<^verbatim>\<open>json.Marshal\<close> and \<^verbatim>\<open>json.Unmarshal\<close> for the envelope and for events,
  and what OpenTelemetry contributes to the headers. Unmarshalling an envelope fills in
  what it could read even when it fails.
\<close>

record codec =
  cd_marshal_env :: "envelope \<Rightarrow> error + string"
  cd_unmarshal_env :: "string \<Rightarrow> envelope \<times> error option"
  cd_marshal_event :: "event \<Rightarrow> error + string"
  cd_unmarshal_event :: "string \<Rightarrow> event \<Rightarrow> error + event"
  cd_prop_Fields :: "string list"
  cd_prop_Inject :: "ctx \<Rightarrow> (string \<times> string) list \<Rightarrow> (string \<times> string) list"
  cd_span :: "ctx \<Rightarrow> (string \<times> string) option"

section \<open>Encode\<close>

definition EncodeWith :: "codec \<Rightarrow> 'u id_source \<Rightarrow> 'u id_source option \<Rightarrow> ctx \<Rightarrow> event \<Rightarrow> metadata \<Rightarrow>
    'u world \<Rightarrow> (error + string) \<times> 'u world" where
  "EncodeWith cd NewID idGen c evt md0 w0 =
     (case (if md_ID md0 = []
            then ResolveOutbound NewID c evt
                   \<lparr>eo_Subject = [], eo_ID = [], eo_CorrelationID = md_CorrelationID md0,
                    eo_IDGenerator = idGen, eo_Headers = md_Headers md0, eo_InheritHeaders = []\<rparr> w0
            else (md0, w0)) of
        (md, w) \<Rightarrow>
          (case cd_marshal_event cd evt of
             Inl err \<Rightarrow> (Inl err, w)
           | Inr payload \<Rightarrow>
               (let v = (case ev_Version evt of None \<Rightarrow> 1 | Some n \<Rightarrow> n);
                    ts = (if IsZero (md_Timestamp md) then w_now w else md_Timestamp md);
                    kept = filter (\<lambda>(k, _). k \<notin> set (cd_prop_Fields cd)) (md_Headers md);
                    headers = cd_prop_Inject cd c kept;
                    span = (case cd_span cd c of None \<Rightarrow> ([], []) | Some p \<Rightarrow> p)
                in (cd_marshal_env cd
                     \<lparr>env_Name = ev_Name evt, env_Version = v, env_Timestamp = ts, env_ID = md_ID md,
                      env_CorrelationID = md_CorrelationID md, env_CausationID = md_CausationID md,
                      env_Headers = headers, env_TraceID = fst span, env_SpanID = snd span,
                      env_Payload = payload\<rparr>, w))))"

definition Encode :: "codec \<Rightarrow> 'u id_source \<Rightarrow> 'u id_source option \<Rightarrow> ctx \<Rightarrow> event \<Rightarrow>
    'u world \<Rightarrow> (error + string) \<times> 'u world" where
  "Encode cd NewID idGen c evt w =
     (case ResolveOutbound NewID c evt
             \<lparr>eo_Subject = [], eo_ID = [], eo_CorrelationID = [], eo_IDGenerator = idGen,
              eo_Headers = [], eo_InheritHeaders = []\<rparr> w of
        (md, w1) \<Rightarrow> EncodeWith cd NewID idGen c evt md w1)"

section \<open>Decode\<close>

text \<open>The metadata a decoded envelope puts into the context; the wire version 0 is read as 1.\<close>

definition wire_version :: "int \<Rightarrow> int" where
  "wire_version v = (if v = 0 then 1 else v)"

definition envelope_metadata :: "envelope \<Rightarrow> metadata" where
  "envelope_metadata env =
     \<lparr>md_ID = env_ID env, md_CorrelationID = env_CorrelationID env, md_CausationID = env_CausationID env,
      md_Name = env_Name env, md_Version = wire_version (env_Version env),
      md_Timestamp = env_Timestamp env, md_Headers = env_Headers env\<rparr>"

definition missing_upcaster :: "int \<Rightarrow> int \<Rightarrow> error" where
  "missing_upcaster version latest =
     WrapError (sentinel_text ErrMissingUpcaster @ '': v'' @ Itoa version @ '' to v'' @ Itoa latest)
       [Sentinel ErrMissingUpcaster]"

definition not_advancing :: "string \<Rightarrow> int \<Rightarrow> int \<Rightarrow> int \<Rightarrow> error" where
  "not_advancing name version next latest =
     WrapError (''upcaster for '' @ name @ '' v'' @ Itoa version
       @ '' does not advance to a valid version (to v'' @ Itoa next @ '', latest v'' @ Itoa latest @ '')'') []"

text \<open>
  The upcast loop: from \<open>version\<close> to the snapshot \<open>latest\<close>. The registry is read again in
  every round through \<open>reg\<close>.
\<close>

function upcast_loop :: "('u \<Rightarrow> 'u registry) \<Rightarrow> ctx \<Rightarrow> string \<Rightarrow> int \<Rightarrow> int \<Rightarrow> string \<Rightarrow>
    ('u, error + string \<times> int) comp" where
  "upcast_loop reg c name latest version payload w =
     (if version = latest then (Ret (Inr (payload, version)), w)
      else (case reg_upcasters (reg (w_user w)) (name, version) of
        None \<Rightarrow> (Ret (Inl (DecodeError name version (Some (missing_upcaster version latest)))), w)
      | Some up \<Rightarrow>
          (let next = up_ToVersion up in
           if next \<le> version \<or> next > latest
           then (Ret (Inl (DecodeError name version (Some (not_advancing name version next latest)))), w)
           else (case up_Upcast up c payload w of
               (Panics v st, w1) \<Rightarrow> (Panics v st, w1)
             | (Ret (_, Some err), w1) \<Rightarrow> (Ret (Inl (DecodeError name version (Some err))), w1)
             | (Ret (payload', None), w1) \<Rightarrow> upcast_loop reg c name latest next payload' w1))))"
  by pat_completeness auto
termination
  by (relation "measure (\<lambda>(reg, c, name, latest, version, payload, w). nat (latest - version))") auto

declare upcast_loop.simps [simp del]

definition build_event :: "codec \<Rightarrow> 'u registry \<Rightarrow> string \<Rightarrow> int \<Rightarrow> string \<Rightarrow> error + event" where
  "build_event cd r name version payload =
     (case reg_factories r (name, version) of
        Some (Some (Some proto)) \<Rightarrow>
          (case cd_unmarshal_event cd payload proto of
             Inr evt \<Rightarrow> Inr evt
           | Inl err \<Rightarrow> Inl (DecodeError name version (Some (wrap2 (Sentinel ErrMalformedEnvelope) err))))
      | _ \<Rightarrow> Inl (DecodeError name version (Some (Sentinel ErrUnknownEvent))))"

definition Decode :: "codec \<Rightarrow> ('u \<Rightarrow> 'u registry) \<Rightarrow> ctx \<Rightarrow> string \<Rightarrow> ('u, ctx \<times> (error + event)) comp" where
  "Decode cd reg c data w =
     (case cd_unmarshal_env cd data of
        (env, Some err) \<Rightarrow>
          (Ret (c, Inl (DecodeError (env_Name env) (env_Version env)
             (Some (wrap2 (Sentinel ErrMalformedEnvelope) err)))), w)
      | (env, None) \<Rightarrow>
          if env_Name env = [] \<or> env_Version env < 0
          then (Ret (c, Inl (DecodeError (env_Name env) (env_Version env)
                  (Some (WrapError (sentinel_text ErrMalformedEnvelope @ '': missing name or negative version'')
                    [Sentinel ErrMalformedEnvelope])))), w)
          else
            (let name = env_Name env; version = wire_version (env_Version env);
                 c1 = WithMetadata c (envelope_metadata env);
                 latest = latest_of (reg (w_user w)) name
             in if latest = 0 then (Ret (c1, Inl (DecodeError name version (Some (Sentinel ErrUnknownEvent)))), w)
                else if version > latest
                then (Ret (c1, Inl (DecodeError name version (Some (Sentinel ErrUnknownVersion)))), w)
                else (case upcast_loop reg c1 name latest version (env_Payload env) w of
                    (Panics v st, w1) \<Rightarrow> (Panics v st, w1)
                  | (Ret (Inl err), w1) \<Rightarrow> (Ret (c1, Inl err), w1)
                  | (Ret (Inr (payload, v)), w1) \<Rightarrow>
                      (Ret (c1, build_event cd (reg (w_user w1)) name v payload), w1))))"

section \<open>The registry invariant\<close>

text \<open>The latest version of a name is positive, has a registration, and bounds all of them.\<close>

definition registry_ok :: "'u registry \<Rightarrow> bool" where
  "registry_ok r \<longleftrightarrow>
     (\<forall>name. 0 \<le> latest_of r name
        \<and> (latest_of r name \<noteq> 0 \<longrightarrow> reg_factories r (name, latest_of r name) \<noteq> None))
   \<and> (\<forall>name v. reg_factories r (name, v) \<noteq> None \<longrightarrow> 0 < v \<and> v \<le> latest_of r name)"

lemma registry_ok_new: "registry_ok NewRegistry"
  by (simp add: registry_ok_def NewRegistry_def latest_of_def)

lemma latest_of_Register:
  "latest_of (Register name f v r) name' =
     (if name' = name then max (latest_of r name) (if v \<le> 0 then 1 else v) else latest_of r name')"
  by (auto simp: Register_def Let_def latest_of_def max_def split: option.splits if_splits)

lemma factories_Register:
  "reg_factories (Register name f v r) = (reg_factories r)((name, if v \<le> 0 then 1 else v) \<mapsto> f)"
  by (simp add: Register_def Let_def)

lemma registry_ok_Register:
  assumes "registry_ok r"
  shows "registry_ok (Register name f v r)"
proof -
  let ?r = "Register name f v r"
  have "0 \<le> latest_of ?r n \<and> (latest_of ?r n \<noteq> 0 \<longrightarrow> reg_factories ?r (n, latest_of ?r n) \<noteq> None)" for n
    using assms by (auto simp: registry_ok_def latest_of_Register factories_Register max_def)
  moreover have "0 < u \<and> u \<le> latest_of ?r n" if "reg_factories ?r (n, u) \<noteq> None" for n u
  proof (cases "n = name \<and> u = (if v \<le> 0 then 1 else v)")
    case True
    then show ?thesis by (auto simp: latest_of_Register)
  next
    case False
    then have "reg_factories r (n, u) \<noteq> None" using that by (auto simp: factories_Register split: if_splits)
    then have "0 < u \<and> u \<le> latest_of r n" using assms by (simp add: registry_ok_def)
    then show ?thesis by (auto simp: latest_of_Register le_max_iff_disj)
  qed
  ultimately show ?thesis by (auto simp: registry_ok_def)
qed

lemma registry_ok_RegisterUpcaster: "registry_ok r \<Longrightarrow> registry_ok (RegisterUpcaster u r)"
  by (simp add: registry_ok_def RegisterUpcaster_def Let_def latest_of_def)

section \<open>Decode errors\<close>

definition is_decode_failure :: "error \<Rightarrow> bool" where
  "is_decode_failure err \<longleftrightarrow> (\<exists>n v e. err = DecodeError n v (Some e))"

lemma upcast_loop_cases:
  fixes w :: "'u world"
  assumes run: "upcast_loop reg c name latest version payload w = (Ret r, w')"
  obtains (ended) "version = latest" "r = Inr (payload, version)" "w' = w"
    | (failed) e where "version \<noteq> latest" "r = Inl (DecodeError name version (Some e))"
    | (again) up :: "'u upcaster" and payload' w1 where "version < up_ToVersion up" "up_ToVersion up \<le> latest"
        "up_Upcast up c payload w = (Ret (payload', None), w1)"
        "upcast_loop reg c name latest (up_ToVersion up) payload' w1 = (Ret r, w')"
  using run[unfolded upcast_loop.simps[of reg c name latest version payload w]]
  by (auto simp: Let_def not_le not_less split: if_splits option.splits prod.splits result.splits)

lemma upcast_loop_result:
  "upcast_loop reg c name latest version payload w = (Ret r, w') \<Longrightarrow> version \<le> latest \<Longrightarrow>
     (\<exists>p. r = Inr (p, latest)) \<or> (\<exists>v e. r = Inl (DecodeError name v (Some e)) \<and> version \<le> v \<and> v < latest)"
proof (induction "nat (latest - version)" arbitrary: version payload w rule: less_induct)
  case less
  from less.prems(1) show ?case
  proof (cases rule: upcast_loop_cases)
    case (again up payload' w1)
    then show ?thesis using less.hyps[OF _ again(4)] by fastforce
  qed (use less.prems(2) in auto)
qed

lemma Decode_error:
  "Decode cd reg c data w = (Ret (c', Inl err), w') \<Longrightarrow> is_decode_failure err"
  by (auto simp: Decode_def Let_def is_decode_failure_def build_event_def wire_version_def
      split: prod.splits option.splits if_splits result.splits sum.splits
      dest!: upcast_loop_result)

section \<open>Success and round trip\<close>

lemma Decode_success:
  assumes "Decode cd reg c data w = (Ret (c', Inr evt), w')"
  obtains env payload where "cd_unmarshal_env cd data = (env, None)" "env_Name env \<noteq> []"
    "c' = WithMetadata c (envelope_metadata env)"
    "0 \<le> env_Version env" "wire_version (env_Version env) \<le> latest_of (reg (w_user w)) (env_Name env)"
    "build_event cd (reg (w_user w')) (env_Name env) (latest_of (reg (w_user w)) (env_Name env)) payload = Inr evt"
  using assms
  by (auto simp: Decode_def Let_def not_less split: prod.splits option.splits if_splits result.splits sum.splits
      dest!: upcast_loop_result)

lemma upcast_loop_latest: "upcast_loop reg c name v v payload w = (Ret (Inr (payload, v)), w)"
  by (simp add: upcast_loop.simps)

text \<open>An envelope of the latest version decodes without upcasting.\<close>

lemma Decode_latest:
  assumes "cd_unmarshal_env cd data = (env, None)" and "env_Name env \<noteq> []" and "0 \<le> env_Version env"
    and "latest_of (reg (w_user w)) (env_Name env) = wire_version (env_Version env)"
  shows "Decode cd reg c data w =
    (Ret (WithMetadata c (envelope_metadata env),
       build_event cd (reg (w_user w)) (env_Name env) (wire_version (env_Version env)) (env_Payload env)), w)"
  using assms by (auto simp: Decode_def Let_def upcast_loop_latest wire_version_def)

lemma EncodeWith_envelope:
  assumes "EncodeWith cd NewID idGen c evt md w = (Inr data, w')" and "md_ID md \<noteq> []"
  obtains env payload where "cd_marshal_env cd env = Inr data" "cd_marshal_event cd evt = Inr payload"
    "env_Payload env = payload" "env_Name env = ev_Name evt" "env_ID env = md_ID md"
    "env_CorrelationID env = md_CorrelationID md" "env_CausationID env = md_CausationID md"
    "env_Version env = (case ev_Version evt of None \<Rightarrow> 1 | Some n \<Rightarrow> n)"
    "env_Headers env = cd_prop_Inject cd c (filter (\<lambda>(k, _). k \<notin> set (cd_prop_Fields cd)) (md_Headers md))"
    "w' = w"
  using assms by (auto simp: EncodeWith_def Let_def split: sum.splits)

section \<open>Properties\<close>

text \<open>The registrations a program makes, in the order it makes them.\<close>

datatype 'u registration = DoRegister string "factory option" int | DoUpcaster "'u upcaster"

fun apply_registration :: "'u registration \<Rightarrow> 'u registry \<Rightarrow> 'u registry" where
  "apply_registration (DoRegister name f v) r = Register name f v r"
| "apply_registration (DoUpcaster u) r = RegisterUpcaster u r"

text \<open>
  C38. The registry stays consistent. After any sequence of Register and RegisterUpcaster
  calls the latest version of every registered name is positive, has a factory entry and is
  the greatest registered version; only a name that was never registered has latest 0.
\<close>

theorem registry_consistent:
  "registry_ok (fold apply_registration regs (NewRegistry :: 'u registry))"
proof -
  have "registry_ok r \<Longrightarrow> registry_ok (fold apply_registration regs r)" for r :: "'u registry"
  proof (induction regs arbitrary: r)
    case (Cons x regs)
    then show ?case by (cases x) (simp_all add: registry_ok_Register registry_ok_RegisterUpcaster)
  qed simp
  then show ?thesis by (simp add: registry_ok_new)
qed

lemma upcast_loop_failure:
  assumes "upcast_loop reg c name latest version payload w = (Ret (Inl err), w')"
  shows "\<exists>v e. err = DecodeError name v (Some e) \<and>
    (errors_Is e ErrMissingUpcaster
     \<or> (\<exists>up w1 p w2 p'. reg_upcasters (reg (w_user w1)) (name, v) = Some up \<and>
          (up_Upcast up c p w1 = (Ret (p', Some e), w2) \<or> e = not_advancing name v (up_ToVersion up) latest)))"
  using assms
proof (induction reg c name latest version payload w rule: upcast_loop.induct)
  case (1 reg c name latest version payload w)
  show ?case
  proof (cases "reg_upcasters (reg (w_user w)) (name, version)")
    case None
    then show ?thesis using "1.prems"
      by (auto simp: upcast_loop.simps[of reg c name latest version] missing_upcaster_def split: if_splits)
  next
    case (Some up)
    show ?thesis
    proof (cases "up_ToVersion up \<le> version \<or> latest < up_ToVersion up")
      case True
      then show ?thesis using "1.prems" Some
        by (auto simp: upcast_loop.simps[of reg c name latest version] Let_def split: if_splits)
    next
      case False
      show ?thesis using "1.prems" "1.IH"[OF _ Some refl False] Some False
        by (subst (asm) upcast_loop.simps) (fastforce simp: Let_def split: if_splits prod.splits result.splits option.splits)
    qed
  qed
qed

text \<open>
  C14. Decode never fails untyped. Whatever the bytes, the registry and the upcasters, the
  error of a failed Decode is a DecodeError with a cause. It is one of the decode sentinels,
  or the cause is the error of the upcaster of the version reached, or says that this
  upcaster does not advance.
\<close>

theorem decode_errors_typed:
  assumes "Decode cd reg c data w = (Ret (c', Inl err), w')"
  shows "\<exists>name v e. err = DecodeError name v (Some e) \<and>
    ((\<exists>s \<in> {ErrMalformedEnvelope, ErrUnknownEvent, ErrUnknownVersion, ErrMissingUpcaster}. errors_Is e s)
     \<or> (\<exists>up w1 p w2 p' latest. reg_upcasters (reg (w_user w1)) (name, v) = Some up \<and>
          (up_Upcast up c' p w1 = (Ret (p', Some e), w2) \<or> e = not_advancing name v (up_ToVersion up) latest)))"
  using assms
  by (fastforce simp: Decode_def Let_def build_event_def split: prod.splits option.splits if_splits result.splits
      sum.splits dest!: upcast_loop_failure)

text \<open>
  A codec for the witnesses: it knows the bytes of one envelope and writes the payload field
  of an event as it is.
\<close>

definition one_codec :: "envelope \<Rightarrow> codec" where
  "one_codec env = \<lparr>cd_marshal_env = (\<lambda>e. if e = env then Inr ''bytes'' else Inl (Sentinel ErrMalformedEnvelope)),
     cd_unmarshal_env = (\<lambda>d. if d = ''bytes'' then (env, None)
        else (env\<lparr>env_Name := [], env_Version := 0\<rparr>, Some (UserError ''invalid character'' [] None None []))),
     cd_marshal_event = (\<lambda>e. Inr (ev_Payload e)),
     cd_unmarshal_event = (\<lambda>p proto. Inr (proto\<lparr>ev_Payload := p\<rparr>)),
     cd_prop_Fields = [''traceparent''], cd_prop_Inject = (\<lambda>c h. h), cd_span = (\<lambda>c. None)\<rparr>"

definition wire_event :: event where
  "wire_event = \<lparr>ev_Name = ''order.created'', ev_Id = None, ev_Version = Some 2, ev_IdempotencyKey = None,
     ev_RateLimitKey = None, ev_OnErr = False, ev_Payload = ''{}''\<rparr>"

definition wire_md :: metadata where
  "wire_md = \<lparr>md_ID = ''m1'', md_CorrelationID = ''c1'', md_CausationID = ''m0'', md_Name = ''order.created'',
     md_Version = 2, md_Timestamp = 5, md_Headers = [(''tenant'', ''t'')]\<rparr>"

definition wire_env :: envelope where
  "wire_env = \<lparr>env_Name = ''order.created'', env_Version = 2, env_Timestamp = 5, env_ID = ''m1'',
     env_CorrelationID = ''c1'', env_CausationID = ''m0'', env_Headers = [(''tenant'', ''t'')],
     env_TraceID = [], env_SpanID = [], env_Payload = ''{}''\<rparr>"

definition wire_registry :: "unit registry" where
  "wire_registry = Register ''order.created'' (Some (Some (wire_event\<lparr>ev_Payload := []\<rparr>))) 2 NewRegistry"

lemma one_codec_reads:
  "cd_marshal_env (one_codec env0) env = Inr data \<Longrightarrow> cd_unmarshal_env (one_codec env0) data = (env, None)"
  by (simp add: one_codec_def split: if_splits)

lemma decode_garbage:
  "Decode (one_codec wire_env) (\<lambda>_. wire_registry) Background ''junk'' (zero_world ()) =
     (Ret (Background, Inl (DecodeError [] 0 (Some (wrap2 (Sentinel ErrMalformedEnvelope)
        (UserError ''invalid character'' [] None None []))))), zero_world ())"
  by (simp add: Decode_def one_codec_def)

theorem decode_errors_typed_witness:
  "\<exists>c' err w'. Decode (one_codec wire_env) (\<lambda>_. wire_registry) Background ''junk'' (zero_world ()) = (Ret (c', Inl err), w')
    \<and> (\<exists>name v e. err = DecodeError name v (Some e))"
  using decode_errors_typed[OF decode_garbage] decode_garbage by blast

text \<open>
  C13. Encode and Decode are inverse. An event encoded with resolved Metadata, under a codec
  that reads back what it wrote, decodes on a registry whose latest version of the name is
  the event's to the same event, and the context of the handler carries the same id,
  correlation id, causation id and timestamp, and the headers the propagator injected over
  the user's. The registry is not changed.
\<close>

theorem envelope_roundtrip:
  assumes "\<And>env data. cd_marshal_env cd env = Inr data \<Longrightarrow> cd_unmarshal_env cd data = (env, None)"
    and "\<And>p. cd_marshal_event cd evt = Inr p \<Longrightarrow> cd_unmarshal_event cd p proto = Inr evt"
    and "EncodeWith cd NewID idGen c evt md w = (Inr data, w1)" and "md_ID md \<noteq> []" and "md_Timestamp md \<noteq> 0"
    and "ev_Name evt \<noteq> []" and "v = (case ev_Version evt of None \<Rightarrow> 1 | Some n \<Rightarrow> n)" and "0 \<le> v"
    and "latest_of (reg (w_user w2)) (ev_Name evt) = wire_version v"
    and "reg_factories (reg (w_user w2)) (ev_Name evt, wire_version v) = Some (Some (Some proto))"
  shows "Decode cd reg c2 data w2 =
    (Ret (WithMetadata c2 (md\<lparr>md_Name := ev_Name evt, md_Version := wire_version v,
        md_Headers := cd_prop_Inject cd c (filter (\<lambda>(k, _). k \<notin> set (cd_prop_Fields cd)) (md_Headers md))\<rparr>),
      Inr evt), w2)"
proof -
  obtain p env where p: "cd_marshal_event cd evt = Inr p" and env: "cd_marshal_env cd env = Inr data"
    and f: "env_Payload env = p" "env_Name env = ev_Name evt" "env_ID env = md_ID md" "env_Version env = v"
      "env_Timestamp env = md_Timestamp md"
      "env_CorrelationID env = md_CorrelationID md" "env_CausationID env = md_CausationID md"
      "env_Headers env = cd_prop_Inject cd c (filter (\<lambda>(k, _). k \<notin> set (cd_prop_Fields cd)) (md_Headers md))"
    using assms(3-5,7) by (auto simp: EncodeWith_def Let_def split: sum.splits)
  have "build_event cd (reg (w_user w2)) (ev_Name evt) (wire_version v) p = Inr evt"
    using assms(2)[OF p] assms(10) by (simp add: build_event_def)
  with Decode_latest[OF assms(1)[OF env], where reg = reg and w = w2 and c = c2] assms(6, 8, 9) f show ?thesis
    by (simp add: envelope_metadata_def) (cases md, simp)
qed

theorem envelope_roundtrip_witness:
  "Decode (one_codec wire_env) (\<lambda>_. wire_registry) Background ''bytes'' (zero_world ()) =
    (Ret (WithMetadata Background wire_md, Inr wire_event), zero_world ())"
proof -
  have enc: "EncodeWith (one_codec wire_env) (\<lambda>w. (''x'', w)) None Background wire_event wire_md (zero_world ()) =
      (Inr ''bytes'', zero_world ())"
    by (simp add: EncodeWith_def one_codec_def wire_md_def wire_env_def wire_event_def Let_def)
  have "wire_md = wire_md\<lparr>md_Name := ev_Name wire_event, md_Version := wire_version 2,
      md_Headers := cd_prop_Inject (one_codec wire_env) Background
        (filter (\<lambda>(k, _). k \<notin> set (cd_prop_Fields (one_codec wire_env))) (md_Headers wire_md))\<rparr>"
    by (simp add: wire_md_def wire_event_def wire_version_def one_codec_def)
  moreover have "Decode (one_codec wire_env) (\<lambda>_. wire_registry) Background ''bytes'' (zero_world ()) =
    (Ret (WithMetadata Background (wire_md\<lparr>md_Name := ev_Name wire_event, md_Version := wire_version 2,
      md_Headers := cd_prop_Inject (one_codec wire_env) Background
        (filter (\<lambda>(k, _). k \<notin> set (cd_prop_Fields (one_codec wire_env))) (md_Headers wire_md))\<rparr>),
      Inr wire_event), zero_world ())"
    by (rule envelope_roundtrip[OF one_codec_reads _ enc, where proto = "wire_event\<lparr>ev_Payload := []\<rparr>"])
      (simp_all add: wire_event_def wire_md_def wire_registry_def wire_version_def one_codec_def
        Register_def Let_def NewRegistry_def latest_of_def)
  ultimately show ?thesis by (simp only: )
qed

text \<open>
  A negative version is written but never read. An event whose Version() is negative
  encodes without an error, Register takes its version as 1, and Decode refuses the envelope
  it wrote as malformed, whatever is registered.
\<close>

lemma negative_version_rejected:
  assumes "\<And>env data. cd_marshal_env cd env = Inr data \<Longrightarrow> cd_unmarshal_env cd data = (env, None)"
    and "EncodeWith cd NewID idGen c evt md w = (Inr data, w1)" and "ev_Version evt = Some v" and "v < 0"
  shows "\<exists>e. Decode cd reg c2 data w2 = (Ret (c2, Inl (DecodeError (ev_Name evt) v (Some e))), w2)
    \<and> errors_Is e ErrMalformedEnvelope"
proof -
  obtain env where env: "cd_marshal_env cd env = Inr data" "env_Version env = v" "env_Name env = ev_Name evt"
    using assms(2, 3) by (auto simp: EncodeWith_def Let_def split: sum.splits prod.splits)
  with assms(1)[OF env(1)] assms(4) show ?thesis by (simp add: Decode_def)
qed

end
