(* ===== verification/Spec2Isabelle.thy ===== *)
theory Spec2Isabelle
  imports Delivery_Guarantees Retry Breaker_Machine Redis Local_Shutdown Jetstream_Publish Nats_Bus Dlq_Stream Log_Observer Shutdown_Drain Subscriptions Jetstream_Emit Observers Metrics Tracing Ids Registry
begin

text \<open>
  A verification development of the Go event bus library (module isaquesb/go-event-bus).

  \<^bold>\<open>The program.\<close> An event is emitted on a bus; the bus hands it to the subscribed handlers
  through a chain of invokers (tracing, retry, circuit breaker, rate limiter, idempotency, DLQ).
  Three transports exist: the in-process bus (local-bus.go), NATS Core (nats/) and JetStream
  (jetstream/). Each runs a handler with InvokeHandler (invoke.go) and gives the error of the
  chain to Settle (settle.go), which decides what happens to the message, publishes it to the
  dead-letter queue when it ended, and is the only place that reports a terminal outcome to the
  Observer. Lifecycle (lifecycle.go) admits work and drains it on Shutdown. Observers turn the
  signals into log records, metrics and span events.

  \<^bold>\<open>The model\<close> is shallow. A call that can panic or touch shared state is a function from a
  \<^verbatim>\<open>world\<close> to a result and a world: the world holds the clock, the Observer calls made so far,
  the FailureScopes by address, the fired cancellations and the state of user code. A panic is
  a value of the result, so every recover of the source is a branch. Code outside the repository
  (handlers, publishers, stores, the codec, the broker client, the OpenTelemetry and Prometheus
  SDKs) is an argument. Contexts are records of the values the library stores in them plus the
  cancellation sources they descend from. Go errors are trees that \<^verbatim>\<open>errors.Is\<close> and \<^verbatim>\<open>errors.As\<close>
  search. Go maps of headers are association lists, in the order an iteration takes. Strings are
  bytes. Where the source holds a mutex, the critical section is one function on the protected
  state, and a step relation interleaves the critical sections of all goroutines.

  \<^bold>\<open>Shared ground.\<close> Prelude: types and generic lemmas. Go_Errors, Failure_Model (errors.go,
  failure.go, the classification parts of settle.go, signals.go and scope.go): the error values
  and what each classification answers for. World (event.go, metadata.go, delivery.go,
  signals.go): the data. Frames: when a computation leaves the report of a delivery alone, with
  the contract \<^verbatim>\<open>quiet_invoker\<close> every invoker meets. Samples: inputs of the witnesses.

  \<^bold>\<open>The failure model.\<close> Header_Text and History_Header (dlq.go, history.go): text that is safe in
  a header, truncation at rune boundaries, the JSON history. Dead_Letter (dlq.go): records and
  the bounded publish loop, with the contract \<^verbatim>\<open>dlq_publisher\<close> interpreted by the in-memory queue.
  Settlement (settle.go, scope.go) and Invoke (invoke.go): one report per delivery, by an
  abstract automaton of the report of a scope that the code refines. Delivery_Guarantees: both
  composed. This theory: any chain of the library's own invokers.

  \<^bold>\<open>Invokers.\<close> Invokers (invoker/chain.go, dlq.go, rate-limit.go), Retry (invoker/retry.go, its
  backoff on 64-bit words), Circuit_Breaker and Breaker_Machine (invoker/circuit-breaker.go: the
  operations, and their interleavings with the invariant of tokens, counters and transitions),
  Idempotency (invoker/idempotency.go; the store is the locale \<^verbatim>\<open>idempotency_store\<close>, interpreted by
  the memory store and by the redis store), Redis (redis/: the Lua script over the locale
  \<^verbatim>\<open>redis_hash\<close>, interpreted by a server that expires keys), Tracing (telemetry/tracer.go; the
  locale \<^verbatim>\<open>tracer_sdk\<close>, interpreted by the no-op tracer).

  \<^bold>\<open>Transports.\<close> Lifecycle (lifecycle.go): admission and drain in every interleaving. Local_Bus,
  Local_Dispatch and Local_Shutdown (local-bus.go): one execution; the slots, the queue and the
  overflow policies of asynchronous dispatch; both composed with Shutdown. Jetstream_Consume,
  Jetstream_Publish, Jetstream_Emit (jetstream/bus.go): one message to its one action; the
  publish retry loop; deduplication by message id. Nats_Reply and Nats_Bus (nats/errors.go,
  nats/bus.go): request, reply and error replies. Shutdown_Drain: the drain protocol of both
  broker transports, proved once in the locale \<^verbatim>\<open>drain_protocol\<close> and interpreted for each.
  Subscriptions: Subscribe and RegisterSubscribers as steps of that protocol. Dlq_Stream
  (jetstream/dlq.go, jetstream/replayer.go, trace_headers.go): dead letters and their replay.

  \<^bold>\<open>Data and observers.\<close> Ids (id.go), Metadata (options.go, metadata.go), Registry (registry.go,
  json/registry.go, over an abstract codec). Observers (observer.go): fan-out and isolation.
  Log_Observer (slog_observer.go): records and deduplication windows with their timers. Metrics
  (prometheus/observer.go, telemetry/observer.go): the calls each signal leads to, and the gauge
  of the breaker, which this theory joins with the machine of the breaker.

  \<^bold>\<open>Termination and bounds.\<close> Loops that the code bounds are recursive functions with a measure
  (the publish loops, the retry loop, the upcast loop, truncation). The replay loop fetches until
  a broker runs dry and is a \<^verbatim>\<open>partial_function (option)\<close>; that it returns under a limit is a
  property. Nothing runs on fuel. Durations that the code multiplies or shifts are 64-bit words,
  with the wrap-around of Go; other integers are unbounded, and so are the sequence and
  generation counters of a breaker until a transition is reported, where the number is a uint64.
  Progress is stated as: from every reachable state the end is reachable, by steps that are
  bounded in number, provided running handlers return; fairness of the scheduler is not modelled.

  \<^bold>\<open>Not modelled.\<close> Producer spans and debug logs of the buses, the choice of a tracer or logger by
  a constructor, and the declaration of instruments: they are calls into SDKs whose result no
  other code reads. The restoration of a trace context by the registry (extractTrace). The
  bytes of encoding/json beyond its strings. Constructors that only copy fields. The interfaces
  of bus.go, which have no behaviour, and the example programs, which only wire the library.
\<close>

section \<open>The library's own chain\<close>

text \<open>
  An invoker of the library, over an environment that keeps its contract: a tracer, stores,
  callbacks and a publisher that do not report for a delivery. A Chain of them is one again.
\<close>

inductive library_invoker :: "'u env \<Rightarrow> 'u invoker \<Rightarrow> bool" for E :: "'u env" where
  tracer: "tracer_sdk (T :: ('u, string) tracer) \<Longrightarrow> library_invoker E (TracerInvoker_Invoke T)"
| retry: "library_invoker E (Retry_Invoke E pol)"
| breaker: "circuit_breaker C \<Longrightarrow> library_invoker E (CircuitBreaker_Invoke C)"
| limiter: "rate_limit Allow cfg \<Longrightarrow> library_invoker E (RateLimiter_Invoke Allow cfg)"
| idempotency: "idempotency_store Get Put Delete view \<Longrightarrow> library_invoker E (Idempotency_Invoke Get Put ttl)"
| dlq: "dlq_publisher Publish \<Longrightarrow> library_invoker E (DLQ_Invoke E (Some Publish))"
| chain: "(\<And>i. i \<in> set is \<Longrightarrow> library_invoker E i) \<Longrightarrow> library_invoker E (Chain_Invoke is)"

lemma library_invoker_quiet: "library_invoker E i \<Longrightarrow> quiet_runtime E \<Longrightarrow> quiet_invoker i"
proof (induction rule: library_invoker.induct)
  case (tracer T)
  then show ?case by (intro tracer_sdk.quiet_TracerInvoker)
next
  case (retry pol)
  then show ?case by (rule quiet_runtime.quiet_Retry)
next
  case (breaker C)
  then show ?case by (intro circuit_breaker.quiet_CircuitBreaker)
next
  case (limiter Allow cfg)
  then show ?case by (intro rate_limit.quiet_RateLimiter)
next
  case (idempotency Get Put Delete view ttl)
  then show ?case by (intro idempotency_store.quiet_Idempotency)
next
  case (dlq Publish)
  then show ?case by (intro dlq_runtime.quiet_DLQ dlq_runtime.intro)
next
  case (chain "is")
  then show ?case by (intro quiet_Chain) simp
qed

text \<open>
  C2. One delivery through any chain of the library. Whatever invokers of the library make up the
  chain, in whatever order, nested and repeated as they may be, and whatever the handler, the
  stores, the publisher and the callbacks do, panics included: the Observer receives exactly one
  HandlerDone for the delivery, no Failure after a success, at most one after an error, and on
  the final delivery, after which the broker redelivers nothing, exactly one for every error
  that is not a duplicate, with the outcome dead-lettered, failed to dead-letter, dropped or
  interrupted: no loss is silent. Only a panic out of the settlement itself leaves none.
\<close>

theorem library_chain_settles:
  assumes "quiet_runtime E" and "\<forall>i \<in> set is. library_invoker E i"
    and "cx_scope c = Some sid" and "sid < w_next w" and "report_of sid w = clean_report" and "cx_observer c = Some ob"
    and "quiet_handler sid fn" and "quiet_dlq pub"
    and "InvokeHandler c (Some (Chain_Invoke is)) evt name fn w = (err, w1)"
    and "Settle E c (settle_in sub (Some evt) name err pub) w1 = (r, w2)"
  shows "count_if (done_on sid) (w_trace w2) = 1 \<and> count_if (failure_on sid) (w_trace w2) \<le> (if err = None then 0 else 1)
    \<and> (\<forall>s e. r = Ret s \<and> err = Some e \<and> Final (delivery_of c) \<and> \<not> errors_Is e ErrDuplicate \<longrightarrow> count_if (failure_on sid) (w_trace w2) = 1
        \<and> s_Outcome s \<in> {OutcomeDeadLettered, OutcomeDLQPublishFailed, OutcomeDropped, OutcomeInterrupted})"
proof -
  have E: "in_Err (settle_in sub (Some evt) name err pub) = None \<longleftrightarrow> err = None" by simp
  have p: "quiet_dlq (in_Publisher (settle_in sub (Some evt) name err pub))" using assms(8) by simp
  have "quiet_invoker (Chain_Invoke is)" using assms(1, 2) by (intro quiet_Chain library_invoker_quiet) auto
  then have "quiet_chain (Some (Chain_Invoke is))" by simp
  note report = delivery_report[OF assms(3-5) this assms(7, 9) quiet_step_refl assms(3) refl quiet_runtime.quiet_runtime[OF assms(1)] p E assms(10)]
  then have counts: "count_if (done_on sid) (w_trace w2) = 1"
    "count_if (failure_on sid) (w_trace w2) = (if err \<noteq> None \<and> settle_reported r then 1 else 0)"
    using assms(6) by (simp_all add: report_of_def observed_def)
  have "settle_reported r \<and> s_Outcome s \<in> {OutcomeDeadLettered, OutcomeDLQPublishFailed, OutcomeDropped, OutcomeInterrupted}"
    if "r = Ret s" "err = Some e" "Final (delivery_of c)" "\<not> errors_Is e ErrDuplicate" for s e
    using final_delivery_never_silent[OF assms(10)[unfolded that(1)] _ that(3, 4)] that(1, 2) by (auto simp: settle_reported_def)
  with counts show ?thesis by auto
qed

text \<open>A chain for the witness: tracing, retry, idempotency and DLQ around a handler that panics.\<close>

definition sample_chain :: "(string \<Rightarrow> idempotency_record option) invoker list" where
  "sample_chain = [TracerInvoker_Invoke (noop_tracer :: (_, string) tracer), Retry_Invoke timer_env sample_policy,
     Idempotency_Invoke MemoryStore_Get MemoryStore_Put 0, DLQ_Invoke timer_env (Some (failing_publisher boom))]"

lemma sample_chain_library: "\<forall>i \<in> set sample_chain. library_invoker timer_env i"
  by (auto simp: sample_chain_def intro!: library_invoker.intros noop.tracer_sdk_axioms intro: memory_store.idempotency_store_axioms)

theorem library_chain_settles_witness:
  "count_if (done_on 0) (w_trace (snd (Settle timer_env sample_ctx (settle_in None (Some sample_event) ''h''
     (fst (InvokeHandler sample_ctx (Some (Chain_Invoke sample_chain)) sample_event ''h'' panicking (sample_world Map.empty)))
     (Some (failing_publisher boom)))
     (snd (InvokeHandler sample_ctx (Some (Chain_Invoke sample_chain)) sample_event ''h'' panicking (sample_world Map.empty)))))) = 1"
  by (rule library_chain_settles[OF timers.quiet_runtime_axioms sample_chain_library _ _ _ _ _ _ prod.collapse[symmetric] prod.collapse[symmetric],
        THEN conjunct1]) simp_all

section \<open>The breaker and its gauge\<close>

text \<open>The last entry of a transition log has the largest number and the state the log ends in.\<close>

lemma log_path_last:
  assumes "log_path cfg n s ts s'" and "ts \<noteq> []"
  shows "tr_to (last ts) = s' \<and> tr_seq (last ts) = n + length ts"
  using assms by (induction ts arbitrary: n s) (auto split: if_splits)

lemma log_path_seq:
  assumes "log_path cfg n s ts s'" and "t \<in> set ts"
  shows "tr_seq t \<le> n + length ts \<and> (tr_seq t = n + length ts \<longrightarrow> t = last ts)"
  using assms
proof (induction ts arbitrary: n s)
  case (Cons x ts)
  then show ?case by (cases ts) fastforce+
qed simp

lemma known_state: "breakerState st \<noteq> BreakerUnknown"
  by (cases st) simp_all

lemma seq_order:
  assumes "a \<le> b" and "b < 2 ^ 64"
  shows "(of_nat a :: 64 word) \<le> of_nat b" and "(of_nat a :: 64 word) = of_nat b \<Longrightarrow> a = b"
  using assms by (auto simp: word_le_nat_alt word_unat_eq_iff unat_of_nat take_bit_nat_eq_self)

text \<open>
  C33. The breaker gauge shows the breaker. Whatever calls a circuit breaker admits and however
  they end, once the transitions it reported so far for a handler have all been delivered, in
  any order, any number of times and with any other signals in between, the gauge of that
  handler is the current state of the breaker, in the Prometheus observer and in the telemetry
  observer alike: a late, older transition never overwrites a newer state. The sequence number
  is a uint64, so the log is shorter than 2^64.
\<close>

theorem gauge_tracks_breaker:
  assumes "breaker_reach cfg s" and "br_log s \<noteq> []" and "length (br_log s) < 2 ^ 64"
    and "\<forall>t. (BreakerTransition t \<in> set (map snd ss) \<and> bt_Handler t = h) = (t \<in> transition_report bid h ` set (br_log s))"
  shows "gauge_of h (pm_calls (prom_run (map snd ss))) = gauge_value (breakerState (hb_state (br_b s)))
    \<and> gauge_of h (ot_calls (otel_run errType True ss)) = gauge_value (breakerState (hb_state (br_b s)))"
proof -
  let ?t = "transition_report bid h (last (br_log s))"
  have path: "log_path cfg 0 stateClosed (br_log s) (hb_state (br_b s))"
    using breaker_inv_reach[OF assms(1)] by (simp add: breaker_inv_def log_ok_def)
  note lst = log_path_last[OF path assms(2)]
  have newest: "bt_BreakerID t' = bt_BreakerID ?t \<and> bt_Seq t' \<le> bt_Seq ?t \<and> (bt_Seq t' = bt_Seq ?t \<longrightarrow> bt_To t' = bt_To ?t)"
    if "BreakerTransition t' \<in> set (map snd ss)" "bt_Handler t' = bt_Handler ?t" for t'
  proof -
    from that(2) have "bt_Handler t' = h" by (simp add: transition_report_def)
    with that(1) assms(4) obtain tr where tr: "tr \<in> set (br_log s)" "t' = transition_report bid h tr" by blast
    from log_path_seq[OF path tr(1)] lst seq_order[OF _ assms(3)] tr(2) show ?thesis
      by (auto simp: transition_report_def)
  qed
  have "?t \<in> transition_report bid h ` set (br_log s)" using assms(2) by simp
  with assms(4) have "BreakerTransition ?t \<in> set (map snd ss)" by blast
  from gauge_follows_newest[OF this] newest lst
  have "gauge_of h (pm_calls (prom_run (map snd ss))) = gauge_value (breakerState (hb_state (br_b s)))"
    by (auto simp: transition_report_def known_state)
  then show ?thesis by (simp add: same_gauge)
qed

theorem gauge_tracks_breaker_witness:
  "gauge_of ''h'' (pm_calls (prom_run (map (BreakerTransition \<circ> transition_report 9 ''h'') (rev (br_log probe_run))))) = Some 2"
proof -
  let ?ss = "map (\<lambda>tr. (False, BreakerTransition (transition_report 9 ''h'' tr))) (rev (br_log probe_run))"
  have sent: "\<forall>t. (BreakerTransition t \<in> set (map snd ?ss) \<and> bt_Handler t = ''h'') = (t \<in> transition_report 9 ''h'' ` set (br_log probe_run))"
    by (auto simp: transition_report_def)
  have "br_log probe_run \<noteq> []" "length (br_log probe_run) < 2 ^ 64" by (simp_all add: probe_run_def open_run_def)
  from gauge_tracks_breaker[OF reach_probe_run this sent] show ?thesis
    by (simp add: probe_run_def gauge_value_def comp_def rev_map)
qed

end
